(* ===== verification/Prelude.thy ===== *)
theory Prelude
  imports Main "HOL-Library.Word" "HOL-Library.AList"
begin

text \<open>
  The shared base of the development: asynchronous handlers as resumptions over an
  explicit world, the calculus for running and interleaving them, hash maps as
  association lists, and the fixed-width arithmetic the Rust code uses.

  A handler is an \<^emph>\<open>asynchronous\<close> Rust function. Between two of its effects (a Redis
  command, a database query, a critical section of a mutex) any other request may run.
  A value of type \<open>prog\<close> therefore is a tree: either the function has returned, or its
  next atomic effect is a function of the world that gives the rest of the handler and the
  new world. \<open>run\<close> executes one handler alone; \<open>pool_step\<close> lets a list of handlers take turns.
\<close>

section \<open>Collections of rules\<close>

named_theorems run_simps "equations that execute a handler"
named_theorems text_simps "equations of the string operations"

section \<open>Handlers as resumptions\<close>

datatype (dead 'w, 'a) prog = Ret 'a | Act "'w \<Rightarrow> ('w, 'a) prog \<times> 'w"

primrec run :: "('w, 'a) prog \<Rightarrow> 'w \<Rightarrow> 'a \<times> 'w" where
  "run (Ret a) = (\<lambda>w. (a, w))"
| "run (Act f) = (\<lambda>w. case map_prod run id (f w) of (g, w') \<Rightarrow> g w')"

primrec bind :: "('w, 'a) prog \<Rightarrow> ('a \<Rightarrow> ('w, 'b) prog) \<Rightarrow> ('w, 'b) prog" where
  "bind (Ret a) k = k a"
| "bind (Act f) k = Act (\<lambda>w. map_prod (\<lambda>p. bind p k) id (f w))"

text \<open>One atomic effect.\<close>

definition act :: "('w \<Rightarrow> 'a \<times> 'w) \<Rightarrow> ('w, 'a) prog" where
  "act f = Act (\<lambda>w. case f w of (a, w') \<Rightarrow> (Ret a, w'))"

text \<open>The question mark operator: an error leaves the handler, a value goes on.\<close>

definition attempt :: "('w, 'e + 'a) prog \<Rightarrow> ('a \<Rightarrow> ('w, 'e + 'b) prog) \<Rightarrow> ('w, 'e + 'b) prog" where
  "attempt p k = bind p (\<lambda>r. case r of Inl e \<Rightarrow> Ret (Inl e) | Inr a \<Rightarrow> k a)"

text \<open>\<open>map_err\<close> of \<open>Result\<close>.\<close>

definition map_err :: "('e \<Rightarrow> 'f) \<Rightarrow> 'e + 'a \<Rightarrow> 'f + 'a" where
  "map_err f r = (case r of Inl e \<Rightarrow> Inl (f e) | Inr a \<Rightarrow> Inr a)"

definition map_result :: "('a \<Rightarrow> 'b) \<Rightarrow> ('w, 'a) prog \<Rightarrow> ('w, 'b) prog" where
  "map_result f p = bind p (\<lambda>a. Ret (f a))"

definition lift_err :: "('e \<Rightarrow> 'f) \<Rightarrow> ('w, 'e + 'a) prog \<Rightarrow> ('w, 'f + 'a) prog" where
  "lift_err f p = map_result (map_err f) p"

text \<open>\<open>ok_or_else\<close> of \<open>Option\<close>.\<close>

definition ok_or :: "'e \<Rightarrow> 'a option \<Rightarrow> 'e + 'a" where
  "ok_or e x = (case x of None \<Rightarrow> Inl e | Some a \<Rightarrow> Inr a)"

lemma map_err_simps [simp]:
  "map_err f (Inl e) = Inl (f e)"
  "map_err f (Inr a) = Inr a"
  by (simp_all add: map_err_def)

lemma map_err_eq_Inr [simp]: "map_err f r = Inr a \<longleftrightarrow> r = Inr a"
  by (cases r) simp_all

lemma ok_or_simps [simp]:
  "ok_or e None = Inl e"
  "ok_or e (Some a) = Inr a"
  by (simp_all add: ok_or_def)

lemma run_Ret [run_simps]: "run (Ret a) w = (a, w)"
  by simp

lemma run_act [run_simps]: "run (act f) w = f w"
  by (simp add: act_def split: prod.split)

lemma run_bind [run_simps]: "run (bind p k) w = (case run p w of (a, w') \<Rightarrow> run (k a) w')"
proof (induction p arbitrary: w)
  case (Ret a)
  then show ?case by simp
next
  case (Act f)
  obtain p' w' where f: "f w = (p', w')" by (cases "f w")
  have "p' \<in> Basic_BNFs.fsts (f w)" by (simp add: f)
  then have "run (bind p' k) w' = (case run p' w' of (a, w'') \<Rightarrow> run (k a) w'')"
    by (intro Act) auto
  then show ?case by (simp add: f)
qed

lemma run_attempt [run_simps]:
  "run (attempt p k) w = (case run p w of (Inl e, w') \<Rightarrow> (Inl e, w') | (Inr a, w') \<Rightarrow> run (k a) w')"
  by (simp add: attempt_def run_bind split: prod.split sum.split)

lemma run_map_result [run_simps]:
  "run (map_result f p) w = (case run p w of (a, w') \<Rightarrow> (f a, w'))"
  by (simp add: map_result_def run_bind)

lemma run_lift_err [run_simps]:
  "run (lift_err f p) w = (case run p w of (r, w') \<Rightarrow> (map_err f r, w'))"
  by (simp add: lift_err_def run_map_result)

lemma attempt_Inr [simp]: "attempt (Ret (Inr a)) h = h a"
  by (simp add: attempt_def)

lemma attempt_Inl [simp]: "attempt (Ret (Inl e)) h = Ret (Inl e)"
  by (simp add: attempt_def)

lemma bind_bind: "bind (bind p h) k = bind p (\<lambda>a. bind (h a) k)"
proof (induction p)
  case (Act f)
  have "map_prod (\<lambda>p. bind p k) id (map_prod (\<lambda>p. bind p h) id (f w)) =
      map_prod (\<lambda>p. bind p (\<lambda>a. bind (h a) k)) id (f w)" for w
  proof (cases "f w")
    case (Pair p' w')
    then have "p' \<in> Basic_BNFs.fsts (f w)" by simp
    from Act [OF rangeI this] show ?thesis by (simp add: Pair)
  qed
  then show ?case by simp
qed simp

lemma bind_map_result: "bind (map_result f p) k = bind p (\<lambda>a. k (f a))"
  by (simp add: map_result_def bind_bind)

text \<open>A run that ends well ran each part well.\<close>

lemma attempt_InrE:
  assumes "run (attempt p k) w = (Inr x, w')"
  obtains a w1 where "run p w = (Inr a, w1)" and "run (k a) w1 = (Inr x, w')"
  using assms by (auto simp: run_attempt split: prod.splits sum.splits)

lemma bindE:
  assumes "run (bind p k) w = (x, w')"
  obtains a w1 where "run p w = (a, w1)" and "run (k a) w1 = (x, w')"
  using assms by (auto simp: run_bind split: prod.splits)

lemma run_lift_err_Inr: "run (lift_err f p) w = (Inr a, w') \<longleftrightarrow> run p w = (Inr a, w')"
  by (auto simp: run_lift_err split: prod.split)

lemma run_Ret_iff: "run (Ret a) w = (b, w') \<longleftrightarrow> a = b \<and> w = w'"
  by (simp add: run_Ret)

section \<open>Properties of a single run\<close>

text \<open>
  \<open>always P p\<close>: whatever the world, a run of \<open>p\<close> relates the world before, the result and the world
  after by \<open>P\<close>.
\<close>

definition always :: "('w \<Rightarrow> 'a \<Rightarrow> 'w \<Rightarrow> bool) \<Rightarrow> ('w, 'a) prog \<Rightarrow> bool" where
  "always P p \<longleftrightarrow> (\<forall>w. case run p w of (a, w') \<Rightarrow> P w a w')"

lemma always_run: "always P p \<Longrightarrow> run p w = (a, w') \<Longrightarrow> P w a w'"
  by (auto simp: always_def split: prod.splits)

lemma alwaysI: "(\<And>w a w'. run p w = (a, w') \<Longrightarrow> P w a w') \<Longrightarrow> always P p"
  by (auto simp: always_def split: prod.splits)

text \<open>
  \<open>steps T R p\<close>: every step of \<open>p\<close> relates the worlds before and after it by \<open>T\<close>, whatever other
  requests do between the steps, and what \<open>p\<close> returns satisfies \<open>R\<close>.
\<close>

inductive steps :: "('w \<Rightarrow> 'w \<Rightarrow> bool) \<Rightarrow> ('a \<Rightarrow> bool) \<Rightarrow> ('w, 'a) prog \<Rightarrow> bool" for T R where
  Ret: "R a \<Longrightarrow> steps T R (Ret a)"
| Act: "(\<And>w p' w'. f w = (p', w') \<Longrightarrow> T w w' \<and> steps T R p') \<Longrightarrow> steps T R (Act f)"

inductive_cases steps_RetE: "steps T R (Ret a)"
inductive_cases steps_ActE: "steps T R (Act f)"

lemma steps_act:
  fixes f :: "'w \<Rightarrow> 'a \<times> 'w"
  assumes "\<And>w a w'. f w = (a, w') \<Longrightarrow> T w w' \<and> R a"
  shows "steps T R (act f)"
  unfolding act_def
proof (rule steps.Act)
  fix w w' and p' :: "('w, 'a) prog"
  assume "(case f w of (a, w') \<Rightarrow> (Ret a, w')) = (p', w')"
  then show "T w w' \<and> steps T R p'"
    using assms by (auto intro: steps.Ret split: prod.splits)
qed

lemma steps_bind:
  assumes "steps T R p" and "\<And>a. R a \<Longrightarrow> steps T S (k a)"
  shows "steps T S (bind p k)"
  using assms(1)
proof induction
  case (Ret a)
  then show ?case by (simp add: assms(2))
next
  case (Act f)
  show ?case
    unfolding bind.simps
  proof (rule steps.Act)
    fix w q w'
    assume "map_prod (\<lambda>p. bind p k) id (f w) = (q, w')"
    then obtain p' where "f w = (p', w')" and q: "q = bind p' k"
      by (cases "f w") auto
    with Act show "T w w' \<and> steps T S q" by blast
  qed
qed

lemma steps_attempt:
  assumes "steps T R p" and "\<And>e. R (Inl e) \<Longrightarrow> S (Inl e)" and "\<And>a. R (Inr a) \<Longrightarrow> steps T S (k a)"
  shows "steps T S (attempt p k)"
  unfolding attempt_def
  by (rule steps_bind [OF assms(1)]) (auto split: sum.split intro: assms steps.Ret)

lemma steps_map_result: "steps T (\<lambda>a. R (f a)) p \<Longrightarrow> steps T R (map_result f p)"
  unfolding map_result_def by (erule steps_bind) (rule steps.Ret)

lemma steps_mono:
  assumes "steps T R p" and "\<And>w w'. T w w' \<Longrightarrow> U w w'" and "\<And>a. R a \<Longrightarrow> S a"
  shows "steps U S p"
  using assms(1)
proof induction
  case (Act f)
  show ?case by (rule steps.Act) (use Act assms(2) in blast)
qed (auto intro: steps.Ret assms(3))

lemma steps_run:
  assumes "steps T R p" and "reflp T" and "transp T" and "run p w = (a, w')"
  shows "T w w' \<and> R a"
  using assms(1,4)
proof (induction arbitrary: w)
  case (Ret b)
  then show ?case using assms(2) by (auto simp: reflp_def)
next
  case (Act f)
  obtain p' v where f: "f w = (p', v)" by (cases "f w")
  with Act.prems have "run p' v = (a, w')" by simp
  with Act.IH f have "T w v" "T v w' \<and> R a" by blast+
  then show ?case using assms(3) by (blast dest: transpD)
qed

text \<open>An observation of the world that no step of the handler changes.\<close>

abbreviation keeps :: "('w \<Rightarrow> 'b) \<Rightarrow> ('w, 'a) prog \<Rightarrow> bool" where
  "keeps v \<equiv> steps (\<lambda>w w'. v w' = v w) (\<lambda>_. True)"

lemma keeps_run: "keeps v p \<Longrightarrow> run p w = (a, w') \<Longrightarrow> v w' = v w"
  by (drule steps_run [where w = w]) (auto simp: reflp_def transp_def)

lemma keeps_Ret [intro, simp]: "keeps v (Ret a)"
  by (rule steps.Ret) simp

lemma keeps_act: "(\<And>w. v (snd (f w)) = v w) \<Longrightarrow> keeps v (act f)"
  by (rule steps_act) (metis snd_conv)

lemma keeps_bind [intro]: "keeps v p \<Longrightarrow> (\<And>a. keeps v (k a)) \<Longrightarrow> keeps v (bind p k)"
  by (erule steps_bind)

lemma keeps_attempt [intro]: "keeps v p \<Longrightarrow> (\<And>a. keeps v (k a)) \<Longrightarrow> keeps v (attempt p k)"
  by (erule steps_attempt) auto

lemma keeps_map_result [intro]: "keeps v p \<Longrightarrow> keeps v (map_result f p)"
  by (rule steps_map_result)

lemma keeps_lift_err [intro]: "keeps v p \<Longrightarrow> keeps v (lift_err f p)"
  unfolding lift_err_def by (rule keeps_map_result)

section \<open>Interleaving: a pool of requests\<close>

text \<open>
  The requests a server has in flight are a list of handlers over one world. In a step one
  of them performs its next effect; between the steps the environment may change the world
  by the relation \<open>E\<close> (time passes, another service acts).
\<close>

inductive pool_step ::
  "('w \<Rightarrow> 'w \<Rightarrow> bool) \<Rightarrow> 'w \<times> ('w, 'a) prog list \<Rightarrow> 'w \<times> ('w, 'a) prog list \<Rightarrow> bool"
  for E where
  turn: "i < length ps \<Longrightarrow> ps ! i = Act f \<Longrightarrow> f w = (p', w') \<Longrightarrow> pool_step E (w, ps) (w', ps[i := p'])"
| env: "E w w' \<Longrightarrow> pool_step E (w, ps) (w', ps)"

inductive_cases pool_stepE: "pool_step E (w, ps) c"

abbreviation pool_reaches ::
  "('w \<Rightarrow> 'w \<Rightarrow> bool) \<Rightarrow> 'w \<times> ('w, 'a) prog list \<Rightarrow> 'w \<times> ('w, 'a) prog list \<Rightarrow> bool" where
  "pool_reaches E \<equiv> (pool_step E)\<^sup>*\<^sup>*"

subsection \<open>A single-use resource\<close>

text \<open>
  \<open>present w\<close> says that a single-use resource (a token in the store) is still there, \<open>good\<close> is an
  invariant of the world. \<open>consumes good present Q b p\<close>: no step of \<open>p\<close> breaks the invariant or brings
  the resource back, and \<open>p\<close> can only return \<open>a\<close> with \<open>Q b' a\<close>, where \<open>b'\<close> is true only if \<open>b\<close> is, or
  if a step of \<open>p\<close> itself took the resource away.
\<close>

definition takes :: "('w \<Rightarrow> bool) \<Rightarrow> bool \<Rightarrow> bool \<Rightarrow> 'w \<Rightarrow> 'w \<Rightarrow> bool" where
  "takes present b b' w w' \<longleftrightarrow> (present w' \<longrightarrow> present w) \<and>
     (b' \<longleftrightarrow> b \<or> (b' \<and> present w \<and> \<not> present w'))"

inductive consumes ::
  "('w \<Rightarrow> bool) \<Rightarrow> ('w \<Rightarrow> bool) \<Rightarrow> (bool \<Rightarrow> 'a \<Rightarrow> bool) \<Rightarrow> bool \<Rightarrow> ('w, 'a) prog \<Rightarrow> bool"
  for good present Q where
  Ret: "Q b a \<Longrightarrow> consumes good present Q b (Ret a)"
| Act: "(\<And>w p' w'. good w \<Longrightarrow> f w = (p', w') \<Longrightarrow>
        good w' \<and> (\<exists>b'. takes present b b' w w' \<and> consumes good present Q b' p')) \<Longrightarrow>
     consumes good present Q b (Act f)"

inductive_cases consumes_RetE [elim!]: "consumes good present Q b (Ret a)"
inductive_cases consumes_ActE: "consumes good present Q b (Act f)"

lemma consumes_act:
  fixes f :: "'w \<Rightarrow> 'a \<times> 'w"
  assumes "\<And>w a w'. good w \<Longrightarrow> f w = (a, w') \<Longrightarrow> good w' \<and> (\<exists>b'. takes present b b' w w' \<and> Q b' a)"
  shows "consumes good present Q b (act f)"
  unfolding act_def
proof (rule consumes.Act)
  fix w w' and p' :: "('w, 'a) prog"
  assume i: "good w"
  assume "(case f w of (a, w') \<Rightarrow> (Ret a, w')) = (p', w')"
  then obtain a where "f w = (a, w')" and p': "p' = Ret a"
    by (auto split: prod.splits)
  with assms i obtain b' where "good w'" and "takes present b b' w w'" and "Q b' a" by blast
  with p' show "good w' \<and> (\<exists>b'. takes present b b' w w' \<and> consumes good present Q b' p')"
    by (auto intro: consumes.Ret)
qed

lemma takes_same: "present w' = present w \<Longrightarrow> takes present b b w w'"
  by (simp add: takes_def)

lemma consumes_bind:
  assumes "consumes good present Q b p" and "\<And>b' a. Q b' a \<Longrightarrow> consumes good present S b' (k a)"
  shows "consumes good present S b (bind p k)"
  using assms(1)
proof induction
  case (Ret b a)
  then show ?case by (simp add: assms(2))
next
  case (Act f b)
  show ?case
    unfolding bind.simps
  proof (rule consumes.Act)
    fix w q w'
    assume i: "good w"
    assume "map_prod (\<lambda>p. bind p k) id (f w) = (q, w')"
    then obtain p' where "f w = (p', w')" and q: "q = bind p' k"
      by (cases "f w") auto
    with Act i show "good w' \<and> (\<exists>b'. takes present b b' w w' \<and> consumes good present S b' q)" by blast
  qed
qed

lemma consumes_mono:
  assumes "consumes good present Q b p" and "\<And>b a. Q b a \<Longrightarrow> S b a"
  shows "consumes good present S b p"
  using assms(1)
proof induction
  case (Act f b)
  show ?case by (rule consumes.Act) (use Act in blast)
qed (auto intro: consumes.Ret assms(2))

lemma consumes_attempt:
  assumes "consumes good present Q b p"
    and "\<And>b' e. Q b' (Inl e) \<Longrightarrow> S b' (Inl e)"
    and "\<And>b' a. Q b' (Inr a) \<Longrightarrow> consumes good present S b' (k a)"
  shows "consumes good present S b (attempt p k)"
  unfolding attempt_def
  by (rule consumes_bind [OF assms(1)]) (auto split: sum.split intro: assms consumes.Ret)

lemma consumes_map_result:
  "consumes good present (\<lambda>b a. Q b (f a)) b p \<Longrightarrow> consumes good present Q b (map_result f p)"
  unfolding map_result_def by (erule consumes_bind) (rule consumes.Ret)

text \<open>
  A part of a handler that leaves the resource alone: its steps keep the invariant and whether the
  resource is there, and what it returns satisfies \<open>P\<close>.
\<close>

abbreviation ignores ::
  "('w \<Rightarrow> bool) \<Rightarrow> ('w \<Rightarrow> bool) \<Rightarrow> ('a \<Rightarrow> bool) \<Rightarrow> bool \<Rightarrow> ('w, 'a) prog \<Rightarrow> bool" where
  "ignores good present P b p \<equiv> consumes good present (\<lambda>b' a. b' = b \<and> P a) b p"

lemma ignores_act:
  assumes "\<And>w a w'. good w \<Longrightarrow> f w = (a, w') \<Longrightarrow> good w' \<and> (present w' \<longrightarrow> present w) \<and> P a"
  shows "ignores good present P b (act f)"
  by (rule consumes_act) (use assms in \<open>force simp: takes_def\<close>)

lemma ignores_Ret: "P a \<Longrightarrow> ignores good present P b (Ret a)"
  by (rule consumes.Ret) simp

lemma ignores_bind:
  assumes "ignores good present P b p" and "\<And>a. P a \<Longrightarrow> ignores good present S b (k a)"
  shows "ignores good present S b (bind p k)"
  by (rule consumes_bind [OF assms(1)]) (use assms(2) in auto)

lemma ignores_attempt:
  assumes "ignores good present P b p" and "\<And>e. P (Inl e) \<Longrightarrow> S (Inl e)"
    and "\<And>a. P (Inr a) \<Longrightarrow> ignores good present S b (k a)"
  shows "ignores good present S b (attempt p k)"
  by (rule consumes_attempt [OF assms(1)]) (use assms(2,3) in auto)

text \<open>
  At most one handler of a pool takes a single-use resource: at every reachable point the number
  of handlers that have taken it, plus one if it is still there, is at most one.
\<close>

definition takers_ok ::
  "('w \<Rightarrow> bool) \<Rightarrow> ('w \<Rightarrow> bool) \<Rightarrow> (bool \<Rightarrow> 'a \<Rightarrow> bool) \<Rightarrow> 'w \<times> ('w, 'a) prog list \<Rightarrow> bool" where
  "takers_ok good present Q c \<longleftrightarrow> good (fst c) \<and> (\<exists>bs. length bs = length (snd c) \<and>
     (\<forall>i < length bs. consumes good present Q (bs ! i) (snd c ! i)) \<and>
     (\<forall>i < length bs. \<forall>j < length bs. bs ! i \<longrightarrow> bs ! j \<longrightarrow> i = j) \<and>
     (present (fst c) \<longrightarrow> (\<forall>i < length bs. \<not> bs ! i)))"

text \<open>One turn of one handler, on the witnessing flags.\<close>

lemma takers_ok_turn:
  assumes good: "good w" and bs: "length bs = length ps"
      "\<forall>i < length bs. consumes good present Q (bs ! i) (ps ! i)"
      "\<forall>i < length bs. \<forall>j < length bs. bs ! i \<longrightarrow> bs ! j \<longrightarrow> i = j"
      "present w \<longrightarrow> (\<forall>i < length bs. \<not> bs ! i)"
    and i: "i < length ps" "ps ! i = Act f" "f w = (p', w')"
  shows "takers_ok good present Q (w', ps[i := p'])"
proof -
  have "consumes good present Q (bs ! i) (Act f)" using bs i by metis
  with good i(3) obtain b'
    where w': "good w'" and b': "takes present (bs ! i) b' w w'" "consumes good present Q b' p'"
    by (blast elim: consumes_ActE)
  let ?bs = "bs[i := b']"
  have "\<forall>j < length ?bs. consumes good present Q (?bs ! j) (ps[i := p'] ! j)"
    using bs b' i by (auto simp: nth_list_update)
  moreover have "\<forall>j < length ?bs. \<forall>k < length ?bs. ?bs ! j \<longrightarrow> ?bs ! k \<longrightarrow> j = k"
    using bs b' i by (auto simp: nth_list_update takes_def)
  moreover have "present w' \<longrightarrow> (\<forall>j < length ?bs. \<not> ?bs ! j)"
    using bs b' i by (auto simp: nth_list_update takes_def)
  ultimately show ?thesis
    unfolding takers_ok_def using bs(1) w' by (intro conjI exI [of _ ?bs]) simp_all
qed

lemma takers_ok_step:
  assumes step: "pool_step E (w, ps) d" and ok: "takers_ok good present Q (w, ps)"
    and E: "\<And>w w'. E w w' \<Longrightarrow> good w \<Longrightarrow> good w' \<and> (present w' \<longrightarrow> present w)"
  shows "takers_ok good present Q d"
  using step
proof (rule pool_stepE)
  fix i f p' w'
  assume d: "d = (w', ps[i := p'])" and i: "i < length ps" "ps ! i = Act f" "f w = (p', w')"
  from ok obtain bs where "good w" "length bs = length ps"
      "\<forall>i < length bs. consumes good present Q (bs ! i) (ps ! i)"
      "\<forall>i < length bs. \<forall>j < length bs. bs ! i \<longrightarrow> bs ! j \<longrightarrow> i = j"
      "present w \<longrightarrow> (\<forall>i < length bs. \<not> bs ! i)"
    by (auto simp: takers_ok_def)
  then show ?thesis unfolding d using i by (rule takers_ok_turn)
next
  fix w'
  assume d: "d = (w', ps)" and "E w w'"
  moreover have "good w" using ok by (simp add: takers_ok_def)
  ultimately have "good w'" "present w' \<Longrightarrow> present w" using E by blast+
  with ok show ?thesis unfolding takers_ok_def d fst_conv snd_conv by blast
qed

lemma takers_ok_reaches:
  assumes "pool_reaches E c d" and "takers_ok good present Q c"
    and "\<And>w w'. E w w' \<Longrightarrow> good w \<Longrightarrow> good w' \<and> (present w' \<longrightarrow> present w)"
  shows "takers_ok good present Q d"
  using assms
proof (induction rule: rtranclp_induct)
  case (step y z)
  obtain w ps where y: "y = (w, ps)" by (cases y)
  from step(2) [unfolded y] step(3) [OF step(4,5), unfolded y] step(5) show ?case
    by (rule takers_ok_step)
qed

theorem at_most_one_taker:
  assumes reach: "pool_reaches E (w, ps) (w', ps')" and good: "good w"
    and start: "\<And>p. p \<in> set ps \<Longrightarrow> consumes good present Q False p"
    and E: "\<And>w w'. E w w' \<Longrightarrow> good w \<Longrightarrow> good w' \<and> (present w' \<longrightarrow> present w)"
    and Q: "\<And>b a. Q b a \<Longrightarrow> won a \<Longrightarrow> b"
    and i: "i < length ps'" "ps' ! i = Ret a" "won a"
    and j: "j < length ps'" "ps' ! j = Ret a'" "won a'"
  shows "i = j"
proof -
  have "takers_ok good present Q (w, ps)"
    unfolding takers_ok_def
    by (intro conjI exI [of _ "replicate (length ps) False"]) (use good start in auto)
  from reach this E have "takers_ok good present Q (w', ps')" by (rule takers_ok_reaches)
  then obtain bs where bs: "length bs = length ps'"
      "\<And>i. i < length bs \<Longrightarrow> consumes good present Q (bs ! i) (ps' ! i)"
      "\<And>i j. i < length bs \<Longrightarrow> j < length bs \<Longrightarrow> bs ! i \<Longrightarrow> bs ! j \<Longrightarrow> i = j"
    by (auto simp: takers_ok_def)
  from bs(1) bs(2) [of i] bs(2) [of j] i j have "Q (bs ! i) a" and "Q (bs ! j) a'" by auto
  with Q i j bs show ?thesis by metis
qed

section \<open>Concurrent parts of one handler\<close>

text \<open>
  \<open>tokio::join!\<close>: the futures run concurrently inside one task. At each point where more than one can
  go on the runtime picks one; \<open>pick\<close> is its choice, a function of the world. \<open>left_step\<close> is the
  first future's next step, already composed with the rest.
\<close>

primrec join_right ::
  "('w \<Rightarrow> bool \<times> 'w) \<Rightarrow> ('w \<Rightarrow> (('w, 'b) prog \<Rightarrow> ('w, 'c) prog) \<times> 'w) \<Rightarrow>
   ('w, 'b) prog \<Rightarrow> ('w, 'c) prog" where
  "join_right pick left_step (Ret b) = Act (\<lambda>w. map_prod (\<lambda>k. k (Ret b)) id (left_step w))"
| "join_right pick left_step (Act g) =
     Act (\<lambda>w. case pick w of (l, w') \<Rightarrow>
       if l then map_prod (\<lambda>k. k (Act g)) id (left_step w')
       else map_prod (join_right pick left_step) id (g w'))"

primrec join2 ::
  "('w \<Rightarrow> bool \<times> 'w) \<Rightarrow> ('w, 'a) prog \<Rightarrow> ('w, 'b) prog \<Rightarrow> ('w, 'a \<times> 'b) prog" where
  "join2 pick (Ret a) = (\<lambda>q. map_result (Pair a) q)"
| "join2 pick (Act f) = (\<lambda>q. join_right pick (\<lambda>w. map_prod (join2 pick) id (f w)) q)"

lemma steps_join_right:
  assumes pick: "\<And>w. T w (snd (pick w))" and tr: "transp T" and q: "steps T S q"
    and left: "\<And>w k w'. left_step w = (k, w') \<Longrightarrow> T w w' \<and> (\<forall>q. steps T S q \<longrightarrow> steps T U (k q))"
  shows "steps T U (join_right pick left_step q)"
  using q
proof induction
  case (Ret b)
  then have "steps T S (Ret b)" by (rule steps.Ret)
  with left have "left_step w = (k, w') \<Longrightarrow> T w w' \<and> steps T U (k (Ret b))" for w k w' by blast
  then show ?case
    unfolding join_right.simps by (intro steps.Act) (auto simp: map_prod_def split: prod.splits)
next
  case (Act g)
  have g: "steps T S (Act g)" by (rule steps.Act) (use Act in blast)
  show ?case
    unfolding join_right.simps
  proof (rule steps.Act)
    fix w q w'
    obtain l v where p: "pick w = (l, v)" by (cases "pick w")
    assume "(case pick w of (l, w') \<Rightarrow>
       if l then map_prod (\<lambda>k. k (Act g)) id (left_step w')
       else map_prod (join_right pick left_step) id (g w')) = (q, w')"
    then have "T v w' \<and> steps T U q"
      using p left [of v] Act [of v] g by (cases l) (auto simp: map_prod_def split: prod.splits)
    moreover have "T w v" using pick [of w] p by simp
    ultimately show "T w w' \<and> steps T U q" using tr by (blast dest: transpD)
  qed
qed

lemma steps_join2:
  assumes pick: "\<And>w. T w (snd (pick w))" and tr: "transp T" and p: "steps T R p" and q: "steps T S q"
  shows "steps T (\<lambda>x. R (fst x) \<and> S (snd x)) (join2 pick p q)"
  using p q
proof (induction arbitrary: q)
  case (Ret a)
  then show ?case by (auto intro!: steps_map_result elim: steps_mono)
next
  case (Act f)
  show ?case
    unfolding join2.simps
    by (rule steps_join_right [where S = S, OF pick tr Act.prems])
      (use Act.IH in \<open>auto simp: map_prod_def split: prod.splits\<close>)
qed

text \<open>A runtime that always lets the first future go on runs the two one after the other.\<close>

lemma run_join2_left:
  fixes q :: "('w, 'b) prog"
  shows "run (join2 (Pair True) p q) w = (case run p w of (a, w1) \<Rightarrow> case run q w1 of (b, w2) \<Rightarrow> ((a, b), w2))"
proof (induction p arbitrary: q w)
  case (Ret a)
  then show ?case by (simp add: run_map_result split: prod.split)
next
  case (Act f)
  obtain p' w' where f: "f w = (p', w')" by (cases "f w")
  have "run (join2 (Pair True) p' q) w' =
      (case run p' w' of (a, w1) \<Rightarrow> case run q w1 of (b, w2) \<Rightarrow> ((a, b), w2))"
    for q :: "('w, 'b) prog"
    by (rule Act [OF rangeI [of f w]]) (simp add: f)
  then show ?case
    using f by (cases q) simp_all
qed

section \<open>Hash maps\<close>

text \<open>
  A \<open>HashMap\<close> is an association list with distinct keys, because the code asks for its length.
\<close>

type_synonym 'v hmap = "(string \<times> 'v) list"

definition hm_get :: "'v hmap \<Rightarrow> string \<Rightarrow> 'v option" where
  "hm_get m k = map_of m k"

definition hm_insert :: "string \<Rightarrow> 'v \<Rightarrow> 'v hmap \<Rightarrow> 'v hmap" where
  "hm_insert k v m = AList.update k v m"

definition hm_remove :: "string \<Rightarrow> 'v hmap \<Rightarrow> 'v hmap" where
  "hm_remove k m = AList.delete k m"

definition hm_retain :: "(string \<Rightarrow> 'v \<Rightarrow> bool) \<Rightarrow> 'v hmap \<Rightarrow> 'v hmap" where
  "hm_retain P m = filter (\<lambda>(k, v). P k v) m"

definition hm_wf :: "'v hmap \<Rightarrow> bool" where
  "hm_wf m \<longleftrightarrow> distinct (map fst m)"

lemma hm_get_insert [simp]: "hm_get (hm_insert k v m) k' = (if k' = k then Some v else hm_get m k')"
  by (simp add: hm_get_def hm_insert_def update_conv')

lemma hm_get_remove [simp]: "hm_get (hm_remove k m) k' = (if k' = k then None else hm_get m k')"
  by (simp add: hm_get_def hm_remove_def delete_conv')

lemma hm_get_Nil [simp]: "hm_get [] k = None"
  by (simp add: hm_get_def)

lemma hm_wf_Nil [simp, intro]: "hm_wf []"
  by (simp add: hm_wf_def)

lemma hm_wf_insert [intro]: "hm_wf m \<Longrightarrow> hm_wf (hm_insert k v m)"
  by (simp add: hm_wf_def hm_insert_def distinct_update)

lemma hm_wf_remove [intro]: "hm_wf m \<Longrightarrow> hm_wf (hm_remove k m)"
  by (simp add: hm_wf_def hm_remove_def distinct_delete)

lemma hm_wf_retain [intro]: "hm_wf m \<Longrightarrow> hm_wf (hm_retain P m)"
  unfolding hm_wf_def hm_retain_def by (rule distinct_map_filter)

lemma hm_get_retain:
  assumes wf: "hm_wf m"
  shows "hm_get (hm_retain P m) k = (case hm_get m k of Some v \<Rightarrow> if P k v then Some v else None | None \<Rightarrow> None)"
  using wf
  by (induction m)
    (auto simp: hm_wf_def hm_get_def hm_retain_def map_of_eq_None_iff image_iff split: option.splits
      dest!: map_of_SomeD)

lemma length_hm_insert: "length (hm_insert k v m) \<le> Suc (length m)"
  by (induction m) (auto simp: hm_insert_def)

lemma length_hm_remove: "length (hm_remove k m) \<le> length m"
  by (simp add: hm_remove_def length_delete_le)

lemma length_hm_retain: "length (hm_retain P m) \<le> length m"
  by (simp add: hm_retain_def)

section \<open>Machine integers\<close>

type_synonym u8 = "8 word"
type_synonym u32 = "32 word"
type_synonym u64 = "64 word"
type_synonym i64 = "64 word"

text \<open>\<open>saturating_sub\<close> of an unsigned integer.\<close>

definition saturating_sub :: "'l::len word \<Rightarrow> 'l word \<Rightarrow> 'l word" where
  "saturating_sub a b = (if a < b then 0 else a - b)"

lemma unat_saturating_sub: "unat (saturating_sub a b) = unat a - unat b"
  by (simp add: saturating_sub_def word_less_nat_alt unat_sub_if_size)

lemma sint_positive: "0 < sint (w :: 64 word) \<Longrightarrow> nat (sint w) = unat w"
proof -
  assume "0 < sint w"
  then have "0 < signed_take_bit 63 (uint w)" by (simp add: sint_uint)
  then have "\<not> signed_take_bit 63 (uint w) < 0" by linarith
  then have b: "\<not> bit (uint w) 63" by (simp only: signed_take_bit_negative_iff not_False_eq_True)
  then have "sint w = take_bit 63 (uint w)"
    by (simp add: sint_uint signed_take_bit_eq_if_positive)
  also have "\<dots> = take_bit (Suc 63) (uint w)"
    by (subst take_bit_Suc_from_most) (simp add: b)
  also have "\<dots> = uint w"
    using uint_lt2p [of w] by (intro take_bit_int_eq_self) simp_all
  finally show ?thesis by simp
qed

end
