(* ===== verification/Text.thy ===== *)
theory Text
  imports Prelude
begin

text \<open>
  The operations of Rust's \<open>str\<close> and of integer parsing and printing that the code uses. A Rust
  string is its UTF-8 bytes, so \<open>char\<close> is a byte and \<open>length\<close> is what \<open>str::len\<close> counts.
\<close>

section \<open>Splitting and prefixes\<close>

text \<open>\<open>str::split(c)\<close>: the pieces between the separators, at least one.\<close>

fun split_on :: "char \<Rightarrow> string \<Rightarrow> string list" where
  "split_on c [] = [[]]"
| "split_on c (x # xs) =
     (if x = c then [] # split_on c xs
      else case split_on c xs of [] \<Rightarrow> [[x]] | p # ps \<Rightarrow> (x # p) # ps)"

text \<open>\<open>join\<close> on a list of strings.\<close>

fun join :: "string \<Rightarrow> string list \<Rightarrow> string" where
  "join s [] = []"
| "join s [x] = x"
| "join s (x # y # ys) = x @ s @ join s (y # ys)"

text \<open>\<open>str::split_once(c)\<close>.\<close>

fun split_once :: "char \<Rightarrow> string \<Rightarrow> (string \<times> string) option" where
  "split_once c [] = None"
| "split_once c (x # xs) =
     (if x = c then Some ([], xs) else map_option (\<lambda>(a, b). (x # a, b)) (split_once c xs))"

fun strip_prefix :: "string \<Rightarrow> string \<Rightarrow> string option" where
  "strip_prefix [] s = Some s"
| "strip_prefix (p # ps) [] = None"
| "strip_prefix (p # ps) (x # xs) = (if p = x then strip_prefix ps xs else None)"

definition starts_with :: "string \<Rightarrow> string \<Rightarrow> bool" where
  "starts_with s p \<longleftrightarrow> strip_prefix p s \<noteq> None"

text \<open>\<open>Iterator::find_map\<close>.\<close>

fun find_map :: "('a \<Rightarrow> 'b option) \<Rightarrow> 'a list \<Rightarrow> 'b option" where
  "find_map f [] = None"
| "find_map f (x # xs) = (case f x of None \<Rightarrow> find_map f xs | Some y \<Rightarrow> Some y)"

lemma split_on_not_Nil [simp]: "split_on c s \<noteq> []"
  by (cases s) (auto split: list.splits)

lemma split_on_parts: "p \<in> set (split_on c s) \<Longrightarrow> c \<notin> set p"
  by (induction s arbitrary: p) (auto split: if_splits list.splits)

lemma join_Cons: "join s ((x # a) # ps) = x # join s (a # ps)"
  by (cases ps) auto

lemma join_split_on: "join [c] (split_on c s) = s"
proof (induction s)
  case (Cons x s)
  then show ?case
    by (cases "split_on c s") (auto simp: join_Cons neq_Nil_conv split: list.splits)
qed simp

lemma split_on_id: "c \<notin> set s \<Longrightarrow> split_on c s = [s]"
  by (induction s) auto

lemma split_on_append: "c \<notin> set a \<Longrightarrow> split_on c (a @ c # s) = a # split_on c s"
  by (induction a) auto

lemma split_once_append: "c \<notin> set a \<Longrightarrow> split_once c (a @ c # b) = Some (a, b)"
  by (induction a) auto

lemma split_once_None: "split_once c s = None \<longleftrightarrow> c \<notin> set s"
  by (induction s) auto

lemma split_once_Some: "split_once c s = Some (a, b) \<longleftrightarrow> s = a @ c # b \<and> c \<notin> set a"
proof (induction s arbitrary: a b)
  case (Cons x s)
  then show ?case by (cases a) auto
qed simp

lemma strip_prefix_Some: "strip_prefix p s = Some r \<longleftrightarrow> s = p @ r"
  by (induction p s rule: strip_prefix.induct) auto

lemma strip_prefix_append [simp]: "strip_prefix p (p @ s) = Some s"
  by (simp add: strip_prefix_Some)

lemma starts_with_iff: "starts_with s p \<longleftrightarrow> (\<exists>r. s = p @ r)"
  by (auto simp: starts_with_def strip_prefix_Some)

lemma find_map_Some: "find_map f xs = Some y \<Longrightarrow> \<exists>x \<in> set xs. f x = Some y"
  by (induction xs) (auto split: option.splits)

lemma find_map_None: "find_map f xs = None \<longleftrightarrow> (\<forall>x \<in> set xs. f x = None)"
  by (induction xs) (auto split: option.splits)

section \<open>White space\<close>

text \<open>
  The length in bytes of the Unicode \<open>White_Space\<close> character at the head of a byte string, or 0:
  U+0009 to U+000D, U+0020, U+0085, U+00A0, U+1680, U+2000 to U+200A, U+2028, U+2029, U+202F,
  U+205F and U+3000.
\<close>

definition ws1 :: "nat \<Rightarrow> bool" where
  "ws1 a \<longleftrightarrow> (9 \<le> a \<and> a \<le> 13) \<or> a = 32"

definition ws2 :: "nat \<Rightarrow> nat \<Rightarrow> bool" where
  "ws2 a b \<longleftrightarrow> a = 194 \<and> (b = 133 \<or> b = 160)"

definition ws3 :: "nat \<Rightarrow> nat \<Rightarrow> nat \<Rightarrow> bool" where
  "ws3 a b c \<longleftrightarrow> (a = 225 \<and> b = 154 \<and> c = 128)
     \<or> (a = 226 \<and> b = 128 \<and> (128 \<le> c \<and> c \<le> 138 \<or> c = 168 \<or> c = 169 \<or> c = 175))
     \<or> (a = 226 \<and> b = 129 \<and> c = 159) \<or> (a = 227 \<and> b = 128 \<and> c = 128)"

definition byte :: "char \<Rightarrow> nat" where
  "byte c = of_char c"

fun ws_len :: "string \<Rightarrow> nat" where
  "ws_len [] = 0"
| "ws_len [a] = (if ws1 (byte a) then 1 else 0)"
| "ws_len [a, b] = (if ws1 (byte a) then 1 else if ws2 (byte a) (byte b) then 2 else 0)"
| "ws_len (a # b # c # s) =
     (if ws1 (byte a) then 1 else if ws2 (byte a) (byte b) then 2
      else if ws3 (byte a) (byte b) (byte c) then 3 else 0)"

text \<open>The same at the end of a string, on the reversed bytes.\<close>

fun rws_len :: "string \<Rightarrow> nat" where
  "rws_len [] = 0"
| "rws_len [a] = (if ws1 (byte a) then 1 else 0)"
| "rws_len [a, b] = (if ws1 (byte a) then 1 else if ws2 (byte b) (byte a) then 2 else 0)"
| "rws_len (a # b # c # s) =
     (if ws1 (byte a) then 1 else if ws2 (byte b) (byte a) then 2
      else if ws3 (byte c) (byte b) (byte a) then 3 else 0)"

lemma ws_len_le: "ws_len s \<le> length s"
  by (cases s rule: ws_len.cases) auto

lemma rws_len_le: "rws_len s \<le> length s"
  by (cases s rule: rws_len.cases) auto

function trim_start :: "string \<Rightarrow> string" where
  "trim_start s = (if ws_len s = 0 then s else trim_start (drop (ws_len s) s))"
  by pat_completeness auto
termination
proof (relation "measure length")
  fix s :: string
  assume "ws_len s \<noteq> 0"
  with ws_len_le [of s] show "(drop (ws_len s) s, s) \<in> measure length" by simp
qed simp

function trim_rev :: "string \<Rightarrow> string" where
  "trim_rev s = (if rws_len s = 0 then s else trim_rev (drop (rws_len s) s))"
  by pat_completeness auto
termination
proof (relation "measure length")
  fix s :: string
  assume "rws_len s \<noteq> 0"
  with rws_len_le [of s] show "(drop (rws_len s) s, s) \<in> measure length" by simp
qed simp

declare trim_start.simps [simp del] trim_rev.simps [simp del]

definition trim_end :: "string \<Rightarrow> string" where
  "trim_end s = rev (trim_rev (rev s))"

definition trim :: "string \<Rightarrow> string" where
  "trim s = trim_end (trim_start s)"

text \<open>Printable ASCII without the space: the bytes that trimming never touches.\<close>

definition graphic :: "char \<Rightarrow> bool" where
  "graphic c \<longleftrightarrow> 33 \<le> byte c \<and> byte c \<le> 126"

lemma trim_start_graphic: "graphic c \<Longrightarrow> trim_start (c # s) = c # s"
  by (subst trim_start.simps, cases "c # s" rule: ws_len.cases)
    (auto simp: graphic_def ws1_def ws2_def ws3_def)

lemma trim_rev_graphic: "graphic c \<Longrightarrow> trim_rev (c # s) = c # s"
proof -
  assume c: "graphic c"
  have "rws_len (c # s) = 0"
    using c by (cases "c # s" rule: rws_len.cases) (auto simp: graphic_def ws1_def ws2_def ws3_def)
  then show ?thesis by (subst trim_rev.simps) simp
qed

lemma trim_start_Nil [simp]: "trim_start [] = []"
  by (simp add: trim_start.simps)

lemma trim_rev_Nil [simp]: "trim_rev [] = []"
  by (simp add: trim_rev.simps)

lemma trim_graphic: "\<forall>c \<in> set s. graphic c \<Longrightarrow> trim s = s"
proof (cases s)
  case (Cons a t)
  assume g: "\<forall>c \<in> set s. graphic c"
  obtain b u where u: "rev s = b # u" using Cons by (cases "rev s") auto
  then have "b \<in> set s" by (metis list.set_intros(1) set_rev)
  then have "trim_rev (rev s) = rev s" using g u by (simp add: trim_rev_graphic)
  moreover have "trim_start s = s" using g Cons by (simp add: trim_start_graphic)
  ultimately show ?thesis by (simp add: trim_def trim_end_def)
qed (simp add: trim_def trim_end_def)

lemma trim_space: "trim (CHR '' '' # s) = trim s"
  by (subst trim_def, subst trim_start.simps, cases "CHR '' '' # s" rule: ws_len.cases)
    (auto simp: trim_def ws1_def byte_def)

section \<open>Letter case\<close>

definition ascii_lower :: "char \<Rightarrow> char" where
  "ascii_lower c = (if 65 \<le> byte c \<and> byte c \<le> 90 then char_of (byte c + 32) else c)"

definition ascii_upper :: "char \<Rightarrow> char" where
  "ascii_upper c = (if 97 \<le> byte c \<and> byte c \<le> 122 then char_of (byte c - 32) else c)"

text \<open>
  \<open>to_lowercase\<close> compared with an ASCII keyword. The two non-ASCII characters that Unicode maps to
  ASCII letters under lower-casing (the Kelvin sign and the dotted capital I) map to a \<open>k\<close> and to
  an \<open>i\<close> followed by a combining dot; the keywords compared (true, false, google, github) hold no \<open>k\<close>
  and no combining dot, so folding the ASCII letters alone decides the comparison.
\<close>

definition lowercase :: "string \<Rightarrow> string" where
  "lowercase s = map ascii_lower s"

definition uppercase :: "string \<Rightarrow> string" where
  "uppercase s = map ascii_upper s"

definition eq_ignore_ascii_case :: "string \<Rightarrow> string \<Rightarrow> bool" where
  "eq_ignore_ascii_case a b \<longleftrightarrow> lowercase a = lowercase b"

text \<open>\<open>bool::from_str\<close>.\<close>

definition parse_bool :: "string \<Rightarrow> bool option" where
  "parse_bool s = (if s = ''true'' then Some True else if s = ''false'' then Some False else None)"

section \<open>Decimal numbers\<close>

definition digit :: "nat \<Rightarrow> char" where
  "digit n = char_of (48 + n)"

definition is_digit :: "char \<Rightarrow> bool" where
  "is_digit c \<longleftrightarrow> 48 \<le> byte c \<and> byte c \<le> 57"

definition digit_val :: "char \<Rightarrow> nat" where
  "digit_val c = byte c - 48"

fun show_nat :: "nat \<Rightarrow> string" where
  "show_nat n = (if n < 10 then [digit n] else show_nat (n div 10) @ [digit (n mod 10)])"

declare show_nat.simps [simp del]

definition show_int :: "int \<Rightarrow> string" where
  "show_int i = (if i < 0 then CHR ''-'' # show_nat (nat (- i)) else show_nat (nat i))"

definition digits_val :: "string \<Rightarrow> nat" where
  "digits_val s = foldl (\<lambda>a c. 10 * a + digit_val c) 0 s"

definition parse_digits :: "string \<Rightarrow> nat option" where
  "parse_digits s = (if s = [] \<or> \<not> list_all is_digit s then None else Some (digits_val s))"

text \<open>
  \<open>from_str\<close> of the unsigned and signed integers: an optional sign (a minus sign only for a signed
  type), at least one digit, and no overflow.
\<close>

definition parse_unsigned :: "nat \<Rightarrow> string \<Rightarrow> nat option" where
  "parse_unsigned w s =
     (case parse_digits (case s of c # r \<Rightarrow> if c = CHR ''+'' then r else s | [] \<Rightarrow> s) of
        None \<Rightarrow> None | Some n \<Rightarrow> if n < 2 ^ w then Some n else None)"

definition parse_signed :: "nat \<Rightarrow> string \<Rightarrow> int option" where
  "parse_signed w s =
     (case s of
        c # r \<Rightarrow>
          if c = CHR ''-'' then
            (case parse_digits r of
               None \<Rightarrow> None | Some n \<Rightarrow> if n \<le> 2 ^ (w - 1) then Some (- int n) else None)
          else
            (case parse_digits (if c = CHR ''+'' then r else s) of
               None \<Rightarrow> None | Some n \<Rightarrow> if n < 2 ^ (w - 1) then Some (int n) else None)
      | [] \<Rightarrow> None)"

definition parse_u64 :: "string \<Rightarrow> u64 option" where
  "parse_u64 s = map_option word_of_nat (parse_unsigned 64 s)"

definition show_u64 :: "u64 \<Rightarrow> string" where
  "show_u64 n = show_nat (unat n)"

lemma byte_char_of [simp]: "n < 256 \<Longrightarrow> byte (char_of n) = n"
  by (simp add: byte_def)

lemma digit_props [simp]:
  assumes "n < 10"
  shows "is_digit (digit n)" "digit_val (digit n) = n"
  using assms by (simp_all add: is_digit_def digit_val_def digit_def)

lemma show_nat_not_Nil [simp]: "show_nat n \<noteq> []"
  by (subst show_nat.simps) simp

lemma show_nat_digits: "list_all is_digit (show_nat n)"
proof (induction n rule: show_nat.induct)
  case (1 n)
  then show ?case by (subst show_nat.simps) auto
qed

lemma digits_val_show_nat [simp]: "digits_val (show_nat n) = n"
proof (induction n rule: show_nat.induct)
  case (1 n)
  then show ?case by (subst show_nat.simps) (auto simp: digits_val_def)
qed

lemma parse_digits_show_nat [simp]: "parse_digits (show_nat n) = Some n"
  by (simp add: parse_digits_def show_nat_digits)

lemma show_nat_inject [simp]: "show_nat m = show_nat n \<longleftrightarrow> m = n"
  by (metis digits_val_show_nat)

lemma show_nat_Cons: "\<exists>c s. show_nat n = c # s \<and> is_digit c"
  using show_nat_digits [of n] by (cases "show_nat n") auto

lemma digit_not_sign: "is_digit c \<Longrightarrow> c \<noteq> CHR ''+'' \<and> c \<noteq> CHR ''-'' \<and> c \<noteq> CHR '':''"
  by (auto simp: is_digit_def byte_def)

lemma show_nat_no_char: "\<not> is_digit c \<Longrightarrow> c \<notin> set (show_nat n)"
  using show_nat_digits [of n] by (auto simp: list_all_iff)

lemma parse_unsigned_show_nat [simp]:
  "parse_unsigned w (show_nat n) = (if n < 2 ^ w then Some n else None)"
proof -
  obtain c s where "show_nat n = c # s" "is_digit c" using show_nat_Cons by blast
  then show ?thesis
    using parse_digits_show_nat [of n] by (simp add: parse_unsigned_def digit_not_sign)
qed

lemma parse_u64_show_u64 [simp]: "parse_u64 (show_u64 n) = Some n"
  using unsigned_less [where ?'a = nat and w = n] by (simp add: parse_u64_def show_u64_def)

lemma parse_signed_show_int:
  assumes "- (2 ^ (w - 1)) \<le> i" "i < 2 ^ (w - 1)"
  shows "parse_signed w (show_int i) = Some i"
proof (cases "i < 0")
  case True
  then have "nat (- i) \<le> 2 ^ (w - 1)"
    using assms(1) by (simp add: nat_le_iff)
  with True show ?thesis by (simp add: show_int_def parse_signed_def)
next
  case False
  then have "nat i < 2 ^ (w - 1)" using assms(2) by (simp add: nat_less_iff)
  moreover obtain c s where "show_nat (nat i) = c # s" "is_digit c" using show_nat_Cons by blast
  ultimately show ?thesis
    using False parse_digits_show_nat [of "nat i"]
    by (simp add: show_int_def parse_signed_def digit_not_sign)
qed

lemma show_int_no_colon: "CHR '':'' \<notin> set (show_int i)"
  using show_nat_no_char [of "CHR '':''"] by (auto simp: show_int_def is_digit_def byte_def)

section \<open>Hexadecimal\<close>

definition hex_digit :: "nat \<Rightarrow> char" where
  "hex_digit n = (if n < 10 then char_of (48 + n) else char_of (87 + n))"

definition hex_byte :: "u8 \<Rightarrow> string" where
  "hex_byte b = [hex_digit (unat b div 16), hex_digit (unat b mod 16)]"

definition hex_encode :: "u8 list \<Rightarrow> string" where
  "hex_encode bs = concat (map hex_byte bs)"

lemma length_hex_encode [simp]: "length (hex_encode bs) = 2 * length bs"
  by (induction bs) (auto simp: hex_encode_def hex_byte_def)

lemma hex_digit_code: "n < 16 \<Longrightarrow> byte (hex_digit n) = (if n < 10 then 48 + n else 87 + n)"
  by (simp add: hex_digit_def)

lemma hex_digit_inj: "m < 16 \<Longrightarrow> n < 16 \<Longrightarrow> hex_digit m = hex_digit n \<Longrightarrow> m = n"
  by (drule arg_cong [of _ _ byte]) (auto simp: hex_digit_code split: if_splits)

lemma unat_u8_less: "unat (b :: u8) < 256"
  using unsigned_less [where ?'a = nat and w = b] by simp

lemma hex_byte_inj: "hex_byte a = hex_byte b \<Longrightarrow> a = b"
proof -
  assume h: "hex_byte a = hex_byte b"
  have "unat a div 16 < 16" "unat b div 16 < 16" "unat a mod 16 < 16" "unat b mod 16 < 16"
    using unat_u8_less [of a] unat_u8_less [of b] by auto
  moreover have "hex_digit (unat a div 16) = hex_digit (unat b div 16)"
    and "hex_digit (unat a mod 16) = hex_digit (unat b mod 16)"
    using h by (simp_all add: hex_byte_def)
  ultimately have "unat a div 16 = unat b div 16" "unat a mod 16 = unat b mod 16"
    by (blast intro: hex_digit_inj)+
  then have "unat a = unat b" by (metis div_mult_mod_eq)
  then show ?thesis by (rule unsigned_word_eqI)
qed

lemma hex_encode_inj: "hex_encode a = hex_encode b \<Longrightarrow> a = b"
proof (induction a arbitrary: b)
  case Nil
  then show ?case by (cases b) (auto simp: hex_encode_def hex_byte_def)
next
  case (Cons x a)
  then obtain y b' where b: "b = y # b'"
    by (cases b) (auto simp: hex_encode_def hex_byte_def)
  with Cons.prems have "hex_byte x = hex_byte y" and "hex_encode a = hex_encode b'"
    by (auto simp: hex_encode_def hex_byte_def)
  with Cons.IH b show ?case by (simp add: hex_byte_inj)
qed

lemmas text_defs = starts_with_def eq_ignore_ascii_case_def lowercase_def ascii_lower_def byte_def

end
