(* ===== verification/Domain.thy ===== *)
theory Domain
  imports Text
begin

text \<open>
  The domain crate (\<open>backend/domain/src\<close>) and the error types of the crates that convert to it:
  API errors and the HTTP responses they become, feature flags, and the clock functions.
\<close>

section \<open>JSON values and responses\<close>

datatype json = JNull | JBool bool | JNum int | JStr string | JArr "json list"
  | JObj "(string \<times> json) list"

text \<open>\<open>value[key]\<close> and \<open>as_str\<close> of \<open>serde_json::Value\<close>: a missing key is null.\<close>

fun json_get :: "json \<Rightarrow> string \<Rightarrow> json" where
  "json_get (JObj fs) k = (case map_of fs k of None \<Rightarrow> JNull | Some v \<Rightarrow> v)"
| "json_get _ k = JNull"

fun json_str :: "json \<Rightarrow> string option" where
  "json_str (JStr s) = Some s"
| "json_str _ = None"

record response =
  status :: nat
  body :: json

section \<open>API errors\<close>

datatype api_error =
    Unauthorized string
  | Forbidden string
  | NotFound string
  | ValidationError string
  | RateLimited string
  | Conflict string
  | InternalError string
  | ServiceUnavailable string

fun error_parts :: "api_error \<Rightarrow> nat \<times> string \<times> string" where
  "error_parts (Unauthorized msg) = (401, ''UNAUTHORIZED'', msg)"
| "error_parts (Forbidden msg) = (403, ''FORBIDDEN'', msg)"
| "error_parts (NotFound msg) = (404, ''NOT_FOUND'', msg)"
| "error_parts (ValidationError msg) = (422, ''VALIDATION_ERROR'', msg)"
| "error_parts (Conflict msg) = (409, ''CONFLICT'', msg)"
| "error_parts (RateLimited msg) = (429, ''RATE_LIMITED'', msg)"
| "error_parts (InternalError msg) = (500, ''INTERNAL_ERROR'', msg)"
| "error_parts (ServiceUnavailable msg) = (503, ''SERVICE_UNAVAILABLE'', msg)"

definition into_response :: "api_error \<Rightarrow> response" where
  "into_response e =
     (case error_parts e of (st, code, message) \<Rightarrow>
        \<lparr>status = st,
         body = JObj [(''error'', JObj [(''code'', JStr code), (''message'', JStr message)])]\<rparr>)"

section \<open>Errors of the other crates and their conversion\<close>

text \<open>
  \<open>CommandFailed\<close> holds the Redis client's error by its text; \<open>BackoffBlocked\<close> the remaining seconds,
  the failure count and the label.
\<close>

datatype cache_error =
    NotConfigured
  | ConnectionFailed string
  | CommandFailed string
  | SerializationFailed string
  | SessionNotFound
  | RateLimitExceeded
  | BackoffBlocked u64 u64 string

fun cache_error_display :: "cache_error \<Rightarrow> string" where
  "cache_error_display NotConfigured = ''redis not configured''"
| "cache_error_display (ConnectionFailed m) = ''redis connection failed: '' @ m"
| "cache_error_display (CommandFailed m) = ''redis command failed: '' @ m"
| "cache_error_display (SerializationFailed m) = ''serialization failed: '' @ m"
| "cache_error_display SessionNotFound = ''session not found''"
| "cache_error_display RateLimitExceeded = ''rate limit exceeded''"
| "cache_error_display (BackoffBlocked remaining count label) =
     ''backoff blocked: '' @ show_u64 count @ '' failures, '' @ label @ '' cooldown, ''
       @ show_u64 remaining @ ''s remaining''"

fun api_error_of_cache :: "cache_error \<Rightarrow> api_error" where
  "api_error_of_cache NotConfigured = ServiceUnavailable ''Redis not configured''"
| "api_error_of_cache (ConnectionFailed msg) = ServiceUnavailable (''Redis connection failed: '' @ msg)"
| "api_error_of_cache (CommandFailed e) = InternalError (''Redis error: '' @ e)"
| "api_error_of_cache (SerializationFailed msg) = InternalError msg"
| "api_error_of_cache SessionNotFound = Unauthorized ''Session not found''"
| "api_error_of_cache RateLimitExceeded = RateLimited ''Rate limit exceeded''"
| "api_error_of_cache (BackoffBlocked remaining count label) =
     RateLimited (''Too many attempts ('' @ show_u64 count @ '' failures). Try again in ''
       @ show_u64 remaining @ '' seconds ('' @ label @ '' cooldown).'')"

text \<open>
  Database errors: the flag of \<open>SqlxDatabase\<close> says whether the server reported a unique violation;
  \<open>SqlxOther\<close> is any further variant of \<open>sqlx::Error\<close>, by its text.
\<close>

datatype sqlx_error = RowNotFound | PoolTimedOut | PoolClosed | SqlxDatabase bool string | SqlxOther string

text \<open>The texts of the errors come from the library: \<open>shown\<close> is its \<open>to_string\<close>.\<close>

fun api_error_of_sqlx :: "(sqlx_error \<Rightarrow> string) \<Rightarrow> sqlx_error \<Rightarrow> api_error" where
  "api_error_of_sqlx shown RowNotFound = NotFound (shown RowNotFound)"
| "api_error_of_sqlx shown PoolTimedOut = ServiceUnavailable ''Database pool timeout''"
| "api_error_of_sqlx shown PoolClosed = ServiceUnavailable ''Database pool closed''"
| "api_error_of_sqlx shown e = InternalError (''Database query failed: '' @ shown e)"

datatype db_error = DbNotConfigured | PoolTimeout nat | QueryFailed sqlx_error | MigrationFailed string

fun api_error_of_db :: "(sqlx_error \<Rightarrow> string) \<Rightarrow> db_error \<Rightarrow> api_error" where
  "api_error_of_db shown DbNotConfigured = ServiceUnavailable ''Database not configured''"
| "api_error_of_db shown (PoolTimeout t) = ServiceUnavailable ''Database pool timeout''"
| "api_error_of_db shown (QueryFailed e) = InternalError (''Database error: '' @ shown e)"
| "api_error_of_db shown (MigrationFailed e) = InternalError (''Migration error: '' @ e)"

section \<open>Feature flags\<close>

record feature_flags =
  maintenance_mode :: bool

text \<open>\<open>vars\<close> is the process environment.\<close>

definition env_bool :: "(string \<Rightarrow> string option) \<Rightarrow> string \<Rightarrow> bool" where
  "env_bool vars key =
     (case vars key of None \<Rightarrow> False | Some v \<Rightarrow> eq_ignore_ascii_case v ''true'' \<or> v = ''1'')"

definition feature_flags_from_env :: "(string \<Rightarrow> string option) \<Rightarrow> feature_flags" where
  "feature_flags_from_env vars = \<lparr>maintenance_mode = env_bool vars ''FEATURE_MAINTENANCE''\<rparr>"

section \<open>Clock\<close>

text \<open>The system clock is milliseconds since the Unix epoch, negative before it.\<close>

definition unix_timestamp_secs :: "int \<Rightarrow> u64" where
  "unix_timestamp_secs now = (if now < 0 then 0 else word_of_int (now div 1000))"

definition unix_timestamp_ms :: "int \<Rightarrow> u64" where
  "unix_timestamp_ms now = (if now < 0 then 0 else word_of_int now)"

section \<open>Lemmas\<close>

definition error_code :: "response \<Rightarrow> string option" where
  "error_code r = json_str (json_get (json_get (body r) ''error'') ''code'')"

definition error_message :: "response \<Rightarrow> string option" where
  "error_message r = json_str (json_get (json_get (body r) ''error'') ''message'')"

lemma into_response_status: "status (into_response e) = fst (error_parts e)"
  by (cases e) (simp_all add: into_response_def)

lemma into_response_error: "400 \<le> status (into_response e) \<and> status (into_response e) < 600"
  by (cases e) (simp_all add: into_response_def)

text \<open>
  An error response carries the error's own message, its status is an HTTP
  error status, and status and machine-readable code determine each other: two errors have the same
  status exactly if they have the same code, so a client may dispatch on either.
\<close>

theorem error_response_faithful:
  "400 \<le> status (into_response e) \<and> status (into_response e) < 600
   \<and> error_message (into_response e) = Some (snd (snd (error_parts e)))
   \<and> (status (into_response e) = status (into_response e')
        \<longleftrightarrow> error_code (into_response e) = error_code (into_response e'))"
  by (cases e; cases e') (simp_all add: into_response_def error_code_def error_message_def)

end
