(* ===== verification/Redis.thy ===== *)
theory Redis
  imports Domain
begin

text \<open>
  The Redis server as an interface. Redis and its client library are not part of the repository, so
  every definition that talks to Redis takes the server's commands as an argument, a record over an
  arbitrary server state. What the code relies on is the locale \<open>redis_service\<close>: the documented
  behaviour of each command, stated as a simulation of the reference server \<open>ref_redis\<close> through an
  abstraction function. The reference server is never used by a definition that models code; it is the
  specification in the locale's laws and the instance in the examples.
\<close>

section \<open>Commands\<close>

text \<open>A command answers with an error text or a value and changes the server state.\<close>

type_synonym ('r, 'a) cmd = "'r \<Rightarrow> (string + 'a) \<times> 'r"

text \<open>
  What happens to a request on the wire: delivered; lost before the server saw it; executed, with the
  reply lost. In the last two cases the client library reports an error.
\<close>

datatype link = Delivered | Lost string | ReplyLost string

record 'r redis_ops =
  r_link :: "'r \<Rightarrow> link \<times> 'r"
  r_ping :: "('r, unit) cmd"
  r_get :: "string \<Rightarrow> ('r, string option) cmd"
  r_set_ex :: "string \<Rightarrow> string \<Rightarrow> int \<Rightarrow> ('r, unit) cmd"
  r_del :: "string list \<Rightarrow> ('r, unit) cmd"
  r_getdel :: "string \<Rightarrow> ('r, string option) cmd"
  r_expire :: "string \<Rightarrow> int \<Rightarrow> ('r, unit) cmd"
  r_ttl :: "string \<Rightarrow> ('r, int) cmd"
  r_incr :: "string \<Rightarrow> ('r, int) cmd"
  r_zadd :: "string \<Rightarrow> nat \<Rightarrow> string \<Rightarrow> ('r, unit) cmd"
  r_zremrangebyscore :: "string \<Rightarrow> int \<Rightarrow> ('r, unit) cmd"
  r_zcard :: "string \<Rightarrow> ('r, nat) cmd"
  r_zfirst :: "string \<Rightarrow> ('r, (string \<times> nat) option) cmd"
  r_sadd :: "string \<Rightarrow> string \<Rightarrow> ('r, unit) cmd"
  r_srem :: "string \<Rightarrow> string \<Rightarrow> ('r, unit) cmd"
  r_smembers :: "string \<Rightarrow> ('r, string list) cmd"
  r_rename :: "string \<Rightarrow> string \<Rightarrow> ('r, unit) cmd"
  r_publish :: "string \<Rightarrow> string \<Rightarrow> ('r, unit) cmd"

text \<open>
  \<open>cret\<close> and \<open>cbind\<close> compose commands on the server: the body of a Lua script, which Redis runs as one
  atomic step, and which stops at the first \<open>redis.call\<close> that raises an error.
\<close>

definition cret :: "'a \<Rightarrow> ('r, 'a) cmd" where
  "cret x = (\<lambda>r. (Inr x, r))"

definition cbind :: "('r, 'a) cmd \<Rightarrow> ('a \<Rightarrow> ('r, 'b) cmd) \<Rightarrow> ('r, 'b) cmd" where
  "cbind c k = (\<lambda>r. case c r of (Inl e, r') \<Rightarrow> (Inl e, r') | (Inr x, r') \<Rightarrow> k x r')"

text \<open>One request of the client: the command, or a whole script, over the wire.\<close>

definition redis_send :: "'r redis_ops \<Rightarrow> ('r, 'a) cmd \<Rightarrow> ('r, 'a) cmd" where
  "redis_send R c = (\<lambda>r. case r_link R r of
       (Delivered, r1) \<Rightarrow> c r1
     | (Lost e, r1) \<Rightarrow> (Inl e, r1)
     | (ReplyLost e, r1) \<Rightarrow> (Inl e, snd (c r1)))"

section \<open>The reference server\<close>

text \<open>
  Strings, sets (a list without duplicates) and sorted sets (members with their scores, by score), each
  with an optional expiry time in milliseconds. Scores are Redis doubles, exact up to \<open>2 ^ 53\<close>.
\<close>

datatype rdata = RStr string | RSet "string list" | RZset "(string \<times> nat) list"

type_synonym keyspace = "string \<Rightarrow> (rdata \<times> nat option) option"

record rdb =
  rclock :: nat
  keys :: keyspace

definition live :: "nat \<Rightarrow> keyspace \<Rightarrow> keyspace" where
  "live t s = (\<lambda>k. case s k of Some (d, Some e) \<Rightarrow> if t \<le> e then s k else None | x \<Rightarrow> x)"

text \<open>Time passes: the clock moves on and the keys whose time has passed are gone.\<close>

definition elapse :: "nat \<Rightarrow> rdb \<Rightarrow> rdb" where
  "elapse dt db = \<lparr>rclock = rclock db + dt, keys = live (rclock db + dt) (keys db)\<rparr>"

definition wrong_type :: string where
  "wrong_type = ''WRONGTYPE Operation against a key holding the wrong kind of value''"

definition put :: "string \<Rightarrow> rdata \<times> nat option \<Rightarrow> rdb \<Rightarrow> rdb" where
  "put k v db = db\<lparr>keys := (keys db)(k \<mapsto> v)\<rparr>"

definition drop_keys :: "string list \<Rightarrow> rdb \<Rightarrow> rdb" where
  "drop_keys ks db = db\<lparr>keys := (\<lambda>k. if k \<in> set ks then None else keys db k)\<rparr>"

definition ref_get :: "string \<Rightarrow> (rdb, string option) cmd" where
  "ref_get k db = (case keys db k of
       None \<Rightarrow> (Inr None, db)
     | Some (RStr v, _) \<Rightarrow> (Inr (Some v), db)
     | _ \<Rightarrow> (Inl wrong_type, db))"

definition ref_set_ex :: "string \<Rightarrow> string \<Rightarrow> int \<Rightarrow> (rdb, unit) cmd" where
  "ref_set_ex k v secs db =
     (if secs \<le> 0 \<or> 2 ^ 63 \<le> int (rclock db) + 1000 * secs
      then (Inl ''ERR invalid expire time in set'', db)
      else (Inr (), put k (RStr v, Some (rclock db + 1000 * nat secs)) db))"

definition ref_del :: "string list \<Rightarrow> (rdb, unit) cmd" where
  "ref_del ks db = (Inr (), drop_keys ks db)"

definition ref_getdel :: "string \<Rightarrow> (rdb, string option) cmd" where
  "ref_getdel k db = (case keys db k of
       None \<Rightarrow> (Inr None, db)
     | Some (RStr v, _) \<Rightarrow> (Inr (Some v), drop_keys [k] db)
     | _ \<Rightarrow> (Inl wrong_type, db))"

definition ref_expire :: "string \<Rightarrow> int \<Rightarrow> (rdb, unit) cmd" where
  "ref_expire k secs db = (case keys db k of
       None \<Rightarrow> (Inr (), db)
     | Some (d, _) \<Rightarrow>
         if secs \<le> 0 then (Inr (), drop_keys [k] db)
         else if 2 ^ 63 \<le> int (rclock db) + 1000 * secs then (Inl ''ERR invalid expire time in expire'', db)
         else (Inr (), put k (d, Some (rclock db + 1000 * nat secs)) db))"

definition ref_ttl :: "string \<Rightarrow> (rdb, int) cmd" where
  "ref_ttl k db = (case keys db k of
       None \<Rightarrow> (Inr (-2), db)
     | Some (_, None) \<Rightarrow> (Inr (-1), db)
     | Some (_, Some e) \<Rightarrow> (Inr (int ((e - rclock db + 500) div 1000)), db))"

definition ref_incr :: "string \<Rightarrow> (rdb, int) cmd" where
  "ref_incr k db = (case keys db k of
       None \<Rightarrow> (Inr 1, put k (RStr ''1'', None) db)
     | Some (RStr v, e) \<Rightarrow>
         (case parse_signed 64 v of
            Some i \<Rightarrow> if i < 2 ^ 63 - 1 then (Inr (i + 1), put k (RStr (show_int (i + 1)), e) db)
                      else (Inl ''ERR increment or decrement would overflow'', db)
          | None \<Rightarrow> (Inl ''ERR value is not an integer or out of range'', db))
     | _ \<Rightarrow> (Inl wrong_type, db))"

fun zinsert :: "string \<Rightarrow> nat \<Rightarrow> (string \<times> nat) list \<Rightarrow> (string \<times> nat) list" where
  "zinsert m s [] = [(m, s)]"
| "zinsert m s ((m', s') # z) = (if s < s' then (m, s) # (m', s') # z else (m', s') # zinsert m s z)"

definition zset_of :: "rdata option \<Rightarrow> string + (string \<times> nat) list" where
  "zset_of d = (case d of None \<Rightarrow> Inr [] | Some (RZset z) \<Rightarrow> Inr z | Some _ \<Rightarrow> Inl wrong_type)"

definition expiry_of :: "string \<Rightarrow> rdb \<Rightarrow> nat option" where
  "expiry_of k db = (case keys db k of None \<Rightarrow> None | Some (_, e) \<Rightarrow> e)"

text \<open>A sorted set or a set that becomes empty is deleted with its key.\<close>

definition put_zset :: "string \<Rightarrow> (string \<times> nat) list \<Rightarrow> rdb \<Rightarrow> rdb" where
  "put_zset k z db = (if z = [] then drop_keys [k] db else put k (RZset z, expiry_of k db) db)"

definition put_set :: "string \<Rightarrow> string list \<Rightarrow> rdb \<Rightarrow> rdb" where
  "put_set k xs db = (if xs = [] then drop_keys [k] db else put k (RSet xs, expiry_of k db) db)"

definition ref_zadd :: "string \<Rightarrow> nat \<Rightarrow> string \<Rightarrow> (rdb, unit) cmd" where
  "ref_zadd k score m db = (case zset_of (map_option fst (keys db k)) of
       Inl e \<Rightarrow> (Inl e, db)
     | Inr z \<Rightarrow> (Inr (), put_zset k (zinsert m score (filter (\<lambda>(m', _). m' \<noteq> m) z)) db))"

definition ref_zremrangebyscore :: "string \<Rightarrow> int \<Rightarrow> (rdb, unit) cmd" where
  "ref_zremrangebyscore k mx db = (case zset_of (map_option fst (keys db k)) of
       Inl e \<Rightarrow> (Inl e, db)
     | Inr z \<Rightarrow> (Inr (), put_zset k (filter (\<lambda>(_, s). mx < int s) z) db))"

definition ref_zcard :: "string \<Rightarrow> (rdb, nat) cmd" where
  "ref_zcard k db = (case zset_of (map_option fst (keys db k)) of
       Inl e \<Rightarrow> (Inl e, db)
     | Inr z \<Rightarrow> (Inr (length z), db))"

definition ref_zfirst :: "string \<Rightarrow> (rdb, (string \<times> nat) option) cmd" where
  "ref_zfirst k db = (case zset_of (map_option fst (keys db k)) of
       Inl e \<Rightarrow> (Inl e, db)
     | Inr z \<Rightarrow> (Inr (case z of [] \<Rightarrow> None | x # _ \<Rightarrow> Some x), db))"

definition set_of :: "rdata option \<Rightarrow> string + string list" where
  "set_of d = (case d of None \<Rightarrow> Inr [] | Some (RSet xs) \<Rightarrow> Inr xs | Some _ \<Rightarrow> Inl wrong_type)"

definition ref_sadd :: "string \<Rightarrow> string \<Rightarrow> (rdb, unit) cmd" where
  "ref_sadd k m db = (case set_of (map_option fst (keys db k)) of
       Inl e \<Rightarrow> (Inl e, db)
     | Inr xs \<Rightarrow> (Inr (), put_set k (if m \<in> set xs then xs else xs @ [m]) db))"

definition ref_srem :: "string \<Rightarrow> string \<Rightarrow> (rdb, unit) cmd" where
  "ref_srem k m db = (case set_of (map_option fst (keys db k)) of
       Inl e \<Rightarrow> (Inl e, db)
     | Inr xs \<Rightarrow> (Inr (), put_set k (filter (\<lambda>x. x \<noteq> m) xs) db))"

definition ref_smembers :: "string \<Rightarrow> (rdb, string list) cmd" where
  "ref_smembers k db = (case set_of (map_option fst (keys db k)) of
       Inl e \<Rightarrow> (Inl e, db)
     | Inr xs \<Rightarrow> (Inr xs, db))"

definition ref_rename :: "string \<Rightarrow> string \<Rightarrow> (rdb, unit) cmd" where
  "ref_rename a b db = (case keys db a of
       None \<Rightarrow> (Inl ''ERR no such key'', db)
     | Some v \<Rightarrow> (Inr (), put b v (drop_keys [a] db)))"

text \<open>The reference server's link delivers everything at once; \<open>dt\<close> is the time a request takes.\<close>

definition ref_redis :: "nat \<Rightarrow> rdb redis_ops" where
  "ref_redis dt = \<lparr>
     r_link = (\<lambda>db. (Delivered, elapse dt db)),
     r_ping = (\<lambda>db. (Inr (), db)),
     r_get = ref_get, r_set_ex = ref_set_ex, r_del = ref_del, r_getdel = ref_getdel,
     r_expire = ref_expire, r_ttl = ref_ttl, r_incr = ref_incr,
     r_zadd = ref_zadd, r_zremrangebyscore = ref_zremrangebyscore, r_zcard = ref_zcard,
     r_zfirst = ref_zfirst, r_sadd = ref_sadd, r_srem = ref_srem, r_smembers = ref_smembers,
     r_rename = ref_rename, r_publish = (\<lambda>c m db. (Inr (), db))\<rparr>"

lemma ref_ops [simp]:
  "r_link (ref_redis dt) db = (Delivered, elapse dt db)"
  "r_ping (ref_redis dt) db = (Inr (), db)" "r_publish (ref_redis dt) c m db = (Inr (), db)"
  "r_get (ref_redis dt) = ref_get" "r_set_ex (ref_redis dt) = ref_set_ex"
  "r_del (ref_redis dt) = ref_del" "r_getdel (ref_redis dt) = ref_getdel"
  "r_expire (ref_redis dt) = ref_expire" "r_ttl (ref_redis dt) = ref_ttl"
  "r_incr (ref_redis dt) = ref_incr" "r_zadd (ref_redis dt) = ref_zadd"
  "r_zremrangebyscore (ref_redis dt) = ref_zremrangebyscore" "r_zcard (ref_redis dt) = ref_zcard"
  "r_zfirst (ref_redis dt) = ref_zfirst" "r_sadd (ref_redis dt) = ref_sadd"
  "r_srem (ref_redis dt) = ref_srem" "r_smembers (ref_redis dt) = ref_smembers"
  "r_rename (ref_redis dt) = ref_rename"
  by (simp_all add: ref_redis_def)

text \<open>Running a script: its first command, then the rest unless it failed.\<close>

lemma cbind_Inr: "c r = (Inr x, r') \<Longrightarrow> cbind c k r = k x r'"
  by (simp add: cbind_def)

lemma cbind_Inl: "c r = (Inl e, r') \<Longrightarrow> cbind c k r = (Inl e, r')"
  by (simp add: cbind_def)

text \<open>The sorted set at a key, if the key holds one or nothing.\<close>

definition zset_at :: "string \<Rightarrow> rdb \<Rightarrow> string + (string \<times> nat) list" where
  "zset_at k db = zset_of (map_option fst (keys db k))"

lemma ref_zset_steps:
  assumes "zset_at k db = Inr z"
  shows "ref_zremrangebyscore k mx db = (Inr (), put_zset k (filter (\<lambda>(_, s). mx < int s) z) db)"
    and "ref_zcard k db = (Inr (length z), db)"
    and "ref_zfirst k db = (Inr (case z of [] \<Rightarrow> None | x # _ \<Rightarrow> Some x), db)"
    and "ref_zadd k score m db =
      (Inr (), put_zset k (zinsert m score (filter (\<lambda>(m', _). m' \<noteq> m) z)) db)"
  using assms
  by (simp_all add: zset_at_def ref_zremrangebyscore_def ref_zcard_def ref_zfirst_def ref_zadd_def)

section \<open>The laws\<close>

text \<open>
  Every command of the server \<open>R\<close> does, seen through \<open>db_of\<close>, what the reference command does. Between
  delivery and execution only time passes. Sorted-set scores are exact only up to \<open>2 ^ 53\<close>.
\<close>

definition simulates :: "('r \<Rightarrow> rdb) \<Rightarrow> ('r, 'a) cmd \<Rightarrow> (rdb, 'a) cmd \<Rightarrow> bool" where
  "simulates db_of c c' \<longleftrightarrow> (\<forall>r. map_prod id db_of (c r) = c' (db_of r))"

locale redis_service =
  fixes R :: "'r redis_ops"
    and db_of :: "'r \<Rightarrow> rdb"
  assumes link: "\<exists>dt. db_of (snd (r_link R r)) = elapse dt (db_of r)"
    and ping: "simulates db_of (r_ping R) (r_ping (ref_redis 0))"
    and get: "simulates db_of (r_get R k) (ref_get k)"
    and set_ex: "simulates db_of (r_set_ex R k v secs) (ref_set_ex k v secs)"
    and del: "simulates db_of (r_del R ks) (ref_del ks)"
    and getdel: "simulates db_of (r_getdel R k) (ref_getdel k)"
    and expire: "simulates db_of (r_expire R k secs) (ref_expire k secs)"
    and ttl: "simulates db_of (r_ttl R k) (ref_ttl k)"
    and incr: "simulates db_of (r_incr R k) (ref_incr k)"
    and zadd: "score \<le> 2 ^ 53 \<Longrightarrow> simulates db_of (r_zadd R k score m) (ref_zadd k score m)"
    and zremrangebyscore: "mx \<le> 2 ^ 53 \<Longrightarrow>
      simulates db_of (r_zremrangebyscore R k mx) (ref_zremrangebyscore k mx)"
    and zcard: "simulates db_of (r_zcard R k) (ref_zcard k)"
    and zfirst: "simulates db_of (r_zfirst R k) (ref_zfirst k)"
    and sadd: "simulates db_of (r_sadd R k m) (ref_sadd k m)"
    and srem: "simulates db_of (r_srem R k m) (ref_srem k m)"
    and smembers: "simulates db_of (r_smembers R k) (ref_smembers k)"
    and rename: "simulates db_of (r_rename R k k') (ref_rename k k')"
    and publish: "simulates db_of (r_publish R c m) (r_publish (ref_redis 0) c m)"

lemma simulatesD: "simulates db_of c c' \<Longrightarrow> c r = (x, r') \<Longrightarrow> c' (db_of r) = (x, db_of r')"
  by (auto simp: simulates_def dest: spec [of _ r])

lemma simulates_id: "simulates (\<lambda>db. db) c c"
  by (simp add: simulates_def map_prod_def split: prod.split)

lemma simulates_cret [intro]: "simulates db_of (cret x) (cret x)"
  by (simp add: simulates_def cret_def)

lemma simulates_cbind [intro]:
  assumes "simulates db_of c c'" and "\<And>x. simulates db_of (k x) (k' x)"
  shows "simulates db_of (cbind c k) (cbind c' k')"
  unfolding simulates_def
proof
  fix r
  obtain x r' where c: "c r = (x, r')" by (cases "c r")
  with assms(1) have "c' (db_of r) = (x, db_of r')" by (rule simulatesD)
  moreover have "map_prod id db_of (k y r') = k' y (db_of r')" for y
    using assms(2) by (simp add: simulates_def)
  ultimately show "map_prod id db_of (cbind c k r) = cbind c' k' (db_of r)"
    using c by (cases x) (simp_all add: cbind_def)
qed

lemma if_simulates [intro]:
  "simulates db_of c c' \<Longrightarrow> simulates db_of d d' \<Longrightarrow>
   simulates db_of (if b then c else d) (if b then c' else d')"
  by simp

lemma option_simulates [intro]:
  "simulates db_of c c' \<Longrightarrow> (\<And>a. simulates db_of (f a) (f' a)) \<Longrightarrow>
   simulates db_of (case x of None \<Rightarrow> c | Some a \<Rightarrow> f a) (case x of None \<Rightarrow> c' | Some a \<Rightarrow> f' a)"
  by (cases x) simp_all

interpretation ref: redis_service "ref_redis dt" "\<lambda>db. db"
  by unfold_locales (auto simp: ref_redis_def simulates_id)

text \<open>
  A request over the wire, seen through \<open>db_of\<close>: some time passes, and the script is then either
  executed with its reply, executed with an error reported, or not executed with an error reported.
\<close>

definition wire_step :: "rdb \<Rightarrow> (rdb, 'a) cmd \<Rightarrow> string + 'a \<Rightarrow> rdb \<Rightarrow> bool" where
  "wire_step db c x db' \<longleftrightarrow> (\<exists>dt. let d = elapse dt db in
     c d = (x, db') \<or> (\<exists>e. x = Inl e \<and> (db' = d \<or> db' = snd (c d))))"

context redis_service
begin

lemma send_sim:
  assumes "simulates db_of c c'" and "redis_send R c r = (x, r')"
  shows "wire_step (db_of r) c' x (db_of r')"
proof -
  obtain l r1 where l: "r_link R r = (l, r1)" by (cases "r_link R r")
  with link [of r] obtain dt where dt: "db_of r1 = elapse dt (db_of r)" by auto
  have c: "c' (db_of r1) = (fst (c r1), db_of (snd (c r1)))"
    using simulatesD [OF assms(1)] by (metis prod.collapse)
  then show ?thesis
    using assms(2) l dt unfolding wire_step_def Let_def
    by (cases l) (auto simp: redis_send_def intro!: exI [of _ dt])
qed

end

lemma wire_step_Inr: "wire_step db c (Inr a) db' \<Longrightarrow> \<exists>dt. c (elapse dt db) = (Inr a, db')"
  by (auto simp: wire_step_def Let_def)

lemma wire_step_cases:
  assumes "wire_step db c x db'"
  obtains (ran) dt y where "c (elapse dt db) = (y, db')" "x = y \<or> (\<exists>e. x = Inl e)"
    | (lost) dt e where "db' = elapse dt db" "x = Inl e"
proof -
  from assms obtain dt where "c (elapse dt db) = (x, db') \<or>
      (\<exists>e. x = Inl e \<and> (db' = elapse dt db \<or> db' = snd (c (elapse dt db))))"
    by (auto simp: wire_step_def Let_def)
  then show thesis using ran lost by (metis prod.collapse)
qed

section \<open>Facts about the reference server\<close>

lemma keys_put [simp]: "keys (put k v db) = (keys db)(k \<mapsto> v)"
  by (simp add: put_def)

lemma keys_drop_keys [simp]: "keys (drop_keys ks db) k = (if k \<in> set ks then None else keys db k)"
  by (simp add: drop_keys_def)

lemma rclock_put [simp]: "rclock (put k v db) = rclock db"
  by (simp add: put_def)

lemma rclock_drop_keys [simp]: "rclock (drop_keys ks db) = rclock db"
  by (simp add: drop_keys_def)

lemma keys_put_zset [simp]:
  "keys (put_zset k z d) k = (if z = [] then None else Some (RZset z, expiry_of k d))"
  by (simp add: put_zset_def)

lemma rclock_put_zset [simp]: "rclock (put_zset k z d) = rclock d"
  by (simp add: put_zset_def)

lemma zset_at_put_zset [simp]: "zset_at k (put_zset k z d) = Inr z"
  by (simp add: zset_at_def zset_of_def)

lemma zset_at_put [simp]: "zset_at k (put k (RZset z, e) d) = Inr z"
  by (simp add: zset_at_def zset_of_def)

lemma put_put [simp]: "put k v (put k v' d) = put k v d"
  by (simp add: put_def)

lemma put_zset_put_zset [simp]: "put k v (put_zset k z d) = put k v d"
  by (auto simp: put_zset_def put_def drop_keys_def fun_eq_iff)

lemma put_drop_keys [simp]: "put k v (drop_keys [k] d) = put k v d"
  by (auto simp: put_def drop_keys_def fun_eq_iff)

lemma elapse_empty [simp]:
  "elapse dt \<lparr>rclock = t, keys = \<lambda>_. None\<rparr> = \<lparr>rclock = t + dt, keys = \<lambda>_. None\<rparr>"
  by (simp add: elapse_def live_def fun_eq_iff)

lemma rclock_elapse [simp]: "rclock (elapse dt db) = rclock db + dt"
  by (simp add: elapse_def)

lemma elapse_mono: "keys (elapse dt db) k = Some v \<Longrightarrow> keys db k = Some v"
  by (auto simp: elapse_def live_def split: option.splits prod.splits if_splits)

lemma elapse_None: "keys db k = None \<Longrightarrow> keys (elapse dt db) k = None"
  by (simp add: elapse_def live_def)

lemma keys_elapse: "keys (elapse dt db) k = (case keys db k of
    Some (d, Some e) \<Rightarrow> if rclock db + dt \<le> e then Some (d, Some e) else None | x \<Rightarrow> x)"
  by (auto simp: elapse_def live_def split: option.splits)

text \<open>\<open>later\<close>: nothing but time has passed for the key \<open>k\<close>.\<close>

definition later :: "string \<Rightarrow> rdb \<Rightarrow> rdb \<Rightarrow> bool" where
  "later k db db' \<longleftrightarrow> rclock db \<le> rclock db' \<and> keys db' k = live (rclock db') (keys db) k"

lemma live_cong: "s k = s' k \<Longrightarrow> live t s k = live t s' k"
  by (simp add: live_def split: option.splits)

lemma live_live: "t \<le> t' \<Longrightarrow> live t' (live t s) k = live t' s k"
  by (auto simp: live_def split: option.splits)

lemma live_None [simp]: "s k = None \<Longrightarrow> live t s k = None"
  by (simp add: live_def)

lemma later_elapse: "later k db (elapse dt db)"
  by (simp add: later_def elapse_def)

lemma later_trans:
  assumes "later k a b" and "later k b c"
  shows "later k a c"
proof -
  have "live (rclock c) (keys b) k = live (rclock c) (live (rclock b) (keys a)) k"
    using assms(1) by (intro live_cong) (simp add: later_def)
  with assms show ?thesis by (auto simp: later_def live_live)
qed

lemma later_absent: "later k db db' \<Longrightarrow> keys db k = None \<Longrightarrow> keys db' k = None"
  by (simp add: later_def)

lemma later_present:
  "later k db db' \<Longrightarrow> keys db k = Some (d, Some e) \<Longrightarrow> rclock db' \<le> e \<Longrightarrow> keys db' k = Some (d, Some e)"
  by (simp add: later_def live_def)

text \<open>Commands take no time of their own: the clock moves only between them.\<close>

definition timeless :: "(rdb, 'a) cmd \<Rightarrow> bool" where
  "timeless c \<longleftrightarrow> (\<forall>d. rclock (snd (c d)) = rclock d)"

lemma timeless_run: "timeless c \<Longrightarrow> c d = (x, d') \<Longrightarrow> rclock d' = rclock d"
  by (metis snd_conv timeless_def)

lemma timeless_cret [intro!, simp]: "timeless (cret x)"
  by (simp add: timeless_def cret_def)

lemma timeless_fail [intro!, simp]: "timeless (\<lambda>d. (Inl e, d))"
  by (simp add: timeless_def)

lemma timeless_cbind [intro!]: "timeless c \<Longrightarrow> (\<And>x. timeless (k x)) \<Longrightarrow> timeless (cbind c k)"
  by (auto simp: timeless_def cbind_def split: sum.splits prod.splits) (metis snd_conv)+

lemma timeless_ref [intro!, simp]:
  "timeless (ref_get k)" "timeless (ref_set_ex k v s)" "timeless (ref_del ks)" "timeless (ref_getdel k)"
  "timeless (ref_expire k s)" "timeless (ref_ttl k)" "timeless (ref_incr k)" "timeless (ref_zadd k n m)"
  "timeless (ref_zremrangebyscore k mx)" "timeless (ref_zcard k)" "timeless (ref_zfirst k)"
  by (auto simp: timeless_def ref_get_def ref_set_ex_def ref_del_def ref_getdel_def ref_expire_def
      ref_ttl_def ref_incr_def ref_zadd_def ref_zremrangebyscore_def ref_zcard_def ref_zfirst_def
      split: option.splits rdata.splits sum.splits)

end
