(* ===== verification/World.thy ===== *)
theory World
  imports Redis
begin

text \<open>
  The world the server runs in: the services it calls, as records of operations over arbitrary states,
  and the process-wide state of the backend itself. A handler is a \<open>prog\<close> over \<open>world\<close>; one command,
  one SQL statement, one critical section of a mutex is one step of it.
\<close>

section \<open>Data that crosses the interfaces\<close>

record session =
  user_id :: string
  email :: string
  sname :: "string option"
  provider :: string
  created_at :: u64

record claims =
  sub :: string
  cemail :: string
  cname :: "string option"
  cprovider :: string
  exp_at :: u64
  iat :: u64
  iss :: string
  jti :: string

datatype jwt_error = ExpiredSignature | OtherJwtError string

record user_row =
  u_id :: string
  u_email :: string
  u_name :: "string option"
  u_provider :: string
  u_password_hash :: "string option"

text \<open>A timestamp of the database is microseconds since the Unix epoch.\<close>

record note_row =
  n_id :: string
  n_user_id :: string
  n_title :: string
  n_body :: string
  n_created_at :: int
  n_updated_at :: int

section \<open>The database: one operation per SQL statement of the code\<close>

type_synonym ('d, 'a) stmt = "'d \<Rightarrow> (sqlx_error + 'a) \<times> 'd"

record 'd db_ops =
  q_one :: "('d, unit) stmt"
  q_user_id_by_email :: "string \<Rightarrow> ('d, string option) stmt"
  q_user_by_email :: "string \<Rightarrow> ('d, user_row option) stmt"
  q_user_by_id :: "string \<Rightarrow> ('d, user_row option) stmt"
  q_insert_user :: "string \<Rightarrow> string option \<Rightarrow> string \<Rightarrow> ('d, string) stmt"
  q_upsert_user :: "string \<Rightarrow> string \<Rightarrow> string option \<Rightarrow> string \<Rightarrow> ('d, string) stmt"
  q_update_password :: "string \<Rightarrow> string \<Rightarrow> ('d, nat) stmt"
  q_delete_notes_of :: "string \<Rightarrow> ('d, nat) stmt"
  q_delete_user :: "string \<Rightarrow> ('d, nat) stmt"
  q_notes :: "string \<Rightarrow> (int \<times> string) option \<Rightarrow> int \<Rightarrow>
    ('d, (string \<times> string \<times> int \<times> int) list) stmt"
  q_insert_note :: "string \<Rightarrow> string \<Rightarrow> string \<Rightarrow> ('d, note_row) stmt"
  q_note :: "string \<Rightarrow> string \<Rightarrow> ('d, note_row option) stmt"
  q_update_note :: "string \<Rightarrow> string \<Rightarrow> string \<Rightarrow> string \<Rightarrow> ('d, note_row option) stmt"
  q_delete_note :: "string \<Rightarrow> string \<Rightarrow> ('d, nat) stmt"

section \<open>The operating system and the rest of the outside world\<close>

text \<open>
  The system clock (milliseconds since the Unix epoch, negative before it), the monotonic clock
  (milliseconds), the random sources, Argon2 hashing (its salt is random), the failure of a blocking
  task, and the choice of the runtime between concurrent futures.
\<close>

record 'o os_ops =
  os_now :: "'o \<Rightarrow> int \<times> 'o"
  os_instant :: "'o \<Rightarrow> nat \<times> 'o"
  os_uuid :: "'o \<Rightarrow> string \<times> 'o"
  os_random :: "nat \<Rightarrow> 'o \<Rightarrow> (string + u8 list) \<times> 'o"
  os_argon2 :: "string \<Rightarrow> 'o \<Rightarrow> (string + string) \<times> 'o"
  os_join :: "'o \<Rightarrow> string option \<times> 'o"
  os_pick :: "'o \<Rightarrow> bool \<times> 'o"

section \<open>Pure functions of the libraries\<close>

text \<open>A \<open>serde_json\<close> codec of a type: \<open>to_string\<close> and \<open>from_str\<close>.\<close>

record 'a codec =
  enc :: "'a \<Rightarrow> string + string"
  dec :: "string \<Rightarrow> string + 'a"

definition codec_ok :: "'a codec \<Rightarrow> bool" where
  "codec_ok c \<longleftrightarrow> (\<forall>x. \<exists>j. enc c x = Inr j \<and> j \<noteq> [] \<and> dec c j = Inr x)"

record lib =
  str_codec :: "string codec"
  bool_codec :: "bool codec"
  session_codec :: "session codec"
  cjson_user_id :: "string \<Rightarrow> string + string option"
  fred_i64 :: "string \<Rightarrow> string + int"
  fred_u64 :: "int \<Rightarrow> string + nat"
  fred_io_error :: "string \<Rightarrow> string"
  parse_json :: "string \<Rightarrow> json option"
  show_json :: "json \<Rightarrow> string"
  jwt_encode :: "string \<Rightarrow> claims \<Rightarrow> string + string"
  jwt_decode :: "string \<Rightarrow> string \<Rightarrow> int \<Rightarrow> string \<Rightarrow> jwt_error + claims"
  jwt_error_text :: "jwt_error \<Rightarrow> string"
  argon2_parse :: "string \<Rightarrow> string + unit"
  argon2_matches :: "string \<Rightarrow> string \<Rightarrow> bool"
  hmac_sha256 :: "string \<Rightarrow> string \<Rightarrow> string + u8 list"
  header_value_error :: "string \<Rightarrow> string option"
  header_is_text :: "string \<Rightarrow> bool"
  base64_encode :: "string \<Rightarrow> string"
  base64_decode :: "string \<Rightarrow> string option"
  is_uuid :: "string \<Rightarrow> bool"
  micros_ok :: "int \<Rightarrow> bool"
  sqlx_text :: "sqlx_error \<Rightarrow> string"

text \<open>
  \<open>cjson_user_id\<close> is what the Redis server's \<open>cjson\<close> makes of \<open>session['user_id']\<close>: a script error, no
  such field, or its text. \<open>fred_i64\<close> and \<open>fred_u64\<close> are the conversions of a reply by the Redis
  client library, and \<open>fred_io_error\<close> is the text of its error of the kind \<open>IO\<close> with the given details. The further fields are \<open>PasswordHash::new\<close>, \<open>HeaderValue::from_str\<close> (its
  error text, if it fails), \<open>HeaderValue::to_str().is_ok()\<close>, the URL-safe base64 engine without padding,
  \<open>Uuid::parse_str(..).is_ok()\<close> and \<open>DateTime::from_timestamp_micros(..).is_some()\<close>.
\<close>

record ('r, 'd, 'o) env =
  e_redis :: "'r redis_ops"
  e_db :: "'d db_ops"
  e_os :: "'o os_ops"
  e_lib :: lib
  e_prefix :: string
  e_vars :: "string \<Rightarrow> string option"

section \<open>The process-wide state\<close>

text \<open>
  \<open>SESSION_CACHE\<close> and \<open>BLACKLIST_CACHE\<close> are \<open>OnceLock\<close>s, unset (\<open>None\<close>) at the start; \<open>active_ws\<close>
  is \<open>ACTIVE_WS_CONNECTIONS\<close>, \<open>ws_permits\<close> the free permits of the connection semaphore, \<open>ws_users\<close> the
  per-user connection counts, the health caches hold a value and the instant it was taken, and \<open>pubsub\<close> is
  the shared subscriber, once it exists: its channel, and how its connection went, once that is known.
\<close>

record ('r, 'd, 'o) world =
  redis :: 'r
  db :: 'd
  outside :: 'o
  session_cache :: "(nat \<times> session) hmap option"
  blacklist_cache :: "nat hmap option"
  active_ws :: nat
  ws_permits :: nat
  ws_users :: "nat hmap"
  db_health :: "(nat \<times> json) option"
  redis_health :: "(nat \<times> json) option"
  py_health :: "(nat \<times> json) option"
  pubsub :: "(string \<times> (string + unit) option) option"

type_synonym ('r, 'd, 'o, 'a) handler = "(('r, 'd, 'o) world, api_error + 'a) prog"
type_synonym ('r, 'd, 'o, 'a) cached = "(('r, 'd, 'o) world, cache_error + 'a) prog"

section \<open>One step of a handler\<close>

text \<open>A request to Redis; the client library's error becomes \<open>CommandFailed\<close>.\<close>

definition redis_act :: "('r, 'd, 'o) env \<Rightarrow> ('r, 'a) cmd \<Rightarrow> ('r, 'd, 'o, 'a) cached" where
  "redis_act E c = act (\<lambda>w. case redis_send (e_redis E) c (redis w) of
     (x, r) \<Rightarrow> (map_err CommandFailed x, w\<lparr>redis := r\<rparr>))"

definition db_act ::
  "('r, 'd, 'o) env \<Rightarrow> ('d db_ops \<Rightarrow> ('d, 'a) stmt) \<Rightarrow> (('r, 'd, 'o) world, sqlx_error + 'a) prog" where
  "db_act E q = act (\<lambda>w. case q (e_db E) (db w) of (x, d) \<Rightarrow> (x, w\<lparr>db := d\<rparr>))"

definition os_act ::
  "('r, 'd, 'o) env \<Rightarrow> ('o os_ops \<Rightarrow> 'o \<Rightarrow> 'a \<times> 'o) \<Rightarrow> (('r, 'd, 'o) world, 'a) prog" where
  "os_act E f = act (\<lambda>w. case f (e_os E) (outside w) of (x, o') \<Rightarrow> (x, w\<lparr>outside := o'\<rparr>))"

definition os_pick_world :: "('r, 'd, 'o) env \<Rightarrow> ('r, 'd, 'o) world \<Rightarrow> bool \<times> ('r, 'd, 'o) world" where
  "os_pick_world E w = (case os_pick (e_os E) (outside w) of (b, o') \<Rightarrow> (b, w\<lparr>outside := o'\<rparr>))"

text \<open>\<open>tokio::join!\<close> under the runtime's scheduler.\<close>

definition join_all2 ::
  "('r, 'd, 'o) env \<Rightarrow> (('r, 'd, 'o) world, 'a) prog \<Rightarrow> (('r, 'd, 'o) world, 'b) prog \<Rightarrow>
   (('r, 'd, 'o) world, 'a \<times> 'b) prog" where
  "join_all2 E = join2 (os_pick_world E)"

lemma run_redis_act [run_simps]:
  "run (redis_act E c) w = (case redis_send (e_redis E) c (redis w) of
     (x, r) \<Rightarrow> (map_err CommandFailed x, w\<lparr>redis := r\<rparr>))"
  by (simp add: redis_act_def run_act)

lemma run_db_act [run_simps]:
  "run (db_act E q) w = (case q (e_db E) (db w) of (x, d) \<Rightarrow> (x, w\<lparr>db := d\<rparr>))"
  by (simp add: db_act_def run_act)

lemma run_os_act [run_simps]:
  "run (os_act E f) w = (case f (e_os E) (outside w) of (x, o') \<Rightarrow> (x, w\<lparr>outside := o'\<rparr>))"
  by (simp add: os_act_def run_act)

section \<open>What a step leaves alone\<close>

named_theorems frame "steps and operations that do not change a part of the world"

lemma keeps_redis_act:
  assumes "\<And>r w. v (w\<lparr>redis := r\<rparr>) = v w"
  shows "keeps v (redis_act E c)"
  unfolding redis_act_def by (rule keeps_act) (simp add: assms split: prod.split)

lemma keeps_db_act:
  assumes "\<And>d w. v (w\<lparr>db := d\<rparr>) = v w"
  shows "keeps v (db_act E q)"
  unfolding db_act_def by (rule keeps_act) (simp add: assms split: prod.split)

lemma keeps_os_act:
  assumes "\<And>o' w. v (w\<lparr>outside := o'\<rparr>) = v w"
  shows "keeps v (os_act E f)"
  unfolding os_act_def by (rule keeps_act) (simp add: assms split: prod.split)

lemma frame_steps [frame]:
  "keeps db (redis_act E c)" "keeps session_cache (redis_act E c)" "keeps blacklist_cache (redis_act E c)"
  "keeps redis (db_act E q)" "keeps session_cache (db_act E q)" "keeps blacklist_cache (db_act E q)"
  "keeps redis (os_act E f)" "keeps db (os_act E f)" "keeps session_cache (os_act E f)"
  "keeps blacklist_cache (os_act E f)"
  by (simp_all add: keeps_redis_act keeps_db_act keeps_os_act)

lemma keeps_join_all2:
  assumes "\<And>o' w. v (w\<lparr>outside := o'\<rparr>) = v w" and "keeps v p" and "keeps v q"
  shows "keeps v (join_all2 E p q)"
proof -
  have "steps (\<lambda>w w'. v w' = v w) (\<lambda>x. True \<and> True) (join2 (os_pick_world E) p q)"
    by (rule steps_join2 [OF _ _ assms(2,3)])
      (simp_all add: os_pick_world_def assms(1) transp_def split: prod.split)
  then show ?thesis by (simp add: join_all2_def)
qed

lemma frame_join [frame]:
  "keeps db p \<Longrightarrow> keeps db q \<Longrightarrow> keeps db (join_all2 E p q)"
  "keeps session_cache p \<Longrightarrow> keeps session_cache q \<Longrightarrow> keeps session_cache (join_all2 E p q)"
  "keeps blacklist_cache p \<Longrightarrow> keeps blacklist_cache q \<Longrightarrow> keeps blacklist_cache (join_all2 E p q)"
  by (simp_all add: keeps_join_all2)

section \<open>What the code relies on from the operating system\<close>

text \<open>
  \<open>issued s x\<close>: the machine's random sources have produced the text \<open>x\<close> before the state \<open>s\<close>. A new
  UUID, and the hexadecimal text of 16 or more random bytes, have not been produced before.
\<close>

definition keeps_issued :: "('o \<Rightarrow> string \<Rightarrow> bool) \<Rightarrow> 'o \<Rightarrow> 'o \<Rightarrow> bool" where
  "keeps_issued issued s s' \<longleftrightarrow> (\<forall>x. issued s x \<longrightarrow> issued s' x)"

locale os_service =
  fixes OS :: "'o os_ops"
    and issued :: "'o \<Rightarrow> string \<Rightarrow> bool"
  assumes now: "keeps_issued issued s (snd (os_now OS s))"
    and instant: "keeps_issued issued s (snd (os_instant OS s))"
    and uuid: "keeps_issued issued s (snd (os_uuid OS s))"
    and uuid_fresh: "os_uuid OS s = (x, s') \<Longrightarrow> \<not> issued s x \<and> issued s' x"
    and random: "keeps_issued issued s (snd (os_random OS n s))"
    and random_fresh: "os_random OS n s = (Inr bs, s') \<Longrightarrow> length bs = n \<and>
      (16 \<le> n \<longrightarrow> \<not> issued s (hex_encode bs) \<and> issued s' (hex_encode bs))"
    and argon2: "keeps_issued issued s (snd (os_argon2 OS p s))"
    and join: "keeps_issued issued s (snd (os_join OS s))"
    and pick: "keeps_issued issued s (snd (os_pick OS s))"

lemma keeps_issued_refl [simp]: "keeps_issued issued s s"
  by (simp add: keeps_issued_def)

lemma keeps_issued_trans [trans]:
  "keeps_issued issued s t \<Longrightarrow> keeps_issued issued t u \<Longrightarrow> keeps_issued issued s u"
  by (simp add: keeps_issued_def)

end
