(* ===== verification/Postgres.thy ===== *)
theory Postgres
  imports World "HOL-Library.Char_ord" "HOL-Library.List_Lexorder" "HOL-Library.Product_Lexorder"
begin

text \<open>
  PostgreSQL as an interface: the tables of \<open>backend/db/migrations\<close> as an abstract state, what each SQL
  statement of the code does to them, and the locale that states it for a service. A statement that is
  answered has done what its specification says; one that fails has either done nothing or, when the
  answer was lost, what it says.
\<close>

record pg =
  users :: "user_row list"
  note_rows :: "note_row list"

text \<open>\<open>canon\<close> is the cast of a text to \<open>uuid\<close> and back: no UUID, or its canonical text.\<close>

type_synonym canon = "string \<Rightarrow> string option"

section \<open>What the statements do\<close>

definition user_id_by_email_spec :: "string \<Rightarrow> pg \<Rightarrow> string option \<Rightarrow> pg \<Rightarrow> bool" where
  "user_id_by_email_spec e p y p' \<longleftrightarrow> p' = p \<and> y = map_option u_id (find (\<lambda>u. u_email u = e) (users p))"

definition user_by_email_spec :: "string \<Rightarrow> pg \<Rightarrow> user_row option \<Rightarrow> pg \<Rightarrow> bool" where
  "user_by_email_spec e p y p' \<longleftrightarrow> p' = p \<and> y = find (\<lambda>u. u_email u = e) (users p)"

definition user_by_id_spec :: "canon \<Rightarrow> string \<Rightarrow> pg \<Rightarrow> user_row option \<Rightarrow> pg \<Rightarrow> bool" where
  "user_by_id_spec canon i p y p' \<longleftrightarrow> p' = p \<and> canon i \<noteq> None \<and>
     y = find (\<lambda>u. Some (u_id u) = canon i) (users p)"

definition insert_user_spec ::
  "canon \<Rightarrow> string \<Rightarrow> string option \<Rightarrow> string \<Rightarrow> pg \<Rightarrow> string \<Rightarrow> pg \<Rightarrow> bool" where
  "insert_user_spec canon e n h p y p' \<longleftrightarrow> e \<notin> u_email ` set (users p) \<and> y \<notin> u_id ` set (users p) \<and>
     canon y = Some y \<and>
     p' = p\<lparr>users := users p @ [\<lparr>u_id = y, u_email = e, u_name = n, u_provider = ''local'',
                                   u_password_hash = Some h\<rparr>]\<rparr>"

definition upsert_user_spec ::
  "canon \<Rightarrow> string \<Rightarrow> string \<Rightarrow> string option \<Rightarrow> string \<Rightarrow> pg \<Rightarrow> string \<Rightarrow> pg \<Rightarrow> bool" where
  "upsert_user_spec canon i e n prov p y p' \<longleftrightarrow> (case find (\<lambda>u. u_email u = e) (users p) of
       Some u \<Rightarrow> y = u_id u \<and>
         p' = p\<lparr>users := map (\<lambda>v. if u_email v = e then v\<lparr>u_name := n\<rparr> else v) (users p)\<rparr>
     | None \<Rightarrow> canon i = Some y \<and> y \<notin> u_id ` set (users p) \<and>
         p' = p\<lparr>users := users p @ [\<lparr>u_id = y, u_email = e, u_name = n, u_provider = prov,
                                       u_password_hash = None\<rparr>]\<rparr>)"

definition resettable :: "canon \<Rightarrow> string \<Rightarrow> user_row \<Rightarrow> bool" where
  "resettable canon i u \<longleftrightarrow> Some (u_id u) = canon i \<and> u_provider u = ''local''"

definition update_password_spec :: "canon \<Rightarrow> string \<Rightarrow> string \<Rightarrow> pg \<Rightarrow> nat \<Rightarrow> pg \<Rightarrow> bool" where
  "update_password_spec canon h i p y p' \<longleftrightarrow> canon i \<noteq> None \<and>
     y = length (filter (resettable canon i) (users p)) \<and>
     p' = p\<lparr>users := map (\<lambda>u. if resettable canon i u then u\<lparr>u_password_hash := Some h\<rparr> else u) (users p)\<rparr>"

definition delete_notes_of_spec :: "canon \<Rightarrow> string \<Rightarrow> pg \<Rightarrow> nat \<Rightarrow> pg \<Rightarrow> bool" where
  "delete_notes_of_spec canon i p y p' \<longleftrightarrow> canon i \<noteq> None \<and>
     y = length (filter (\<lambda>n. Some (n_user_id n) = canon i) (note_rows p)) \<and>
     p' = p\<lparr>note_rows := filter (\<lambda>n. Some (n_user_id n) \<noteq> canon i) (note_rows p)\<rparr>"

text \<open>The notes table refers to the users table with \<open>ON DELETE CASCADE\<close>.\<close>

definition delete_user_spec :: "canon \<Rightarrow> string \<Rightarrow> pg \<Rightarrow> nat \<Rightarrow> pg \<Rightarrow> bool" where
  "delete_user_spec canon i p y p' \<longleftrightarrow> canon i \<noteq> None \<and>
     y = length (filter (\<lambda>u. Some (u_id u) = canon i) (users p)) \<and>
     p' = p\<lparr>users := filter (\<lambda>u. Some (u_id u) \<noteq> canon i) (users p),
            note_rows := filter (\<lambda>n. Some (n_user_id n) \<noteq> canon i) (note_rows p)\<rparr>"

text \<open>
  The order of a page: newest first, ties by descending id. A \<open>uuid\<close> is ordered by its bytes, which is
  the order of its canonical texts.
\<close>

definition note_key :: "note_row \<Rightarrow> int \<times> string" where
  "note_key n = (n_created_at n, n_id n)"

definition newest_first :: "note_row list \<Rightarrow> note_row list" where
  "newest_first ns = rev (sort_key note_key ns)"

definition notes_of :: "canon \<Rightarrow> string \<Rightarrow> pg \<Rightarrow> note_row list" where
  "notes_of canon i p = newest_first (filter (\<lambda>n. Some (n_user_id n) = canon i) (note_rows p))"

definition before_cursor :: "canon \<Rightarrow> (int \<times> string) option \<Rightarrow> note_row \<Rightarrow> bool" where
  "before_cursor canon cur n = (case cur of None \<Rightarrow> True
     | Some (ts, i) \<Rightarrow> (case canon i of None \<Rightarrow> False | Some c \<Rightarrow> note_key n < (ts, c)))"

definition note_head :: "note_row \<Rightarrow> string \<times> string \<times> int \<times> int" where
  "note_head n = (n_id n, n_title n, n_created_at n, n_updated_at n)"

definition notes_spec ::
  "canon \<Rightarrow> string \<Rightarrow> (int \<times> string) option \<Rightarrow> int \<Rightarrow> pg \<Rightarrow> (string \<times> string \<times> int \<times> int) list \<Rightarrow> pg \<Rightarrow> bool" where
  "notes_spec canon i cur limit p y p' \<longleftrightarrow> p' = p \<and> canon i \<noteq> None \<and> 0 \<le> limit \<and>
     y = map note_head (take (nat limit) (filter (before_cursor canon cur) (notes_of canon i p)))"

definition insert_note_spec ::
  "canon \<Rightarrow> string \<Rightarrow> string \<Rightarrow> string \<Rightarrow> pg \<Rightarrow> note_row \<Rightarrow> pg \<Rightarrow> bool" where
  "insert_note_spec canon u t b p y p' \<longleftrightarrow> canon u = Some (n_user_id y) \<and> n_title y = t \<and> n_body y = b \<and>
     n_user_id y \<in> u_id ` set (users p) \<and> n_id y \<notin> n_id ` set (note_rows p) \<and> canon (n_id y) = Some (n_id y) \<and>
     p' = p\<lparr>note_rows := note_rows p @ [y]\<rparr>"

definition owned :: "canon \<Rightarrow> string \<Rightarrow> string \<Rightarrow> note_row \<Rightarrow> bool" where
  "owned canon i u n \<longleftrightarrow> Some (n_id n) = canon i \<and> Some (n_user_id n) = canon u"

definition note_spec :: "canon \<Rightarrow> string \<Rightarrow> string \<Rightarrow> pg \<Rightarrow> note_row option \<Rightarrow> pg \<Rightarrow> bool" where
  "note_spec canon i u p y p' \<longleftrightarrow> p' = p \<and> canon i \<noteq> None \<and> canon u \<noteq> None \<and>
     y = find (owned canon i u) (note_rows p)"

definition update_note_spec ::
  "canon \<Rightarrow> string \<Rightarrow> string \<Rightarrow> string \<Rightarrow> string \<Rightarrow> pg \<Rightarrow> note_row option \<Rightarrow> pg \<Rightarrow> bool" where
  "update_note_spec canon t b i u p y p' \<longleftrightarrow> canon i \<noteq> None \<and> canon u \<noteq> None \<and>
     (\<exists>now. let f = (\<lambda>n. n\<lparr>n_title := t, n_body := b, n_updated_at := now\<rparr>) in
        y = map_option f (find (owned canon i u) (note_rows p)) \<and>
        p' = p\<lparr>note_rows := map (\<lambda>n. if owned canon i u n then f n else n) (note_rows p)\<rparr>)"

definition delete_note_spec :: "canon \<Rightarrow> string \<Rightarrow> string \<Rightarrow> pg \<Rightarrow> nat \<Rightarrow> pg \<Rightarrow> bool" where
  "delete_note_spec canon i u p y p' \<longleftrightarrow> canon i \<noteq> None \<and> canon u \<noteq> None \<and>
     y = length (filter (owned canon i u) (note_rows p)) \<and>
     p' = p\<lparr>note_rows := filter (\<lambda>n. \<not> owned canon i u n) (note_rows p)\<rparr>"

text \<open>The constraints of the tables.\<close>

definition pg_ok :: "canon \<Rightarrow> pg \<Rightarrow> bool" where
  "pg_ok canon p \<longleftrightarrow> distinct (map u_email (users p)) \<and> distinct (map u_id (users p)) \<and>
     (\<forall>u \<in> set (users p). canon (u_id u) = Some (u_id u)) \<and>
     distinct (map n_id (note_rows p)) \<and> (\<forall>n \<in> set (note_rows p). canon (n_id n) = Some (n_id n)) \<and>
     (\<forall>n \<in> set (note_rows p). n_user_id n \<in> u_id ` set (users p))"

section \<open>The interface\<close>

definition runs_as :: "('d \<Rightarrow> pg) \<Rightarrow> (pg \<Rightarrow> 'a \<Rightarrow> pg \<Rightarrow> bool) \<Rightarrow> ('d, 'a) stmt \<Rightarrow> bool" where
  "runs_as pg_of spec c \<longleftrightarrow> (\<forall>d. case c d of
       (Inr y, d') \<Rightarrow> spec (pg_of d) y (pg_of d')
     | (Inl e, d') \<Rightarrow> pg_of d' = pg_of d \<or> (\<exists>y. spec (pg_of d) y (pg_of d')))"

locale postgres_service =
  fixes D :: "'d db_ops"
    and pg_of :: "'d \<Rightarrow> pg"
    and canon :: canon
  assumes one: "runs_as pg_of (\<lambda>p y p'. p' = p) (q_one D)"
    and user_id_by_email: "runs_as pg_of (user_id_by_email_spec e) (q_user_id_by_email D e)"
    and user_by_email: "runs_as pg_of (user_by_email_spec e) (q_user_by_email D e)"
    and user_by_id: "runs_as pg_of (user_by_id_spec canon i) (q_user_by_id D i)"
    and insert_user: "runs_as pg_of (insert_user_spec canon e n h) (q_insert_user D e n h)"
    and insert_conflict: "q_insert_user D e n h d = (Inl (SqlxDatabase True msg), d') \<Longrightarrow>
      e \<in> u_email ` set (users (pg_of d)) \<and> pg_of d' = pg_of d"
    and upsert_user: "runs_as pg_of (upsert_user_spec canon i e n prov) (q_upsert_user D i e n prov)"
    and update_password: "runs_as pg_of (update_password_spec canon h i) (q_update_password D h i)"
    and delete_notes_of: "runs_as pg_of (delete_notes_of_spec canon i) (q_delete_notes_of D i)"
    and delete_user: "runs_as pg_of (delete_user_spec canon i) (q_delete_user D i)"
    and notes_page: "runs_as pg_of (notes_spec canon i cur limit) (q_notes D i cur limit)"
    and insert_note: "runs_as pg_of (insert_note_spec canon u t b) (q_insert_note D u t b)"
    and note_by_id: "runs_as pg_of (note_spec canon i u) (q_note D i u)"
    and update_note: "runs_as pg_of (update_note_spec canon t b i u) (q_update_note D t b i u)"
    and delete_note: "runs_as pg_of (delete_note_spec canon i u) (q_delete_note D i u)"

lemma runs_as_Inr: "runs_as pg_of spec c \<Longrightarrow> c d = (Inr y, d') \<Longrightarrow> spec (pg_of d) y (pg_of d')"
  by (auto simp: runs_as_def dest: spec [of _ d])

lemma runs_as_same:
  "runs_as pg_of spec c \<Longrightarrow> (\<And>p y p'. spec p y p' \<Longrightarrow> p' = p) \<Longrightarrow> c d = (x, d') \<Longrightarrow> pg_of d' = pg_of d"
  unfolding runs_as_def by (drule spec [of _ d]) (auto split: sum.splits)

end
