(* ===== verification/Reference.thy ===== *)
theory Reference
  imports Postgres
begin

text \<open>
  One concrete environment that keeps the laws of the interfaces: the reference Redis server, a small
  operating system, a database held as its tables, and simple codecs. It models no code of the
  repository; the examples beside the properties run the handlers in it.
\<close>

section \<open>Texts\<close>

text \<open>A list of texts as one text, and back.\<close>

definition pack_field :: "string \<Rightarrow> string" where
  "pack_field x = concat (map (\<lambda>c. [CHR ''x'', c]) x) @ ''.''"

definition pack :: "string list \<Rightarrow> string" where
  "pack xs = concat (map pack_field xs)"

fun unpack :: "string \<Rightarrow> string \<Rightarrow> string list option" where
  "unpack acc [] = (if acc = [] then Some [] else None)"
| "unpack acc [c] = (if c = CHR ''.'' then Some [rev acc] else None)"
| "unpack acc (c # d # s) =
     (if c = CHR ''.'' then map_option ((#) (rev acc)) (unpack [] (d # s)) else unpack (d # acc) s)"

lemma unpack_field:
  "unpack acc (concat (map (\<lambda>c. [CHR ''x'', c]) x) @ CHR ''.'' # s) = map_option ((#) (rev acc @ x)) (unpack [] s)"
proof (induction x arbitrary: acc)
  case Nil
  then show ?case by (cases s) simp_all
qed simp

lemma unpack_pack [simp]: "unpack [] (pack xs) = Some xs"
  by (induction xs) (simp_all add: pack_def pack_field_def unpack_field)

definition pack_option :: "string option \<Rightarrow> string" where
  "pack_option x = (case x of None \<Rightarrow> [] | Some s \<Rightarrow> CHR ''s'' # s)"

definition unpack_option :: "string \<Rightarrow> string option" where
  "unpack_option s = (case s of [] \<Rightarrow> None | _ # r \<Rightarrow> Some r)"

lemma unpack_pack_option [simp]: "unpack_option (pack_option x) = x"
  by (cases x) (simp_all add: pack_option_def unpack_option_def)

lemma pack_not_Nil [simp]: "pack (x # xs) \<noteq> []"
  by (simp add: pack_def pack_field_def)

section \<open>Codecs\<close>

definition ref_str_codec :: "string codec" where
  "ref_str_codec = \<lparr>enc = (\<lambda>s. Inr (CHR ''q'' # s)),
     dec = (\<lambda>j. case j of c # s \<Rightarrow> if c = CHR ''q'' then Inr s else Inl ''expected a string''
                      | [] \<Rightarrow> Inl ''unexpected end'')\<rparr>"

definition ref_bool_codec :: "bool codec" where
  "ref_bool_codec = \<lparr>enc = (\<lambda>b. Inr (if b then ''true'' else ''false'')),
     dec = (\<lambda>j. case parse_bool j of None \<Rightarrow> Inl ''expected a boolean'' | Some b \<Rightarrow> Inr b)\<rparr>"

definition enc_session :: "session \<Rightarrow> string" where
  "enc_session s = pack [user_id s, email s, pack_option (sname s), provider s, show_u64 (created_at s)]"

definition dec_session :: "string \<Rightarrow> string + session" where
  "dec_session j = (case unpack [] j of
       Some [u, e, n, p, c] \<Rightarrow>
         (case parse_u64 c of
            Some t \<Rightarrow> Inr \<lparr>user_id = u, email = e, sname = unpack_option n, provider = p, created_at = t\<rparr>
          | None \<Rightarrow> Inl ''expected a number'')
     | _ \<Rightarrow> Inl ''expected a session'')"

definition ref_session_codec :: "session codec" where
  "ref_session_codec = \<lparr>enc = (\<lambda>s. Inr (enc_session s)), dec = dec_session\<rparr>"

lemma ref_codecs_ok [simp]:
  "codec_ok ref_str_codec" "codec_ok ref_bool_codec" "codec_ok ref_session_codec"
  by (simp_all add: codec_ok_def ref_str_codec_def ref_bool_codec_def ref_session_codec_def parse_bool_def
      enc_session_def dec_session_def)

definition ref_cjson_user_id :: "string \<Rightarrow> string + string option" where
  "ref_cjson_user_id j = Inr (case dec_session j of Inr s \<Rightarrow> Some (user_id s) | Inl _ \<Rightarrow> None)"

definition ref_show_json :: "json \<Rightarrow> string" where
  "ref_show_json j = (case j of
       JObj kvs \<Rightarrow> pack (concat (map (\<lambda>(k, v). [k, pack_option (json_str v)]) kvs))
     | _ \<Rightarrow> [])"

fun pairs_of :: "string list \<Rightarrow> (string \<times> json) list" where
  "pairs_of (k # v # r) = (k, case unpack_option v of None \<Rightarrow> JNull | Some s \<Rightarrow> JStr s) # pairs_of r"
| "pairs_of _ = []"

definition ref_parse_json :: "string \<Rightarrow> json option" where
  "ref_parse_json s = map_option (\<lambda>xs. JObj (pairs_of xs)) (unpack [] s)"

definition ref_jwt_encode :: "string \<Rightarrow> claims \<Rightarrow> string + string" where
  "ref_jwt_encode secret c = Inr (pack [secret, sub c, cemail c, pack_option (cname c), cprovider c,
     show_u64 (exp_at c), show_u64 (iat c), iss c, jti c])"

definition ref_jwt_decode :: "string \<Rightarrow> string \<Rightarrow> int \<Rightarrow> string \<Rightarrow> jwt_error + claims" where
  "ref_jwt_decode secret issuer now token = (case unpack [] token of
       Some [k, s, e, n, p, x, t, i, j] \<Rightarrow>
         (if k \<noteq> secret \<or> i \<noteq> issuer then Inl (OtherJwtError ''InvalidToken'')
          else case (parse_u64 x, parse_u64 t) of
            (Some x, Some t) \<Rightarrow>
              if uint x + 60 < now div 1000 then Inl ExpiredSignature
              else Inr \<lparr>sub = s, cemail = e, cname = unpack_option n, cprovider = p, exp_at = x, iat = t,
                        iss = i, jti = j\<rparr>
          | _ \<Rightarrow> Inl (OtherJwtError ''InvalidToken''))
     | _ \<Rightarrow> Inl (OtherJwtError ''InvalidToken''))"

definition ref_lib :: lib where
  "ref_lib = \<lparr>str_codec = ref_str_codec, bool_codec = ref_bool_codec, session_codec = ref_session_codec,
     cjson_user_id = ref_cjson_user_id,
     fred_i64 = (\<lambda>s. case parse_signed 64 s of None \<Rightarrow> Inl ''not an integer'' | Some i \<Rightarrow> Inr i),
     fred_u64 = (\<lambda>i. if i < 0 then Inl ''negative'' else Inr (nat i)),
     fred_io_error = id, parse_json = ref_parse_json, show_json = ref_show_json,
     jwt_encode = ref_jwt_encode, jwt_decode = ref_jwt_decode,
     jwt_error_text = (\<lambda>_. ''InvalidToken''),
     argon2_parse = (\<lambda>h. if starts_with h ''h:'' then Inr () else Inl ''not a hash''),
     argon2_matches = (\<lambda>p h. h = ''h:'' @ p),
     hmac_sha256 = (\<lambda>k m. Inr (map (\<lambda>c. of_char c) (pack [k, m]))),
     header_value_error = (\<lambda>_. None), header_is_text = (\<lambda>_. True),
     base64_encode = id, base64_decode = Some, is_uuid = (\<lambda>_. True),
     micros_ok = (\<lambda>_. True), sqlx_text = (\<lambda>_. ''database error'')\<rparr>"

section \<open>An operating system\<close>

text \<open>The clock, the number of hexadecimal texts drawn, and the texts produced so far.\<close>

record osstate =
  oclock :: nat
  otexts :: "string list"

definition fresh_text :: "string list \<Rightarrow> string" where
  "fresh_text xs = replicate (Suc (sum_list (map length xs))) (CHR ''u'')"

lemma fresh_text: "fresh_text xs \<notin> set xs"
proof
  assume "fresh_text xs \<in> set xs"
  then have "length (fresh_text xs) \<le> sum_list (map length xs)"
    by (intro member_le_sum_list) auto
  then show False by (simp add: fresh_text_def)
qed

definition ref_uuid :: "osstate \<Rightarrow> string \<times> osstate" where
  "ref_uuid s = (fresh_text (otexts s), s\<lparr>otexts := fresh_text (otexts s) # otexts s\<rparr>)"

definition ref_random :: "nat \<Rightarrow> osstate \<Rightarrow> (string + u8 list) \<times> osstate" where
  "ref_random n s =
     (let k = length (otexts s); bs = replicate (min k n) 1 @ replicate (n - k) 0 in
      if hex_encode bs \<in> set (otexts s) then (Inl ''exhausted'', s)
      else (Inr bs, s\<lparr>otexts := hex_encode bs # otexts s\<rparr>))"

definition ref_os :: "osstate os_ops" where
  "ref_os = \<lparr>os_now = (\<lambda>s. (1000000000000 + int (oclock s), s)),
     os_instant = (\<lambda>s. (oclock s, s)),
     os_uuid = ref_uuid, os_random = ref_random,
     os_argon2 = (\<lambda>p s. (Inr (''h:'' @ p), s)),
     os_join = (\<lambda>s. (None, s)), os_pick = (\<lambda>s. (True, s))\<rparr>"

interpretation ref_os: os_service ref_os "\<lambda>s x. x \<in> set (otexts s)"
  by unfold_locales
    (auto simp: ref_os_def keeps_issued_def ref_uuid_def ref_random_def Let_def fresh_text split: if_splits)

section \<open>A database\<close>

text \<open>Every text is its own UUID; statements that need a new identifier take a fresh text.\<close>

definition ref_insert_user :: "string \<Rightarrow> string option \<Rightarrow> string \<Rightarrow> (pg, string) stmt" where
  "ref_insert_user e n h p =
     (if e \<in> u_email ` set (users p) then (Inl (SqlxDatabase True ''duplicate key''), p)
      else let y = fresh_text (map u_id (users p)) in
        (Inr y, p\<lparr>users := users p @ [\<lparr>u_id = y, u_email = e, u_name = n, u_provider = ''local'',
                                          u_password_hash = Some h\<rparr>]\<rparr>))"

definition ref_upsert_user :: "string \<Rightarrow> string \<Rightarrow> string option \<Rightarrow> string \<Rightarrow> (pg, string) stmt" where
  "ref_upsert_user i e n prov p = (case find (\<lambda>u. u_email u = e) (users p) of
       Some u \<Rightarrow> (Inr (u_id u),
         p\<lparr>users := map (\<lambda>v. if u_email v = e then v\<lparr>u_name := n\<rparr> else v) (users p)\<rparr>)
     | None \<Rightarrow> if i \<in> u_id ` set (users p) then (Inl (SqlxDatabase True ''duplicate key''), p)
         else (Inr i, p\<lparr>users := users p @ [\<lparr>u_id = i, u_email = e, u_name = n, u_provider = prov,
                                               u_password_hash = None\<rparr>]\<rparr>))"

definition ref_insert_note :: "string \<Rightarrow> string \<Rightarrow> string \<Rightarrow> (pg, note_row) stmt" where
  "ref_insert_note u t b p =
     (if u \<notin> u_id ` set (users p) then (Inl (SqlxDatabase False ''foreign key''), p)
      else let y = \<lparr>n_id = fresh_text (map n_id (note_rows p)), n_user_id = u, n_title = t, n_body = b,
                    n_created_at = int (length (note_rows p)), n_updated_at = int (length (note_rows p))\<rparr> in
        (Inr y, p\<lparr>note_rows := note_rows p @ [y]\<rparr>))"

definition ref_db :: "pg db_ops" where
  "ref_db = \<lparr>q_one = (\<lambda>p. (Inr (), p)),
     q_user_id_by_email = (\<lambda>e p. (Inr (map_option u_id (find (\<lambda>u. u_email u = e) (users p))), p)),
     q_user_by_email = (\<lambda>e p. (Inr (find (\<lambda>u. u_email u = e) (users p)), p)),
     q_user_by_id = (\<lambda>i p. (Inr (find (\<lambda>u. Some (u_id u) = Some i) (users p)), p)),
     q_insert_user = ref_insert_user, q_upsert_user = ref_upsert_user,
     q_update_password = (\<lambda>h i p. (Inr (length (filter (resettable Some i) (users p))),
       p\<lparr>users := map (\<lambda>u. if resettable Some i u then u\<lparr>u_password_hash := Some h\<rparr> else u) (users p)\<rparr>)),
     q_delete_notes_of = (\<lambda>i p. (Inr (length (filter (\<lambda>n. Some (n_user_id n) = Some i) (note_rows p))),
       p\<lparr>note_rows := filter (\<lambda>n. Some (n_user_id n) \<noteq> Some i) (note_rows p)\<rparr>)),
     q_delete_user = (\<lambda>i p. (Inr (length (filter (\<lambda>u. Some (u_id u) = Some i) (users p))),
       p\<lparr>users := filter (\<lambda>u. Some (u_id u) \<noteq> Some i) (users p),
         note_rows := filter (\<lambda>n. Some (n_user_id n) \<noteq> Some i) (note_rows p)\<rparr>)),
     q_notes = (\<lambda>i cur limit p. if limit < 0 then (Inl (SqlxOther ''LIMIT must not be negative''), p)
       else (Inr (map note_head (take (nat limit) (filter (before_cursor Some cur) (notes_of Some i p)))), p)),
     q_insert_note = ref_insert_note,
     q_note = (\<lambda>i u p. (Inr (find (owned Some i u) (note_rows p)), p)),
     q_update_note = (\<lambda>t b i u p.
       (let f = (\<lambda>n. n\<lparr>n_title := t, n_body := b, n_updated_at := 0\<rparr>) in
        (Inr (map_option f (find (owned Some i u) (note_rows p))),
         p\<lparr>note_rows := map (\<lambda>n. if owned Some i u n then f n else n) (note_rows p)\<rparr>))),
     q_delete_note = (\<lambda>i u p. (Inr (length (filter (owned Some i u) (note_rows p))),
       p\<lparr>note_rows := filter (\<lambda>n. \<not> owned Some i u n) (note_rows p)\<rparr>))\<rparr>"

lemma fresh_text_map: "x \<in> set xs \<Longrightarrow> fresh_text (map f xs) \<noteq> f x"
  using fresh_text [of "map f xs"] by auto

interpretation ref_db: postgres_service ref_db "\<lambda>p. p" Some
  by unfold_locales
    (auto simp: ref_db_def runs_as_def Let_def ref_insert_user_def ref_upsert_user_def ref_insert_note_def
      user_id_by_email_spec_def user_by_email_spec_def user_by_id_spec_def insert_user_spec_def
      upsert_user_spec_def update_password_spec_def delete_notes_of_spec_def delete_user_spec_def
      notes_spec_def insert_note_spec_def note_spec_def update_note_spec_def delete_note_spec_def
      image_iff
      dest: fresh_text_map split: option.split if_splits)

section \<open>The environment\<close>

definition ref_env :: "nat \<Rightarrow> (string \<Rightarrow> string option) \<Rightarrow> (rdb, pg, osstate) env" where
  "ref_env dt vars = \<lparr>e_redis = ref_redis dt, e_db = ref_db, e_os = ref_os, e_lib = ref_lib,
     e_prefix = ''app'', e_vars = vars\<rparr>"

definition ref_world :: "rdb \<Rightarrow> pg \<Rightarrow> (rdb, pg, osstate) world" where
  "ref_world r p = \<lparr>redis = r, db = p, outside = \<lparr>oclock = 0, otexts = []\<rparr>,
     session_cache = None, blacklist_cache = None, active_ws = 0, ws_permits = 10, ws_users = [],
     db_health = None, redis_health = None, py_health = None, pubsub = None\<rparr>"

definition empty_rdb :: rdb where
  "empty_rdb = \<lparr>rclock = 1000000000000, keys = Map.empty\<rparr>"

lemma empty_rdb_sel [simp]: "rclock empty_rdb = 1000000000000" "keys empty_rdb = Map.empty"
  by (simp_all add: empty_rdb_def)

lemmas ref_defs = ref_env_def ref_world_def empty_rdb_def ref_os_def ref_lib_def ref_db_def

lemma ref_env_sel [simp]:
  "e_redis (ref_env dt vars) = ref_redis dt" "e_db (ref_env dt vars) = ref_db"
  "e_os (ref_env dt vars) = ref_os" "e_lib (ref_env dt vars) = ref_lib"
  "e_prefix (ref_env dt vars) = ''app''" "e_vars (ref_env dt vars) = vars"
  by (simp_all add: ref_env_def)

text \<open>The operations of this environment, one by one.\<close>

lemma ref_sel:
  "os_now ref_os = (\<lambda>s. (1000000000000 + int (oclock s), s))" "os_instant ref_os = (\<lambda>s. (oclock s, s))"
  "os_uuid ref_os = ref_uuid" "os_random ref_os = ref_random"
  "os_argon2 ref_os = (\<lambda>p s. (Inr (''h:'' @ p), s))" "os_join ref_os = (\<lambda>s. (None, s))"
  "os_pick ref_os = (\<lambda>s. (True, s))"
  "str_codec ref_lib = ref_str_codec" "bool_codec ref_lib = ref_bool_codec"
  "session_codec ref_lib = ref_session_codec" "cjson_user_id ref_lib = ref_cjson_user_id"
  "parse_json ref_lib = ref_parse_json" "show_json ref_lib = ref_show_json"
  "jwt_encode ref_lib = ref_jwt_encode" "jwt_decode ref_lib = ref_jwt_decode"
  "argon2_parse ref_lib = (\<lambda>h. if starts_with h ''h:'' then Inr () else Inl ''not a hash'')"
  "argon2_matches ref_lib = (\<lambda>p h. h = ''h:'' @ p)"
  "header_value_error ref_lib = (\<lambda>_. None)" "header_is_text ref_lib = (\<lambda>_. True)"
  "base64_encode ref_lib = id" "base64_decode ref_lib = Some"
  "is_uuid ref_lib = (\<lambda>_. True)" "micros_ok ref_lib = (\<lambda>_. True)" "sqlx_text ref_lib = (\<lambda>_. ''database error'')"
  by (simp_all add: ref_os_def ref_lib_def)

lemma ref_db_sel:
  "q_user_id_by_email ref_db e p = (Inr (map_option u_id (find (\<lambda>u. u_email u = e) (users p))), p)"
  "q_user_by_email ref_db e p = (Inr (find (\<lambda>u. u_email u = e) (users p)), p)"
  "q_user_by_id ref_db i p = (Inr (find (\<lambda>u. u_id u = i) (users p)), p)"
  "q_insert_user ref_db = ref_insert_user" "q_upsert_user ref_db = ref_upsert_user"
  "q_update_password ref_db h i p = (Inr (length (filter (resettable Some i) (users p))),
     p\<lparr>users := map (\<lambda>u. if resettable Some i u then u\<lparr>u_password_hash := Some h\<rparr> else u) (users p)\<rparr>)"
  "q_delete_notes_of ref_db i p = (Inr (length (filter (\<lambda>n. n_user_id n = i) (note_rows p))),
     p\<lparr>note_rows := filter (\<lambda>n. n_user_id n \<noteq> i) (note_rows p)\<rparr>)"
  "q_delete_user ref_db i p = (Inr (length (filter (\<lambda>u. u_id u = i) (users p))),
     p\<lparr>users := filter (\<lambda>u. u_id u \<noteq> i) (users p), note_rows := filter (\<lambda>n. n_user_id n \<noteq> i) (note_rows p)\<rparr>)"
  by (simp_all add: ref_db_def)

lemma ref_world_sel:
  "redis (ref_world r p) = r" "db (ref_world r p) = p" "outside (ref_world r p) = \<lparr>oclock = 0, otexts = []\<rparr>"
  "session_cache (ref_world r p) = None" "blacklist_cache (ref_world r p) = None"
  by (simp_all add: ref_world_def)

end
