(* ===== verification/Cache_Store.thy ===== *)
theory Cache_Store
  imports Reference
begin

text \<open>
  The key-value operations of the cache crate (\<open>backend/cache/src/lib.rs\<close> and \<open>cache.rs\<close>): the key
  layout, reading and writing a value with a time to live, and the two ways a single-use token is
  taken out of the store.
\<close>

section \<open>Operations\<close>

definition make_key :: "('r, 'd, 'o) env \<Rightarrow> string \<Rightarrow> string \<Rightarrow> string" where
  "make_key E namespace key = e_prefix E @ '':'' @ namespace @ '':'' @ key"

definition ping :: "('r, 'd, 'o) env \<Rightarrow> ('r, 'd, 'o, unit) cached" where
  "ping E = redis_act E (r_ping (e_redis E))"

text \<open>What a read of the store makes of the stored text.\<close>

definition decode_stored :: "'v codec \<Rightarrow> string option \<Rightarrow> cache_error + 'v option" where
  "decode_stored c result = (case result of
       Some j \<Rightarrow> (case dec c j of Inl e \<Rightarrow> Inl (SerializationFailed e) | Inr v \<Rightarrow> Inr (Some v))
     | None \<Rightarrow> Inr None)"

definition cache_get :: "('r, 'd, 'o) env \<Rightarrow> 'v codec \<Rightarrow> string \<Rightarrow> string \<Rightarrow> ('r, 'd, 'o, 'v option) cached" where
  "cache_get E c namespace key =
     (let full_key = make_key E namespace key in
      attempt (redis_act E (r_get (e_redis E) full_key)) (\<lambda>result.
        Ret (decode_stored c result)))"

text \<open>\<open>ttl\<close> is \<open>Duration::as_secs\<close>; the cast \<open>as i64\<close> is \<open>sint\<close>.\<close>

definition cache_set ::
  "('r, 'd, 'o) env \<Rightarrow> 'v codec \<Rightarrow> string \<Rightarrow> string \<Rightarrow> 'v \<Rightarrow> u64 \<Rightarrow> ('r, 'd, 'o, unit) cached" where
  "cache_set E c namespace key v ttl =
     (let full_key = make_key E namespace key in
      attempt (Ret (map_err SerializationFailed (enc c v))) (\<lambda>j.
        redis_act E (r_set_ex (e_redis E) full_key j (sint ttl))))"

definition cache_delete :: "('r, 'd, 'o) env \<Rightarrow> string \<Rightarrow> string \<Rightarrow> ('r, 'd, 'o, unit) cached" where
  "cache_delete E namespace key =
     (let full_key = make_key E namespace key in redis_act E (r_del (e_redis E) [full_key]))"

definition cache_get_delete ::
  "('r, 'd, 'o) env \<Rightarrow> 'v codec \<Rightarrow> string \<Rightarrow> string \<Rightarrow> ('r, 'd, 'o, 'v option) cached" where
  "cache_get_delete E c namespace key =
     (let full_key = make_key E namespace key in
      attempt (redis_act E (r_getdel (e_redis E) full_key)) (\<lambda>result.
        Ret (decode_stored c result)))"

text \<open>The Lua script of \<open>refresh_token_rotate\<close>, and the method.\<close>

definition rotate_script :: "'r redis_ops \<Rightarrow> string \<Rightarrow> ('r, string) cmd" where
  "rotate_script R key = cbind (r_get R key) (\<lambda>val. case val of
       Some v \<Rightarrow> cbind (r_del R [key]) (\<lambda>_. cret v)
     | None \<Rightarrow> cret '''')"

definition refresh_token_rotate :: "('r, 'd, 'o) env \<Rightarrow> string \<Rightarrow> ('r, 'd, 'o, string option) cached" where
  "refresh_token_rotate E token =
     (let full_key = make_key E ''refresh'' token in
      attempt (redis_act E (rotate_script (e_redis E) full_key)) (\<lambda>result. Ret
        (if result = [] then Inr None
         else case dec (str_codec (e_lib E)) result of
           Inl e \<Rightarrow> Inl (SerializationFailed e) | Inr v \<Rightarrow> Inr (Some v))))"

section \<open>Keys\<close>

text \<open>
  Keys of different namespaces, or of different names in one namespace, never collide, provided no
  namespace holds a colon.
\<close>

lemma make_key_inject:
  assumes "CHR '':'' \<notin> set ns" and "CHR '':'' \<notin> set ns'"
  shows "make_key E ns k = make_key E ns' k' \<longleftrightarrow> ns = ns' \<and> k = k'"
proof
  assume "make_key E ns k = make_key E ns' k'"
  then have "ns @ CHR '':'' # k = ns' @ CHR '':'' # k'" by (simp add: make_key_def)
  then have "split_once CHR '':'' (ns @ CHR '':'' # k) = split_once CHR '':'' (ns' @ CHR '':'' # k')"
    by simp
  with assms show "ns = ns' \<and> k = k'" by (simp add: split_once_append)
qed simp

section \<open>Frames\<close>

lemma cache_frame [frame]:
  "keeps db (cache_get E c ns k)" "keeps session_cache (cache_get E c ns k)"
  "keeps blacklist_cache (cache_get E c ns k)"
  "keeps db (cache_set E c ns k v ttl)" "keeps session_cache (cache_set E c ns k v ttl)"
  "keeps blacklist_cache (cache_set E c ns k v ttl)"
  "keeps db (cache_delete E ns k)" "keeps session_cache (cache_delete E ns k)"
  "keeps db (cache_get_delete E c ns k)" "keeps session_cache (cache_get_delete E c ns k)"
  "keeps db (refresh_token_rotate E t)" "keeps session_cache (refresh_token_rotate E t)"
  unfolding cache_get_def cache_set_def cache_delete_def cache_get_delete_def refresh_token_rotate_def
    Let_def
  by (intro keeps_attempt keeps_Ret frame)+

section \<open>The store as the server sees it\<close>

text \<open>An environment whose Redis server keeps the laws.\<close>

locale redis_env = redis_service "e_redis E" db_of
  for E :: "('r, 'd, 'o) env" and db_of :: "'r \<Rightarrow> rdb"

definition rdb_of :: "('r \<Rightarrow> rdb) \<Rightarrow> ('r, 'd, 'o) world \<Rightarrow> rdb" where
  "rdb_of db_of w = db_of (redis w)"

lemma rdb_of_update [simp]:
  "rdb_of f (w\<lparr>redis := r\<rparr>) = f r" "rdb_of f (w\<lparr>db := d\<rparr>) = rdb_of f w"
  "rdb_of f (w\<lparr>outside := o'\<rparr>) = rdb_of f w" "rdb_of f (w\<lparr>session_cache := s\<rparr>) = rdb_of f w"
  "rdb_of f (w\<lparr>blacklist_cache := b\<rparr>) = rdb_of f w"
  by (simp_all add: rdb_of_def)

lemma rotate_sim_ref:
  "rotate_script (ref_redis 0) key d =
     (case keys d key of
        None \<Rightarrow> (Inr [], d)
      | Some (RStr v, _) \<Rightarrow> (Inr v, drop_keys [key] d)
      | Some _ \<Rightarrow> (Inl wrong_type, d))"
  by (auto simp: rotate_script_def cbind_def cret_def ref_redis_def ref_get_def ref_del_def
      split: option.split rdata.split)

context redis_env
begin

lemma redis_act_run:
  assumes "simulates db_of c c'" and "run (redis_act E c) w = (x, w')"
  obtains y where "x = map_err CommandFailed y" and "wire_step (rdb_of db_of w) c' y (rdb_of db_of w')"
    and "w' = w\<lparr>redis := redis w'\<rparr>"
proof -
  obtain y r where y: "redis_send (e_redis E) c (redis w) = (y, r)"
    by (cases "redis_send (e_redis E) c (redis w)")
  with assms(2) have "x = map_err CommandFailed y" and w': "w' = w\<lparr>redis := r\<rparr>"
    by (simp_all add: run_redis_act)
  moreover have "wire_step (db_of (redis w)) c' y (db_of r)" by (rule send_sim [OF assms(1) y])
  ultimately show thesis using that by (simp add: rdb_of_def)
qed

text \<open>A request that was answered: it ran, after some time, on the server's state.\<close>

lemma redis_act_Inr:
  assumes "simulates db_of c c'" and "run (redis_act E c) w = (Inr a, w')"
  obtains dt where "c' (elapse dt (rdb_of db_of w)) = (Inr a, rdb_of db_of w')"
proof -
  obtain y where "Inr a = map_err CommandFailed y" "wire_step (rdb_of db_of w) c' y (rdb_of db_of w')"
    by (rule redis_act_run [OF assms])
  then show thesis using that by (metis map_err_eq_Inr wire_step_Inr)
qed

lemma rotate_sim: "simulates db_of (rotate_script (e_redis E) k) (rotate_script (ref_redis 0) k)"
  unfolding rotate_script_def
  by (auto intro!: simulates_cbind simulates_cret get del simp: ref_redis_def split: option.split)

lemma cache_get_run:
  assumes "run (cache_get E c ns k) w = (Inr r, w')"
  obtains dt s where "ref_get (make_key E ns k) (elapse dt (rdb_of db_of w)) = (Inr s, rdb_of db_of w')"
    and "decode_stored c s = Inr r"
proof -
  let ?k = "make_key E ns k"
  obtain x w1 where a: "run (redis_act E (r_get (e_redis E) ?k)) w = (x, w1)"
    by (cases "run (redis_act E (r_get (e_redis E) ?k)) w")
  with assms obtain s where x: "x = Inr s" and w': "w' = w1" and r: "decode_stored c s = Inr r"
    by (auto simp: cache_get_def Let_def run_attempt run_Ret split: sum.splits)
  obtain dt where "ref_get ?k (elapse dt (rdb_of db_of w)) = (Inr s, rdb_of db_of w1)"
    by (rule redis_act_Inr [OF get a [unfolded x]])
  with r w' show thesis by (intro that [of dt s]) simp_all
qed

lemma cache_set_run:
  assumes "run (cache_set E c ns k v ttl) w = (Inr (), w')"
  obtains dt j where "enc c v = Inr j" and "0 < sint ttl"
    and "rdb_of db_of w' = put (make_key E ns k)
           (RStr j, Some (rclock (rdb_of db_of w) + dt + 1000 * nat (sint ttl)))
           (elapse dt (rdb_of db_of w))"
proof -
  let ?k = "make_key E ns k"
  from assms obtain j where j: "enc c v = Inr j"
      and a: "run (redis_act E (r_set_ex (e_redis E) ?k j (sint ttl))) w = (Inr (), w')"
    by (auto simp: cache_set_def Let_def run_attempt run_Ret split: sum.splits)
  obtain dt where g: "ref_set_ex ?k j (sint ttl) (elapse dt (rdb_of db_of w)) = (Inr (), rdb_of db_of w')"
    by (rule redis_act_Inr [OF set_ex a])
  then show thesis
    by (intro that [OF j, of dt]) (auto simp: ref_set_ex_def split: if_splits)
qed

end

interpretation ref_env: redis_env "ref_env dt vars" "\<lambda>db. db"
  by (simp add: redis_env_def ref.redis_service_axioms)

section \<open>Single-use tokens\<close>

text \<open>
  The interface of a store of single-use tokens, for one token: \<open>take\<close> gets its value out at most once,
  however requests interleave. \<open>good\<close> is an invariant of the world under which this holds.
\<close>

locale token_store =
  fixes good :: "'w \<Rightarrow> bool"
    and present :: "'w \<Rightarrow> bool"
    and take :: "('w, 'e + 'v option) prog"
  assumes take: "consumes good present (\<lambda>b r. (\<exists>v. r = Inr (Some v)) \<longrightarrow> b) False take"
begin

text \<open>A handler that goes on only with a value it took, and then leaves the token alone.\<close>

lemma client:
  assumes "\<And>v b. ignores good present (\<lambda>_. True) b (k v)"
  shows "consumes good present (\<lambda>b r. (\<exists>a. r = Inr a) \<longrightarrow> b) False
           (attempt (lift_err f take) (\<lambda>r. case r of None \<Rightarrow> Ret (Inl e) | Some v \<Rightarrow> k v))"
proof (rule consumes_attempt)
  show "consumes good present (\<lambda>b r. (\<exists>v. r = Inr (Some v)) \<longrightarrow> b) False (lift_err f take)"
    unfolding lift_err_def
    by (rule consumes_map_result) (rule consumes_mono [OF take], auto)
next
  fix b and r :: "'v option"
  assume b: "(\<exists>v. Inr r = Inr (Some v)) \<longrightarrow> b"
  show "consumes good present (\<lambda>b r. (\<exists>a. r = Inr a) \<longrightarrow> b) b
          (case r of None \<Rightarrow> Ret (Inl e) | Some v \<Rightarrow> k v)"
    using b by (cases r) (auto intro: consumes.Ret consumes_mono [OF assms])
qed auto

lemma single_use:
  assumes "pool_reaches F (w, ps) (w', ps')" and "good w"
    and "\<And>p. p \<in> set ps \<Longrightarrow> consumes good present (\<lambda>b r. (\<exists>a. r = Inr a) \<longrightarrow> b) False p"
    and "\<And>w w'. F w w' \<Longrightarrow> good w \<Longrightarrow> good w' \<and> (present w' \<longrightarrow> present w)"
    and "i < length ps'" "ps' ! i = Ret (Inr x)"
    and "j < length ps'" "ps' ! j = Ret (Inr y)"
  shows "i = j"
  by (rule at_most_one_taker [where won = "\<lambda>r. \<exists>a. r = Inr a", OF assms(1,2,3,4) _ assms(5,6) _ assms(7,8)])
    auto

end

text \<open>\<open>present\<close> for a key of the store.\<close>

definition key_present :: "('r \<Rightarrow> rdb) \<Rightarrow> string \<Rightarrow> ('r, 'd, 'o) world \<Rightarrow> bool" where
  "key_present db_of k w \<longleftrightarrow> keys (rdb_of db_of w) k \<noteq> None"

lemma key_present_update [simp]:
  "key_present f k (w\<lparr>db := d\<rparr>) = key_present f k w"
  "key_present f k (w\<lparr>outside := o'\<rparr>) = key_present f k w"
  "key_present f k (w\<lparr>session_cache := s\<rparr>) = key_present f k w"
  by (simp_all add: key_present_def)

text \<open>An invariant of the world that does not look at the Redis server.\<close>

definition redis_stable :: "(('r, 'd, 'o) world \<Rightarrow> bool) \<Rightarrow> bool" where
  "redis_stable good \<longleftrightarrow> (\<forall>w r. good w \<longrightarrow> good (w\<lparr>redis := r\<rparr>))"

lemma redis_stable_True [simp]: "redis_stable (\<lambda>_. True)"
  by (simp add: redis_stable_def)

lemma wire_no_new:
  assumes "wire_step (rdb_of f w) c y (rdb_of f w')"
    and "\<And>d x d'. c d = (x, d') \<Longrightarrow> keys d k = None \<Longrightarrow> keys d' k = None"
  shows "key_present f k w' \<longrightarrow> key_present f k w"
proof -
  have "keys (rdb_of f w) k = None \<Longrightarrow> keys (rdb_of f w') k = None"
    using assms(1)
    by (rule wire_step_cases) (metis assms(2) elapse_None)+
  then show ?thesis by (cases "keys (rdb_of f w) k") (simp_all add: key_present_def)
qed

context redis_env
begin

text \<open>
  A script that brings no key \<open>k\<close> into being, or that gives its value only while it deletes it, is a
  step of the corresponding kind, whatever the wire does.
\<close>

lemma consumes_redis_act:
  assumes sim: "simulates db_of c c'" and good: "redis_stable good"
    and no_new: "\<And>d x d'. c' d = (x, d') \<Longrightarrow> keys d k = None \<Longrightarrow> keys d' k = None"
    and took: "\<And>d a d'. c' d = (Inr a, d') \<Longrightarrow> won a \<Longrightarrow> keys d k \<noteq> None \<and> keys d' k = None"
  shows "consumes good (key_present db_of k) (\<lambda>b r. (\<exists>a. r = Inr a \<and> won a) \<longrightarrow> b) False
           (redis_act E c)"
  unfolding redis_act_def
proof (rule consumes_act)
  fix w x w'
  assume g: "good w"
  assume "(case redis_send (e_redis E) c (redis w) of (x, r) \<Rightarrow> (map_err CommandFailed x, w\<lparr>redis := r\<rparr>))
    = (x, w')"
  then have r: "run (redis_act E c) w = (x, w')" by (simp add: run_redis_act)
  obtain y where x: "x = map_err CommandFailed y" and wire: "wire_step (rdb_of db_of w) c' y (rdb_of db_of w')"
    and w': "w' = w\<lparr>redis := redis w'\<rparr>"
    by (rule redis_act_run [OF sim r])
  have "good w'" using good g w' unfolding redis_stable_def by metis
  moreover have "key_present db_of k w' \<longrightarrow> key_present db_of k w"
    by (rule wire_no_new [OF wire no_new])
  moreover have "key_present db_of k w \<and> \<not> key_present db_of k w'" if y: "y = Inr a" and a: "won a" for a
  proof -
    obtain dt where "c' (elapse dt (rdb_of db_of w)) = (Inr a, rdb_of db_of w')"
      using wire_step_Inr [OF wire [unfolded y]] by blast
    from took [OF this a] show ?thesis
      unfolding key_present_def by (metis elapse_None)
  qed
  ultimately show "good w' \<and> (\<exists>b'. takes (key_present db_of k) False b' w w' \<and>
      ((\<exists>a. x = Inr a \<and> won a) \<longrightarrow> b'))"
    by (intro conjI exI [of _ "\<exists>a. x = Inr a \<and> won a"]) (auto simp: takes_def x)
qed

lemma ignores_redis_act:
  assumes sim: "simulates db_of c c'" and good: "redis_stable good"
    and no_new: "\<And>d x d'. c' d = (x, d') \<Longrightarrow> keys d k = None \<Longrightarrow> keys d' k = None"
  shows "ignores good (key_present db_of k) (\<lambda>_. True) b (redis_act E c)"
  unfolding redis_act_def
proof (rule ignores_act)
  fix w x w'
  assume g: "good w"
  assume "(case redis_send (e_redis E) c (redis w) of (x, r) \<Rightarrow> (map_err CommandFailed x, w\<lparr>redis := r\<rparr>))
    = (x, w')"
  then have r: "run (redis_act E c) w = (x, w')" by (simp add: run_redis_act)
  obtain y where wire: "wire_step (rdb_of db_of w) c' y (rdb_of db_of w')"
    and w': "w' = w\<lparr>redis := redis w'\<rparr>"
    by (rule redis_act_run [OF sim r])
  have "good w'" using good g w' unfolding redis_stable_def by metis
  moreover have "key_present db_of k w' \<longrightarrow> key_present db_of k w"
    by (rule wire_no_new [OF wire no_new])
  ultimately show "good w' \<and> (key_present db_of k w' \<longrightarrow> key_present db_of k w) \<and> True" by simp
qed

lemma rotate_takes:
  assumes good: "redis_stable good"
  shows "token_store good (key_present db_of (make_key E ''refresh'' t)) (refresh_token_rotate E t)"
proof
  show "consumes good (key_present db_of (make_key E ''refresh'' t))
      (\<lambda>b r. (\<exists>v. r = Inr (Some v)) \<longrightarrow> b) False (refresh_token_rotate E t)"
    unfolding refresh_token_rotate_def Let_def
  proof (rule consumes_attempt [where Q = "\<lambda>b r. (\<exists>a. r = Inr a \<and> a \<noteq> []) \<longrightarrow> b"])
    show "consumes good (key_present db_of (make_key E ''refresh'' t))
        (\<lambda>b r. (\<exists>a. r = Inr a \<and> a \<noteq> []) \<longrightarrow> b) False
        (redis_act E (rotate_script (e_redis E) (make_key E ''refresh'' t)))"
      by (rule consumes_redis_act [OF rotate_sim good])
        (auto simp: rotate_sim_ref split: option.splits rdata.splits if_splits)
  qed (auto intro!: consumes.Ret split: sum.splits)
qed

lemma get_delete_takes:
  assumes good: "redis_stable good"
  shows "token_store good (key_present db_of (make_key E ns k)) (cache_get_delete E c ns k)"
proof
  show "consumes good (key_present db_of (make_key E ns k))
      (\<lambda>b r. (\<exists>v. r = Inr (Some v)) \<longrightarrow> b) False (cache_get_delete E c ns k)"
    unfolding cache_get_delete_def Let_def
  proof (rule consumes_attempt [where Q = "\<lambda>b r. (\<exists>a. r = Inr a \<and> a \<noteq> None) \<longrightarrow> b"])
    show "consumes good (key_present db_of (make_key E ns k))
        (\<lambda>b r. (\<exists>a. r = Inr a \<and> a \<noteq> None) \<longrightarrow> b) False
        (redis_act E (r_getdel (e_redis E) (make_key E ns k)))"
      by (rule consumes_redis_act [OF getdel good])
        (auto simp: ref_getdel_def split: option.splits rdata.splits if_splits)
  qed (auto intro!: consumes.Ret simp: decode_stored_def split: sum.splits option.splits)
qed

sublocale rotate: token_store "\<lambda>_. True" "key_present db_of (make_key E ''refresh'' t)"
  "refresh_token_rotate E t" for t
  by (rule rotate_takes) simp

sublocale getdel: token_store "\<lambda>_. True" "key_present db_of (make_key E ns k)"
  "cache_get_delete E c ns k" for c ns k
  by (rule get_delete_takes) simp

lemma cache_set_ignores:
  assumes good: "redis_stable good" and k: "make_key E ns k' \<noteq> k"
  shows "ignores good (key_present db_of k) (\<lambda>_. True) b (cache_set E c ns k' v ttl)"
  unfolding cache_set_def Let_def
proof (rule ignores_attempt [where P = "\<lambda>_. True", OF ignores_Ret])
  show "ignores good (key_present db_of k) (\<lambda>_. True) b
      (redis_act E (r_set_ex (e_redis E) (make_key E ns k') j (sint ttl)))" for j
    by (rule ignores_redis_act [OF set_ex good]) (use k in \<open>auto simp: ref_set_ex_def split: if_splits\<close>)
qed simp_all

text \<open>A value that was set and, since then, touched by nothing but time.\<close>

lemma set_then_get:
  assumes c: "codec_ok c"
    and set: "run (cache_set E c ns k v ttl) w = (Inr (), w1)"
    and later: "later (make_key E ns k) (rdb_of db_of w1) (rdb_of db_of w2)"
    and get: "run (cache_get E c ns k) w2 = (Inr r, w3)"
  shows "r = (if rclock (rdb_of db_of w3) \<le> rclock (rdb_of db_of w1) + 1000 * unat ttl
              then Some v else None)"
proof -
  let ?k = "make_key E ns k"
  obtain dt j where j: "enc c v = Inr j" and pos: "0 < sint ttl"
    and w1: "rdb_of db_of w1 = put ?k
           (RStr j, Some (rclock (rdb_of db_of w) + dt + 1000 * nat (sint ttl)))
           (elapse dt (rdb_of db_of w))"
    by (rule cache_set_run [OF set])
  have ttl: "nat (sint ttl) = unat ttl"
    using pos by (simp add: sint_positive)
  obtain dt' s where g: "ref_get ?k (elapse dt' (rdb_of db_of w2)) = (Inr s, rdb_of db_of w3)"
    and s: "decode_stored c s = Inr r"
    by (rule cache_get_run [OF get])
  then have w3: "rdb_of db_of w3 = elapse dt' (rdb_of db_of w2)"
    by (auto simp: ref_get_def split: option.splits rdata.splits)
  have l3: "later ?k (rdb_of db_of w1) (rdb_of db_of w3)"
    unfolding w3 by (rule later_trans [OF later later_elapse])
  then have "keys (rdb_of db_of w3) ?k =
      (if rclock (rdb_of db_of w3) \<le> rclock (rdb_of db_of w1) + 1000 * unat ttl
       then Some (RStr j, Some (rclock (rdb_of db_of w1) + 1000 * unat ttl)) else None)"
    by (simp add: later_def live_def w1 ttl)
  moreover have "dec c j = Inr v" using c [unfolded codec_ok_def, rule_format, of v] j by auto
  ultimately show ?thesis
    using g s by (auto simp: w3 ref_get_def decode_stored_def split: if_splits)
qed

end

section \<open>Properties\<close>

text \<open>
  C37. What \<open>cache_set\<close> stored, \<open>cache_get\<close> returns: if both are answered and in between
  only time has passed for this key (whatever happened to the other keys and to the rest of the world),
  the value comes back exactly until its time to live is over, and after that there is none.
\<close>

theorem cache_set_get:
  assumes "redis_env E db_of" and "codec_ok c"
    and "run (cache_set E c ns k v ttl) w = (Inr (), w1)"
    and "later (make_key E ns k) (rdb_of db_of w1) (rdb_of db_of w2)"
    and "run (cache_get E c ns k) w2 = (Inr r, w3)"
  shows "r = (if rclock (rdb_of db_of w3) \<le> rclock (rdb_of db_of w1) + 1000 * unat ttl
              then Some v else None)"
  by (rule redis_env.set_then_get [OF assms])

lemmas cache_defs = cache_get_def cache_set_def cache_delete_def cache_get_delete_def
  refresh_token_rotate_def rotate_script_def decode_stored_def make_key_def Let_def
  redis_send_def cbind_def cret_def

lemmas ref_cmd_defs = ref_get_def ref_set_ex_def ref_del_def ref_getdel_def ref_expire_def ref_ttl_def
  ref_incr_def ref_zremrangebyscore_def ref_zcard_def ref_zadd_def ref_zfirst_def zset_of_def set_of_def
  put_zset_def put_set_def expiry_of_def keys_elapse

text \<open>An example run: set for 60 seconds, then read back at once and after 61 seconds.\<close>

definition after_set :: "(rdb, pg, osstate) world" where
  "after_set = (ref_world empty_rdb \<lparr>users = [], note_rows = []\<rparr>)
     \<lparr>redis := put ''app:ns:k'' (RStr ''qv'', Some 1000000061000) (elapse 1000 empty_rdb)\<rparr>"

theorem cache_set_get_witness:
  "fst (run (cache_get (ref_env 1000 Map.empty) ref_str_codec ''ns'' ''k'') after_set) = Inr (Some ''v'') \<and>
   fst (run (cache_get (ref_env 1000 Map.empty) ref_str_codec ''ns'' ''k'')
     (after_set\<lparr>redis := elapse 61000 (redis after_set)\<rparr>)) = Inr None"
proof -
  let ?E = "ref_env 1000 Map.empty"
  let ?later = "after_set\<lparr>redis := elapse 61000 (redis after_set)\<rparr>"
  have set: "run (cache_set ?E ref_str_codec ''ns'' ''k'' ''v'' 60)
      (ref_world empty_rdb \<lparr>users = [], note_rows = []\<rparr>) = (Inr (), after_set)"
    by (simp add: cache_defs run_simps ref_str_codec_def ref_set_ex_def ref_world_def empty_rdb_def
        after_set_def)
  note get = cache_set_get [OF ref_env.redis_env_axioms ref_codecs_ok(1) set]
  have 1: "run (cache_get ?E ref_str_codec ''ns'' ''k'') after_set
      = (Inr (Some ''v''), after_set\<lparr>redis := elapse 1000 (redis after_set)\<rparr>)"
    by (simp add: cache_defs run_simps ref_str_codec_def ref_get_def keys_elapse after_set_def empty_rdb_def)
  have 2: "run (cache_get ?E ref_str_codec ''ns'' ''k'') ?later
      = (Inr None, ?later\<lparr>redis := elapse 1000 (redis ?later)\<rparr>)"
    by (simp add: cache_defs run_simps ref_str_codec_def ref_get_def keys_elapse after_set_def empty_rdb_def)
  from get [OF _ 1] get [OF _ 2] show ?thesis
    unfolding 1 2 by (simp add: later_elapse later_def after_set_def empty_rdb_def rdb_of_def live_def)
qed

end
