(* ===== verification/Rate_Limit.thy ===== *)
theory Rate_Limit
  imports Cache_Store
begin

text \<open>
  The sliding-window rate limiter and the login backoff (\<open>backend/cache/src/rate_limit.rs\<close>). A window
  is given in seconds, as all callers do. Unsigned arithmetic wraps, as in a release build. The Lua
  scripts compute with doubles, which are exact below \<open>2 ^ 53\<close>; \<open>int\<close> stands for them.
\<close>

section \<open>The sliding window\<close>

record rate_limit_result =
  allowed :: bool
  remaining :: u64
  reset_at :: u64

definition unix_epoch_ms :: "int \<Rightarrow> u64" where
  "unix_epoch_ms now = (if now < 0 then 0 else word_of_int now)"

definition as_millis :: "u64 \<Rightarrow> u64" where
  "as_millis window = 1000 * window"

definition rate_limit_script ::
  "'r redis_ops \<Rightarrow> string \<Rightarrow> u64 \<Rightarrow> u64 \<Rightarrow> u64 \<Rightarrow> string \<Rightarrow> u64 \<Rightarrow> ('r, int list) cmd" where
  "rate_limit_script R key window_start now_ms max_requests member_id ttl_secs =
     cbind (r_zremrangebyscore R key (uint window_start)) (\<lambda>_.
     cbind (r_zcard R key) (\<lambda>count.
       if int count < uint max_requests then
         cbind (r_zadd R key (unat now_ms) member_id) (\<lambda>_.
         cbind (r_expire R key (uint ttl_secs)) (\<lambda>_.
         cret [1, uint max_requests - int count - 1, 0]))
       else
         cbind (r_zfirst R key) (\<lambda>reset. case reset of
             Some (_, score) \<Rightarrow> cret [0, 0, int score + uint ttl_secs * 1000]
           | None \<Rightarrow> (\<lambda>r. (Inl ''ERR attempt to perform arithmetic on a nil value'', r)))))"

definition rate_limit_check ::
  "('r, 'd, 'o) env \<Rightarrow> string \<Rightarrow> u64 \<Rightarrow> u64 \<Rightarrow> ('r, 'd, 'o, rate_limit_result) cached" where
  "rate_limit_check E key window max_requests =
     (let full_key = make_key E ''ratelimit'' key in
      bind (os_act E os_now) (\<lambda>now. let now_ms = unix_epoch_ms now;
          window_start = now_ms - as_millis window in
      bind (os_act E os_uuid) (\<lambda>member_id. let ttl_secs = window + 60 in
      attempt (redis_act E (rate_limit_script (e_redis E) full_key window_start now_ms max_requests
          member_id ttl_secs)) (\<lambda>result.
      Ret (Inr \<lparr>allowed = result ! 0 = 1,
                remaining = word_of_int (max (result ! 1) 0),
                reset_at = word_of_int (result ! 2)\<rparr>)))))"

definition rate_limit_count :: "('r, 'd, 'o) env \<Rightarrow> string \<Rightarrow> u64 \<Rightarrow> ('r, 'd, 'o, nat) cached" where
  "rate_limit_count E key window =
     (let full_key = make_key E ''ratelimit'' key in
      bind (os_act E os_now) (\<lambda>now. let window_start = unix_epoch_ms now - as_millis window in
      attempt (redis_act E (r_zremrangebyscore (e_redis E) full_key (sint window_start))) (\<lambda>_.
      redis_act E (r_zcard (e_redis E) full_key))))"

section \<open>The backoff\<close>

definition backoff_params :: "u64 \<Rightarrow> u64 \<times> string" where
  "backoff_params count =
     (if 20 \<le> count then (1800, ''30min'')
      else if 10 \<le> count then (300, ''5min'')
      else if 5 \<le> count then (60, ''60s'')
      else (60, ''tracking''))"

text \<open>The script returns the counter as the stored text, or -1, and the time to live.\<close>

definition backoff_check_script :: "'r redis_ops \<Rightarrow> string \<Rightarrow> ('r, (string + int) \<times> int) cmd" where
  "backoff_check_script R key =
     cbind (r_get R key) (\<lambda>count. case count of
         Some c \<Rightarrow> cbind (r_ttl R key) (\<lambda>ttl.
           if ttl = -1 then cbind (r_del R [key]) (\<lambda>_. cret (Inr (-1), -1))
           else cret (Inl c, ttl))
       | None \<Rightarrow> cret (Inr (-1), -1))"

definition reply_i64 :: "('r, 'd, 'o) env \<Rightarrow> string + int \<Rightarrow> cache_error + int" where
  "reply_i64 E v = map_err CommandFailed (case v of Inl s \<Rightarrow> fred_i64 (e_lib E) s | Inr i \<Rightarrow> Inr i)"

definition backoff_check :: "('r, 'd, 'o) env \<Rightarrow> string \<Rightarrow> string \<Rightarrow> ('r, 'd, 'o, unit) cached" where
  "backoff_check E ip endpoint =
     (let key = make_key E ''backoff'' (ip @ '':'' @ endpoint) in
      attempt (redis_act E (backoff_check_script (e_redis E) key)) (\<lambda>(count, remaining_ttl).
      attempt (Ret (reply_i64 E count)) (\<lambda>count.
        if count < 0 then Ret (Inr ())
        else let count' = word_of_int count; label = snd (backoff_params count') in
          if count' < 5 then Ret (Inr ())
          else if 0 < remaining_ttl then
            Ret (Inl (BackoffBlocked (word_of_int remaining_ttl) count' label))
          else Ret (Inr ()))))"

definition backoff_increment_script ::
  "'r redis_ops \<Rightarrow> string \<Rightarrow> u64 \<Rightarrow> u64 \<Rightarrow> u64 \<Rightarrow> u64 \<Rightarrow> ('r, int) cmd" where
  "backoff_increment_script R key t1 t2 t3 t4 =
     cbind (r_incr R key) (\<lambda>count.
       let ttl = (if count = 1 then t1 else if count < 5 then t2 else if count < 10 then t3 else t4) in
     cbind (r_expire R key (uint ttl)) (\<lambda>_. cret count))"

definition backoff_increment :: "('r, 'd, 'o) env \<Rightarrow> string \<Rightarrow> string \<Rightarrow> ('r, 'd, 'o, unit) cached" where
  "backoff_increment E ip endpoint =
     (let key = make_key E ''backoff'' (ip @ '':'' @ endpoint);
          t1 = fst (backoff_params 1); t2 = fst (backoff_params 5);
          t3 = fst (backoff_params 10); t4 = fst (backoff_params 20) in
      attempt (redis_act E (backoff_increment_script (e_redis E) key t1 t2 t3 t4)) (\<lambda>count.
      Ret (case fred_u64 (e_lib E) count of Inl e \<Rightarrow> Inl (CommandFailed e) | Inr _ \<Rightarrow> Inr ())))"

lemma rate_limit_frame [frame]:
  "keeps db (rate_limit_check E k win mx)" "keeps session_cache (rate_limit_check E k win mx)"
  "keeps db (backoff_check E ip ep)" "keeps session_cache (backoff_check E ip ep)"
  "keeps db (backoff_increment E ip ep)" "keeps session_cache (backoff_increment E ip ep)"
  unfolding rate_limit_check_def backoff_check_def backoff_increment_def Let_def
  by (auto intro!: keeps_attempt keeps_bind frame split: prod.split)

section \<open>What the scripts do on the server\<close>

text \<open>The requests of the window, as the limiter sees them: entries younger than the window's start.\<close>

definition in_window :: "int \<Rightarrow> (string \<times> nat) list \<Rightarrow> (string \<times> nat) list" where
  "in_window start z = filter (\<lambda>(_, s). start < int s) z"

definition record_request :: "string \<Rightarrow> nat \<Rightarrow> (string \<times> nat) list \<Rightarrow> (string \<times> nat) list" where
  "record_request m now z = zinsert m now (filter (\<lambda>(m', _). m' \<noteq> m) z)"

lemma zinsert_not_Nil [simp]: "zinsert m s z \<noteq> []"
  by (cases z) (auto split: if_splits)

lemma record_request_not_Nil [simp]: "record_request m now z \<noteq> []"
  by (simp add: record_request_def)

lemma rate_limit_script_ref:
  assumes z: "zset_at k d = Inr z"
    and ttl: "0 < uint ttl" "int (rclock d) + 1000 * uint ttl < 2 ^ 63"
  shows "rate_limit_script (ref_redis 0) k start now mx m ttl d =
    (let live = in_window (uint start) z in
     if length live < unat mx then
       (Inr [1, uint mx - int (length live) - 1, 0],
        put k (RZset (record_request m (unat now) live), Some (rclock d + 1000 * unat ttl)) d)
     else case live of
         [] \<Rightarrow> (Inl ''ERR attempt to perform arithmetic on a nil value'', put_zset k live d)
       | (_, s) # _ \<Rightarrow> (Inr [0, 0, int s + uint ttl * 1000], put_zset k live d))"
proof -
  let ?live = "in_window (uint start) z"
  let ?d = "put_zset k ?live d"
  have len: "int (length ?live) < uint mx \<longleftrightarrow> length ?live < unat mx"
    by (metis of_nat_less_iff uint_nat)
  have "rate_limit_script (ref_redis 0) k start now mx m ttl d =
      (if length ?live < unat mx then
         cbind (ref_zadd k (unat now) m) (\<lambda>_. cbind (ref_expire k (uint ttl)) (\<lambda>_.
           cret [1, uint mx - int (length ?live) - 1, 0])) ?d
       else cbind (ref_zfirst k) (\<lambda>reset. case reset of
             Some (_, score) \<Rightarrow> cret [0, 0, int score + uint ttl * 1000]
           | None \<Rightarrow> (\<lambda>r. (Inl ''ERR attempt to perform arithmetic on a nil value'', r))) ?d)"
    unfolding rate_limit_script_def ref_ops
    by (simp add: cbind_def [of "ref_zremrangebyscore k (uint start)"] cbind_def [of "ref_zcard k"]
        ref_zset_steps [OF z] ref_zset_steps [OF zset_at_put_zset] len in_window_def [symmetric])
  moreover have "cbind (ref_zadd k (unat now) m) (\<lambda>_. cbind (ref_expire k (uint ttl)) (\<lambda>_. cret x)) ?d =
      (Inr x, put k (RZset (record_request m (unat now) ?live), Some (rclock d + 1000 * unat ttl)) d)" for x :: "int list"
    using ttl by (simp add: cbind_def cret_def ref_expire_def record_request_def [symmetric]
        ref_zset_steps [OF zset_at_put_zset])
  moreover have "cbind (ref_zfirst k) f ?d =
      f (case ?live of [] \<Rightarrow> None | x # _ \<Rightarrow> Some x) ?d" for f :: "(string \<times> nat) option \<Rightarrow> (rdb, int list) cmd"
    by (simp add: cbind_def ref_zset_steps [OF zset_at_put_zset])
  ultimately show ?thesis
    by (simp add: Let_def cret_def split: list.split prod.split)
qed

lemma timeless_rate_limit_script: "timeless (rate_limit_script (ref_redis 0) k start now mx m ttl)"
  unfolding rate_limit_script_def ref_ops by (auto split: option.split)

section \<open>One check of the limiter\<close>

lemma unat_of_nat_small: "n \<le> 2 ^ 53 \<Longrightarrow> unat (of_nat n :: u64) = n"
  by (simp add: unat_of_nat take_bit_nat_eq_self_iff)

lemma uint_of_nat_small: "n \<le> 2 ^ 53 \<Longrightarrow> uint (of_nat n :: u64) = int n"
  by (metis unat_of_nat_small uint_nat)

context redis_env
begin

lemma rate_limit_script_sim:
  assumes "uint start \<le> 2 ^ 53" and "unat now \<le> 2 ^ 53"
  shows "simulates db_of (rate_limit_script (e_redis E) k start now mx m ttl)
           (rate_limit_script (ref_redis 0) k start now mx m ttl)"
  unfolding rate_limit_script_def ref_ops
  by (intro simulates_cbind zremrangebyscore zcard zadd zfirst expire assms if_simulates simulates_cret
      option_simulates) (auto simp: simulates_def cret_def)

lemma rate_limit_check_run:
  assumes "run (rate_limit_check E key win mx) w = (x, w')"
    and "os_now (e_os E) (outside w) = (int now, o1)" and "now \<le> 2 ^ 53" and "1000 * unat win \<le> now"
  obtains m o2 y where "os_uuid (e_os E) o1 = (m, o2)" and "outside w' = o2"
    and "wire_step (rdb_of db_of w)
           (rate_limit_script (ref_redis 0) (make_key E ''ratelimit'' key)
             (of_nat (now - 1000 * unat win)) (of_nat now) mx m (win + 60)) y (rdb_of db_of w')"
    and "x = map_err CommandFailed (map_sum id (\<lambda>r. \<lparr>allowed = r ! 0 = 1,
           remaining = word_of_int (max (r ! 1) 0), reset_at = word_of_int (r ! 2)\<rparr>) y)"
proof -
  let ?k = "make_key E ''ratelimit'' key"
  obtain m o2 where u: "os_uuid (e_os E) o1 = (m, o2)" by (cases "os_uuid (e_os E) o1")
  have now: "unix_epoch_ms (int now) = of_nat now"
    by (simp add: unix_epoch_ms_def)
  have start: "(of_nat now :: u64) - as_millis win = of_nat (now - 1000 * unat win)"
    using assms(4) by (simp add: as_millis_def of_nat_diff)
  let ?c = "\<lambda>R. rate_limit_script R ?k (of_nat (now - 1000 * unat win)) (of_nat now) mx m (win + 60)"
  let ?w = "w\<lparr>outside := o2\<rparr>"
  obtain y r where s: "run (redis_act E (?c (e_redis E))) ?w = (y, r)"
    by (cases "run (redis_act E (?c (e_redis E))) ?w")
  have "simulates db_of (?c (e_redis E)) (?c (ref_redis 0))"
    by (rule rate_limit_script_sim) (use assms(3) in \<open>simp_all add: unat_of_nat_small uint_of_nat_small\<close>)
  then obtain z where y: "y = map_err CommandFailed z"
    and wire: "wire_step (rdb_of db_of ?w) (?c (ref_redis 0)) z (rdb_of db_of r)"
    and r: "r = ?w\<lparr>redis := redis r\<rparr>"
    using s by (rule redis_act_run)
  have "run (rate_limit_check E key win mx) w =
      run (attempt (redis_act E (?c (e_redis E))) (\<lambda>result. Ret (Inr \<lparr>allowed = result ! 0 = 1,
        remaining = word_of_int (max (result ! 1) 0), reset_at = word_of_int (result ! 2)\<rparr>))) ?w"
    by (simp add: rate_limit_check_def Let_def run_bind run_os_act assms(2) u start now del: of_nat_diff)
  with assms(1) have x: "x = map_err CommandFailed (map_sum id (\<lambda>r. \<lparr>allowed = r ! 0 = 1,
           remaining = word_of_int (max (r ! 1) 0), reset_at = word_of_int (r ! 2)\<rparr>) z)" and w': "w' = r"
    using s y by (cases z; simp add: run_attempt)+
  have "outside w' = o2" unfolding w' by (subst r) simp
  with wire show thesis
    using that [OF u _ _ x] by (simp add: w')
qed

end

section \<open>The backoff over a series of failures\<close>

text \<open>The counter of failures at a key; it always has an expiry time.\<close>

definition failures_at :: "string \<Rightarrow> nat \<Rightarrow> rdb \<Rightarrow> bool" where
  "failures_at k n d \<longleftrightarrow> (case keys d k of None \<Rightarrow> n = 0
     | Some (v, e) \<Rightarrow> v = RStr (show_nat n) \<and> 0 < n \<and> e \<noteq> None)"

text \<open>The time to live, in seconds, that the script sets after the \<open>n\<close>th failure.\<close>

definition cooldown :: "nat \<Rightarrow> nat" where
  "cooldown n = (if n < 5 then 60 else if n < 10 then 300 else 1800)"

lemma show_int_nat [simp]: "show_int (int n) = show_nat n"
  by (simp add: show_int_def)

lemma parse_signed_show_nat: "n < 2 ^ 53 \<Longrightarrow> parse_signed 64 (show_nat n) = Some (int n)"
  using parse_signed_show_int [of 64 "int n"] by simp

lemma increment_script_ref:
  assumes n: "failures_at k n d" "n < 2 ^ 53" and clock: "rclock d \<le> 2 ^ 53"
  shows "backoff_increment_script (ref_redis 0) k 60 60 300 1800 d =
    (Inr (int n + 1), put k (RStr (show_nat (n + 1)), Some (rclock d + 1000 * cooldown (n + 1))) d)"
proof -
  have incr: "\<exists>e. ref_incr k d = (Inr (int n + 1), put k (RStr (show_nat (n + 1)), e) d)"
  proof (cases "keys d k")
    case None
    then have "n = 0" using n by (simp add: failures_at_def)
    moreover have "show_nat 1 = ''1''" by code_simp
    ultimately show ?thesis using None by (intro exI [of _ None]) (simp add: ref_incr_def)
  next
    case (Some v)
    then obtain e where "keys d k = Some (RStr (show_nat n), e)"
      using n by (cases v) (auto simp: failures_at_def)
    moreover have "show_int (int n + 1) = show_nat (n + 1)"
      using show_int_nat [of "n + 1"] by (simp add: add.commute)
    ultimately show ?thesis
      using n by (intro exI [of _ e]) (simp add: ref_incr_def parse_signed_show_nat del: show_int_nat)
  qed
  then obtain e where e: "ref_incr k d = (Inr (int n + 1), put k (RStr (show_nat (n + 1)), e) d)" ..
  show ?thesis
    using clock
    by (auto simp: backoff_increment_script_def cbind_def e cret_def ref_expire_def Let_def cooldown_def)
qed

lemma timeless_increment: "timeless (backoff_increment_script (ref_redis 0) k t1 t2 t3 t4)"
  unfolding backoff_increment_script_def ref_ops Let_def by auto

lemma check_script_ref:
  assumes "keys d k = Some (RStr v, Some e)" and "rclock d \<le> e"
  shows "backoff_check_script (ref_redis 0) k d = (Inr (Inl v, int ((e - rclock d + 500) div 1000)), d)"
  using assms by (simp add: backoff_check_script_def cbind_def cret_def ref_get_def ref_ttl_def)

lemma check_script_absent:
  "keys d k = None \<Longrightarrow> backoff_check_script (ref_redis 0) k d = (Inr (Inr (-1), -1), d)"
  by (simp add: backoff_check_script_def cbind_def cret_def ref_get_def)

lemma word_count:
  assumes "n < 2 ^ 53"
  shows "(word_of_int (int n) :: u64) < 5 \<longleftrightarrow> n < 5"
proof -
  have "unat (word_of_nat n :: u64) = n" using assms by (simp add: unat_of_nat_small)
  then show ?thesis by (simp add: word_less_nat_alt)
qed

context redis_env
begin

lemma increment_sim:
  "simulates db_of (backoff_increment_script (e_redis E) k t1 t2 t3 t4)
     (backoff_increment_script (ref_redis 0) k t1 t2 t3 t4)"
  unfolding backoff_increment_script_def ref_ops Let_def
  by (intro simulates_cbind incr expire simulates_cret)

lemma check_sim:
  "simulates db_of (backoff_check_script (e_redis E) k) (backoff_check_script (ref_redis 0) k)"
  unfolding backoff_check_script_def ref_ops
  by (intro simulates_cbind option_simulates if_simulates get ttl del simulates_cret)

lemma backoff_increment_run:
  assumes run: "run (backoff_increment E ip ep) w = (Inr (), w')"
    and n: "failures_at (make_key E ''backoff'' (ip @ '':'' @ ep)) n (rdb_of db_of w)" "n < 2 ^ 53"
    and fresh: "\<And>v e. keys (rdb_of db_of w) (make_key E ''backoff'' (ip @ '':'' @ ep)) = Some (v, Some e) \<Longrightarrow>
      rclock (rdb_of db_of w') \<le> e"
    and clock: "rclock (rdb_of db_of w') \<le> 2 ^ 53"
  shows "keys (rdb_of db_of w') (make_key E ''backoff'' (ip @ '':'' @ ep)) =
    Some (RStr (show_nat (n + 1)), Some (rclock (rdb_of db_of w') + 1000 * cooldown (n + 1)))"
proof -
  let ?k = "make_key E ''backoff'' (ip @ '':'' @ ep)"
  let ?c = "\<lambda>R. backoff_increment_script R ?k 60 60 300 1800"
  have params: "fst (backoff_params 1) = 60" "fst (backoff_params 5) = 60"
    "fst (backoff_params 10) = 300" "fst (backoff_params 20) = 1800"
    by (simp_all add: backoff_params_def word_le_nat_alt)
  obtain x w1 where a: "run (redis_act E (?c (e_redis E))) w = (x, w1)"
    by (cases "run (redis_act E (?c (e_redis E))) w")
  with run obtain i where x: "x = Inr i" and w1: "w1 = w'"
    by (auto simp: backoff_increment_def Let_def params run_attempt run_Ret split: sum.splits)
  obtain dt where g: "?c (ref_redis 0) (elapse dt (rdb_of db_of w)) = (Inr i, rdb_of db_of w1)"
    by (rule redis_act_Inr [OF increment_sim a [unfolded x]])
  have t: "rclock (rdb_of db_of w') = rclock (elapse dt (rdb_of db_of w))"
    by (rule timeless_run [OF timeless_increment g [unfolded w1]])
  have "failures_at ?k n (elapse dt (rdb_of db_of w))"
    using n(1) fresh t
    by (auto simp: failures_at_def keys_elapse split: option.splits)
  note out = increment_script_ref [OF this n(2)]
  have "rclock (elapse dt (rdb_of db_of w)) \<le> 2 ^ 53" using clock t by simp
  note out' = out [OF this, unfolded g prod.inject sum.inject]
  from out' show ?thesis unfolding t w1 by simp
qed

lemma backoff_check_run:
  assumes run: "run (backoff_check E ip ep) w = (r, w')"
    and answered: "\<And>m. r \<noteq> Inl (CommandFailed m)"
    and key: "keys (rdb_of db_of w) (make_key E ''backoff'' (ip @ '':'' @ ep)) = Some (RStr (show_nat n), Some e)"
    and fred: "fred_i64 (e_lib E) (show_nat n) = Inr (int n)" and n: "n < 2 ^ 53"
  shows "r = (if 5 \<le> n \<and> rclock (rdb_of db_of w') + 500 \<le> e
     then Inl (BackoffBlocked (of_nat ((e - rclock (rdb_of db_of w') + 500) div 1000)) (of_nat n)
            (snd (backoff_params (of_nat n))))
     else Inr ())"
proof -
  let ?k = "make_key E ''backoff'' (ip @ '':'' @ ep)"
  obtain x w1 where a: "run (redis_act E (backoff_check_script (e_redis E) ?k)) w = (x, w1)"
    by (cases "run (redis_act E (backoff_check_script (e_redis E) ?k)) w")
  with run have w1: "w1 = w'"
    by (auto simp: backoff_check_def Let_def run_attempt run_Ret split: sum.splits prod.splits if_splits)
  have "x \<noteq> Inl f" for f
  proof
    assume "x = Inl f"
    moreover obtain y where "x = map_err CommandFailed y" by (rule redis_act_run [OF check_sim a])
    ultimately obtain m where "f = CommandFailed m" by (cases y) auto
    with \<open>x = Inl f\<close> a run answered show False
      by (auto simp: backoff_check_def Let_def run_attempt)
  qed
  then obtain c t where x: "x = Inr (c, t)" by (cases x) auto
  obtain dt where "backoff_check_script (ref_redis 0) ?k (elapse dt (rdb_of db_of w)) =
      (Inr (c, t), rdb_of db_of w1)"
    by (rule redis_act_Inr [OF check_sim a [unfolded x]])
  then obtain d where d: "d = elapse dt (rdb_of db_of w)"
    and g: "backoff_check_script (ref_redis 0) ?k d = (Inr (c, t), rdb_of db_of w1)" by blast
  show ?thesis
  proof (cases "rclock d \<le> e")
    case True
    have k: "keys d ?k = Some (RStr (show_nat n), Some e)"
      using key True by (simp add: keys_elapse d)
    note out = check_script_ref [OF k True, unfolded g prod.inject sum.inject]
    then have c: "c = Inl (show_nat n)" and t: "t = int ((e - rclock d + 500) div 1000)"
      and w: "rdb_of db_of w' = d" unfolding w1 by blast+
    have pos: "0 < (e - rclock d + 500) div 1000 \<longleftrightarrow> rclock d + 500 \<le> e"
      using True by (simp add: div_greater_zero_iff) linarith
    show ?thesis
      using run a x c t w w1 fred pos word_count [OF n]
      by (auto simp: backoff_check_def Let_def run_attempt run_Ret reply_i64_def)
  next
    case False
    have "keys d ?k = None" using key False by (simp add: keys_elapse d)
    note out = check_script_absent [OF this, unfolded g prod.inject sum.inject]
    then have "c = Inr (-1)" and "rdb_of db_of w' = d" unfolding w1 by blast+
    then show ?thesis
      using run a x w1 False by (auto simp: backoff_check_def Let_def run_attempt run_Ret reply_i64_def)
  qed
qed

lemma backoff_check_absent:
  assumes run: "run (backoff_check E ip ep) w = (r, w')"
    and answered: "\<And>m. r \<noteq> Inl (CommandFailed m)"
    and key: "keys (rdb_of db_of w) (make_key E ''backoff'' (ip @ '':'' @ ep)) = None"
  shows "r = Inr () \<and> rclock (rdb_of db_of w) \<le> rclock (rdb_of db_of w')"
proof -
  let ?k = "make_key E ''backoff'' (ip @ '':'' @ ep)"
  obtain x w1 where a: "run (redis_act E (backoff_check_script (e_redis E) ?k)) w = (x, w1)"
    by (cases "run (redis_act E (backoff_check_script (e_redis E) ?k)) w")
  obtain y where y: "x = map_err CommandFailed y"
    and wire: "wire_step (rdb_of db_of w) (backoff_check_script (ref_redis 0) ?k) y (rdb_of db_of w1)"
    by (rule redis_act_run [OF check_sim a])
  obtain z where z: "y = Inr z"
    using run a y answered by (cases y) (auto simp: backoff_check_def Let_def run_attempt)
  obtain dt where g: "backoff_check_script (ref_redis 0) ?k (elapse dt (rdb_of db_of w)) = (Inr z, rdb_of db_of w1)"
    using wire_step_Inr [OF wire [unfolded z]] by blast
  have "keys (elapse dt (rdb_of db_of w)) ?k = None" by (rule elapse_None [OF key])
  from check_script_absent [OF this] g have "z = (Inr (-1), -1)" "rdb_of db_of w1 = elapse dt (rdb_of db_of w)"
    by simp_all
  then show ?thesis
    using run a y z by (auto simp: backoff_check_def Let_def run_attempt run_Ret reply_i64_def)
qed

end

text \<open>
  C9. The login backoff, end to end: after a further failure has been
  recorded on top of \<open>n\<close> (within the cooldown of the last one), the next check that is answered lets the
  client pass as long as there are fewer than five failures; from the fifth on it blocks until the
  cooldown is over: five minutes for five to nine failures, half an hour from ten on. The error carries
  the remaining seconds, the count, and the label of the table for that count.
\<close>

theorem backoff_blocks_after_failures:
  assumes "redis_env E db_of"
    and "failures_at (make_key E ''backoff'' (ip @ '':'' @ ep)) n (rdb_of db_of w)"
    and "\<And>v e. keys (rdb_of db_of w) (make_key E ''backoff'' (ip @ '':'' @ ep)) = Some (v, Some e) \<Longrightarrow>
      rclock (rdb_of db_of w1) \<le> e"
    and "rclock (rdb_of db_of w1) \<le> 2 ^ 53" and "n + 1 < 2 ^ 53"
    and "fred_i64 (e_lib E) (show_nat (n + 1)) = Inr (int (n + 1))"
    and "run (backoff_increment E ip ep) w = (Inr (), w1)"
    and "later (make_key E ''backoff'' (ip @ '':'' @ ep)) (rdb_of db_of w1) (rdb_of db_of w2)"
    and "run (backoff_check E ip ep) w2 = (r, w3)" and "\<And>m. r \<noteq> Inl (CommandFailed m)"
  shows "r = (let until = rclock (rdb_of db_of w1) + 1000 * cooldown (n + 1);
                  now = rclock (rdb_of db_of w3) in
     if 5 \<le> n + 1 \<and> now + 500 \<le> until
     then Inl (BackoffBlocked (of_nat ((until - now + 500) div 1000)) (of_nat (n + 1))
            (snd (backoff_params (of_nat (n + 1)))))
     else Inr ())"
proof -
  let ?k = "make_key E ''backoff'' (ip @ '':'' @ ep)"
  have "keys (rdb_of db_of w1) ?k =
      Some (RStr (show_nat (n + 1)), Some (rclock (rdb_of db_of w1) + 1000 * cooldown (n + 1)))"
    by (rule redis_env.backoff_increment_run [OF assms(1,7,2) _ assms(3,4)]) (use assms(5) in simp_all)
  note k = this
  let ?e = "rclock (rdb_of db_of w1) + 1000 * cooldown (n + 1)"
  show ?thesis
  proof (cases "rclock (rdb_of db_of w2) \<le> ?e")
    case True
    from later_present [OF assms(8) k True]
    have "keys (rdb_of db_of w2) ?k = Some (RStr (show_nat (n + 1)), Some ?e)" .
    from redis_env.backoff_check_run [OF assms(1,9,10) this assms(6,5)] show ?thesis
      by (simp add: Let_def)
  next
    case False
    with k assms(8) have "keys (rdb_of db_of w2) ?k = None" by (simp add: later_def live_def)
    from redis_env.backoff_check_absent [OF assms(1,9,10) this] False show ?thesis
      by auto
  qed
qed

lemmas rate_limit_defs = rate_limit_check_def rate_limit_script_def backoff_check_def
  backoff_check_script_def backoff_increment_def backoff_increment_script_def reply_i64_def

text \<open>An example: the fifth failure, then a check. The client is blocked for five minutes.\<close>

definition four_failures :: "(rdb, pg, osstate) world" where
  "four_failures = (ref_world empty_rdb \<lparr>users = [], note_rows = []\<rparr>)
     \<lparr>redis := put ''app:backoff:ip:login'' (RStr ''4'', Some 1000000060000) empty_rdb\<rparr>"

definition five_failures :: "(rdb, pg, osstate) world" where
  "five_failures = (ref_world empty_rdb \<lparr>users = [], note_rows = []\<rparr>)
     \<lparr>redis := put ''app:backoff:ip:login'' (RStr ''5'', Some 1000000300000) empty_rdb\<rparr>"

lemma show_4: "show_nat 4 = ''4''"
  by code_simp

lemma show_5: "show_nat 5 = ''5''"
  by code_simp

lemma show_4_5: "show_nat 4 = ''4''" "show_nat 5 = ''5''" "parse_signed 64 ''4'' = Some 4"
  "parse_signed 64 ''5'' = Some 5" "show_int 5 = ''5''"
  using parse_signed_show_nat [of 4] parse_signed_show_nat [of 5] show_int_nat [of 5]
  by (simp_all add: show_4 show_5)

lemma elapse_0_put [simp]:
  "keys d = Map.empty \<Longrightarrow> rclock d \<le> e \<Longrightarrow> elapse 0 (put k (v, Some e) d) = put k (v, Some e) d"
  by (cases d) (auto simp: elapse_def put_def live_def fun_eq_iff)

theorem backoff_blocks_after_failures_witness:
  "fst (run (backoff_check (ref_env 0 Map.empty) ''ip'' ''login'') five_failures)
     = Inl (BackoffBlocked 300 5 ''60s'')"
proof -
  let ?E = "ref_env 0 Map.empty" and ?r = "\<lambda>db. db"
  have inc: "run (backoff_increment ?E ''ip'' ''login'') four_failures = (Inr (), five_failures)"
    by (simp add: rate_limit_defs cache_defs run_simps ref_cmd_defs ref_defs four_failures_def
        five_failures_def backoff_params_def word_le_nat_alt show_4_5)
  have check: "run (backoff_check ?E ''ip'' ''login'') five_failures =
      (Inl (BackoffBlocked 300 5 ''60s''), five_failures)"
    by (simp add: rate_limit_defs cache_defs run_simps ref_cmd_defs ref_defs five_failures_def
        backoff_params_def word_le_nat_alt word_less_nat_alt show_4_5)
  have "failures_at (make_key ?E ''backoff'' (''ip'' @ '':'' @ ''login'')) 4 (rdb_of ?r four_failures)"
    by (simp add: failures_at_def make_key_def four_failures_def rdb_of_def show_4_5)
  note blocks = backoff_blocks_after_failures [OF ref_env.redis_env_axioms this _ _ _ _ inc _ check]
  have "Inl (BackoffBlocked 300 5 ''60s'') = (let until = rclock (rdb_of ?r five_failures) + 1000 * cooldown (4 + 1);
                  now = rclock (rdb_of ?r five_failures) in
     if 5 \<le> (4 :: nat) + 1 \<and> now + 500 \<le> until
     then Inl (BackoffBlocked (of_nat ((until - now + 500) div 1000)) (of_nat (4 + 1))
            (snd (backoff_params (of_nat (4 + 1)))))
     else Inr ())"
    by (rule blocks)
      (simp_all add: make_key_def four_failures_def five_failures_def rdb_of_def empty_rdb_def ref_lib_def
        show_4_5 later_def live_def)
  then show ?thesis by (simp add: check)
qed

end
