(* ===== verification/Rate_Window.thy ===== *)
theory Rate_Window
  imports Rate_Limit "HOL-Library.Multiset"
begin

text \<open>
  The safety property of the sliding-window limiter: however many checks of one key are under way at a time and
  however their steps interleave, which windows admit no more requests than the maximum, and which admit more.
\<close>

section \<open>Interleaved checks\<close>

text \<open>
  A check reads the local clock first and sends its script later. \<open>t\<close> is what it read; while it is under way,
  Redis's clock is ahead of \<open>t\<close> by \<open>c\<close>, the offset of the two clocks, and at most \<open>D\<close> more, the delay of the check.
\<close>

definition in_time :: "int \<Rightarrow> nat \<Rightarrow> int \<Rightarrow> nat \<Rightarrow> bool" where
  "in_time c D t rnow \<longleftrightarrow> t + c \<le> int rnow \<and> int rnow \<le> t + c + int D"

definition granted :: "('w, 'e + rate_limit_result) prog \<Rightarrow> bool" where
  "granted p \<longleftrightarrow> (\<exists>r. p = Ret (Inr r) \<and> allowed r)"

text \<open>
  \<open>limiter_run E db_of issued key win mx c D h ps w\<close>: the checks \<open>ps\<close> of one key, each with its reading of the clock,
  have come to the world \<open>w\<close>, step by step in any order, with anything else in between that leaves the key alone and
  forgets no identifier. A check may begin at any time, may stand still for good, and its script may fail with or
  without effect. \<open>h\<close> holds the times, by Redis's clock, at which the scripts of the granted checks ran.
\<close>

inductive limiter_run ::
  "('r, 'd, 'o) env \<Rightarrow> ('r \<Rightarrow> rdb) \<Rightarrow> ('o \<Rightarrow> string \<Rightarrow> bool) \<Rightarrow> string \<Rightarrow> u64 \<Rightarrow> u64 \<Rightarrow> int \<Rightarrow> nat \<Rightarrow>
   nat list \<Rightarrow> (int \<times> (('r, 'd, 'o) world, cache_error + rate_limit_result) prog) list \<Rightarrow> ('r, 'd, 'o) world \<Rightarrow> bool"
  for E db_of issued key win mx c D where
  start: "keys (rdb_of db_of w) (make_key E ''ratelimit'' key) = None \<Longrightarrow>
    limiter_run E db_of issued key win mx c D [] [] w"
| other: "limiter_run E db_of issued key win mx c D h ps w \<Longrightarrow>
    later (make_key E ''ratelimit'' key) (rdb_of db_of w) (rdb_of db_of w') \<Longrightarrow>
    keeps_issued issued (outside w) (outside w') \<Longrightarrow> limiter_run E db_of issued key win mx c D h ps w'"
| begins: "limiter_run E db_of issued key win mx c D h ps w \<Longrightarrow>
    rate_limit_check E key win mx = Act f \<Longrightarrow> f w = (p, w') \<Longrightarrow> t = fst (os_now (e_os E) (outside w)) \<Longrightarrow>
    t \<le> 2 ^ 53 \<Longrightarrow> limiter_run E db_of issued key win mx c D h (ps @ [(t, p)]) w'"
| turn: "limiter_run E db_of issued key win mx c D h ps w \<Longrightarrow>
    i < length ps \<Longrightarrow> ps ! i = (t, Act f) \<Longrightarrow> f w = (p, w') \<Longrightarrow>
    in_time c D t (rclock (rdb_of db_of w')) \<Longrightarrow> rclock (rdb_of db_of w') \<le> 2 ^ 53 \<Longrightarrow>
    h' = (if granted p then h @ [rclock (rdb_of db_of w')] else h) \<Longrightarrow>
    limiter_run E db_of issued key win mx c D h' (ps[i := (t, p)]) w'"

text \<open>The times of a history or of a sorted set after \<open>start\<close>.\<close>

definition since :: "int \<Rightarrow> nat list \<Rightarrow> nat multiset" where
  "since start ts = filter_mset (\<lambda>t. start < int t) (mset ts)"

lemma since_append [simp]: "since s (a @ b) = since s a + since s b"
  by (simp add: since_def)

lemma since_later: "s \<le> s' \<Longrightarrow> since s' ts = filter_mset (\<lambda>t. s' < int t) (since s ts)"
  by (auto simp: since_def filter_filter_mset intro!: filter_mset_cong)

lemma size_in_window: "length (in_window s z) = size (since s (map snd z))"
  by (induction z) (auto simp: in_window_def since_def)

lemma since_in_window: "s \<le> s' \<Longrightarrow> since s' (map snd (in_window s z)) = since s' (map snd z)"
  by (induction z) (auto simp: in_window_def since_def)

lemma mset_zinsert: "mset (map snd (zinsert m s z)) = add_mset s (mset (map snd z))"
  by (induction m s z rule: zinsert.induct) auto

lemma set_zinsert: "set (zinsert m s z) = insert (m, s) (set z)"
  by (induction m s z rule: zinsert.induct) auto

lemma since_record_request:
  assumes "m \<notin> fst ` set z"
  shows "since s (map snd (record_request m now z)) = since s [now] + since s (map snd z)"
proof -
  have "filter (\<lambda>(m', _). m' \<noteq> m) z = z"
    using assms by (intro filter_True) force
  then show ?thesis by (simp add: record_request_def since_def mset_zinsert del: mset_map)
qed

lemma since_antimono: "s \<le> s' \<Longrightarrow> size (since s' ts) \<le> size (since s ts)"
  by (subst since_later [of s s']) (auto intro: size_filter_mset_lesseq)

lemma since_single [simp]: "since s [t] = (if s < int t then {#t#} else {#})"
  by (simp add: since_def)

section \<open>What the server holds for a history\<close>

text \<open>
  \<open>W\<close> is the length of the window. Every request that a window of length \<open>W - D\<close> can still see, now or later,
  has an entry in the sorted set that no check prunes; the key lives long enough, and its members are known.
\<close>

definition members :: "(rdata \<times> nat option) option \<Rightarrow> (string \<times> nat) list" where
  "members v = (case v of Some (RZset z, _) \<Rightarrow> z | _ \<Rightarrow> [])"

definition covers :: "nat \<Rightarrow> nat \<Rightarrow> int \<Rightarrow> nat list \<Rightarrow> nat \<Rightarrow> (rdata \<times> nat option) option \<Rightarrow> bool" where
  "covers W D c h rnow v \<longleftrightarrow>
     (\<forall>R \<ge> int rnow. size (since (R - (int W - int D)) h) \<le> size (since (R - c - int W) (map snd (members v)))) \<and>
     (case v of None \<Rightarrow> True | Some (RZset z, Some e) \<Rightarrow> \<forall>x \<in> set h. x + W \<le> e | _ \<Rightarrow> False) \<and> (\<forall>x \<in> set h. x \<le> rnow)"

lemma members_simps [simp]: "members None = []" "members (Some (RZset z, e)) = z"
  by (simp_all add: members_def)

lemma since_empty: "since s h = {#} \<longleftrightarrow> (\<forall>x \<in> set h. int x \<le> s)"
  by (auto simp: since_def not_less)

lemma covers_zset:
  assumes "covers W D c h rnow v"
  obtains "v = None" "zset_of (map_option fst v) = Inr []"
  | z e where "v = Some (RZset z, Some e)" "zset_of (map_option fst v) = Inr z" "\<forall>x \<in> set h. x + W \<le> e"
proof (cases v)
  case None
  then show thesis by (intro that(1)) (simp_all add: zset_of_def)
next
  case (Some x)
  then obtain z e where "v = Some (RZset z, Some e)"
    using assms by (cases x) (auto simp: covers_def split: option.splits rdata.splits)
  with assms show thesis by (intro that(2)) (auto simp: covers_def zset_of_def)
qed

text \<open>Time passes, and the key may expire.\<close>

lemma covers_live:
  assumes "covers W D c h rnow v" and "rnow \<le> rnow'"
  shows "covers W D c h rnow' (live rnow' (\<lambda>_. v) k)"
  using assms(1)
proof (cases rule: covers_zset)
  case (2 z e)
  show ?thesis
  proof (cases "rnow' \<le> e")
    case False
    have "since (R - (int W - int D)) h = {#}" if "int rnow' \<le> R" for R
      unfolding since_empty using that 2(3) False by force
    then show ?thesis using 2 False assms by (auto simp: covers_def live_def)
  qed (use assms 2 in \<open>auto simp: covers_def live_def\<close>)
qed (use assms in \<open>auto simp: covers_def live_def\<close>)

lemma live_at: "live t s k = live t (\<lambda>_. s k) k"
  by (simp add: live_def)

lemma covers_later:
  assumes "covers W D c h (rclock d) (keys d k)" and "later k d d'"
  shows "covers W D c h (rclock d') (keys d' k)" and "set (members (keys d' k)) \<subseteq> set (members (keys d k))"
proof -
  have k: "keys d' k = live (rclock d') (\<lambda>_. keys d k) k" using assms(2) by (simp add: later_def) (rule live_at)
  show "covers W D c h (rclock d') (keys d' k)"
    unfolding k by (rule covers_live [OF assms(1)]) (use assms(2) in \<open>simp add: later_def\<close>)
  show "set (members (keys d' k)) \<subseteq> set (members (keys d k))"
    unfolding k by (auto simp: live_def members_def split: option.splits if_splits)
qed

text \<open>A check that is in time prunes nothing that still matters.\<close>

lemma covers_prune:
  assumes c: "covers W D c h rnow v" and z: "zset_of (map_option fst v) = Inr z" and t: "int t + c \<le> int rnow"
  shows "int rnow \<le> R \<Longrightarrow> size (since (R - (int W - int D)) h) \<le>
    size (since (R - c - int W) (map snd (in_window (int t - int W) z)))"
    and "size (since (int rnow - (int W - int D)) h) \<le> length (in_window (int t - int W) z)"
proof -
  have m: "members v = z" using c
  proof (cases rule: covers_zset)
    case 1
    then show ?thesis using z by simp
  next
    case 2
    then show ?thesis using z by simp
  qed
  show *: "size (since (R - (int W - int D)) h) \<le>
      size (since (R - c - int W) (map snd (in_window (int t - int W) z)))" if "int rnow \<le> R" for R
    using c that t by (subst since_in_window) (simp_all add: covers_def m)
  show "size (since (int rnow - (int W - int D)) h) \<le> length (in_window (int t - int W) z)"
  proof -
    have "size (since a xs) \<le> length xs" for a xs
      unfolding since_def using size_filter_mset_lesseq [of _ "mset xs"] by (simp only: size_mset)
    from this [of _ "map snd (in_window (int t - int W) z)"] * [of "int rnow"] show ?thesis by (metis dual_order.refl length_map order_trans)
  qed
qed

text \<open>
  The script on the server, in one statement. \<open>d\<close> is the server's state when the script runs.
\<close>

lemma script_covers:
  assumes cov: "covers W D c h (rclock d) (keys d k)" and W: "W = 1000 * unat win" "W \<le> t"
    and bounds: "t \<le> 2 ^ 53" "rclock d \<le> 2 ^ 53" "unat win \<le> 2 ^ 43"
    and m: "m \<notin> fst ` set (members (keys d k))" and time: "in_time c D (int t) (rclock d)"
    and run: "rate_limit_script (ref_redis 0) k (of_nat (t - W)) (of_nat t) mx m (win + 60) d = (y, d')"
  shows "rclock d' = rclock d" and "covers W D c h (rclock d) (keys d' k)"
    and "fst ` set (members (keys d' k)) \<subseteq> insert m (fst ` set (members (keys d k)))"
    and "y = Inr res \<Longrightarrow> res ! 0 = 1 \<Longrightarrow> covers W D c (h @ [rclock d]) (rclock d) (keys d' k)
       \<and> size (since (int (rclock d) - (int W - int D)) h) < unat mx"
proof -
  let ?live = "\<lambda>z. in_window (int t - int W) z"
  have tc: "int t + c \<le> int (rclock d)" "int (rclock d) \<le> int t + c + int D"
    using time by (simp_all add: in_time_def)
  obtain z where z: "zset_of (map_option fst (keys d k)) = Inr z" and mz: "members (keys d k) = z"
    using cov by (cases rule: covers_zset) simp_all
  note prune = covers_prune [OF cov z tc(1)]
  have ttl: "unat (win + 60) = unat win + 60"
    using bounds(3) by (subst unat_add_lem [THEN iffD1]) simp_all
  have start: "uint (of_nat (t - W) :: u64) = int t - int W"
    using bounds(1) W(2) by (subst uint_of_nat_small) simp_all
  have e: "1000 * unat (win + 60) = W + 60000" using ttl W by simp
  have u: "uint (win + 60) = int (unat win + 60)" using ttl by (metis uint_nat)
  have "uint win \<le> 2 ^ 43" using bounds(3) of_nat_mono [of "unat win" "2 ^ 43", where ?'a = int] by simp
  moreover have "int (rclock d) \<le> 2 ^ 53" using bounds(2) by simp
  ultimately have small: "0 < uint (win + 60)" "int (rclock d) + 1000 * uint (win + 60) < 2 ^ 63"
    unfolding u by (linarith, simp)
  have nw: "unat (of_nat t :: u64) = t" using bounds(1) by (rule unat_of_nat_small)
  have zat: "zset_at k d = Inr z" using z by (simp add: zset_at_def)
  have out: "(y, d') = (if length (?live z) < unat mx
       then (Inr [1, uint mx - int (length (?live z)) - 1, 0],
             put k (RZset (record_request m t (?live z)), Some (rclock d + (W + 60000))) d)
       else case ?live z of
         [] \<Rightarrow> (Inl ''ERR attempt to perform arithmetic on a nil value'', put_zset k (?live z) d)
       | (_, s) # _ \<Rightarrow> (Inr [0, 0, int s + uint (win + 60) * 1000], put_zset k (?live z) d))"
    unfolding run [symmetric] rate_limit_script_ref [OF zat small] Let_def start nw e by (rule refl)
  have h: "\<forall>x \<in> set h. x \<le> rclock d" using cov by (simp add: covers_def)
  have rm: "m \<notin> fst ` set (?live z)" using m mz by (auto simp: in_window_def)
  have "rclock d' = rclock d \<and> covers W D c h (rclock d) (keys d' k) \<and>
     fst ` set (members (keys d' k)) \<subseteq> insert m (fst ` set (members (keys d k))) \<and>
     (y = Inr res \<longrightarrow> res ! 0 = 1 \<longrightarrow> covers W D c (h @ [rclock d]) (rclock d) (keys d' k)
       \<and> size (since (int (rclock d) - (int W - int D)) h) < unat mx)"
  proof (cases "length (?live z) < unat mx")
    case True
    then have d': "d' = put k (RZset (record_request m t (?live z)), Some (rclock d + (W + 60000))) d"
      using out by simp
    have rec: "since s (map snd (record_request m t (?live z))) = since s [t] + since s (map snd (?live z))" for s
      by (rule since_record_request [OF rm])
    have "size (since (R - (int W - int D)) h) \<le> size (since (R - c - int W) (map snd (record_request m t (?live z))))"
      "size (since (R - (int W - int D)) (h @ [rclock d])) \<le> size (since (R - c - int W) (map snd (record_request m t (?live z))))"
      if "int (rclock d) \<le> R" for R
      using prune(1) [OF that] tc by (auto simp: rec)
    then have "covers W D c h (rclock d) (keys d' k) \<and> covers W D c (h @ [rclock d]) (rclock d) (keys d' k)"
      using h by (auto simp: covers_def d')
    moreover have "fst ` set (members (keys d' k)) \<subseteq> insert m (fst ` set (members (keys d k)))"
      by (auto simp: d' mz record_request_def set_zinsert in_window_def image_iff)
    ultimately show ?thesis using prune(2) True by (simp add: d')
  next
    case False
    then have d': "d' = put_zset k (?live z) d" and no: "y = Inr res \<longrightarrow> res ! 0 \<noteq> 1"
      using out by (auto split: list.splits)
    have "covers W D c h (rclock d) (keys d' k)"
      using cov
    proof (cases rule: covers_zset)
      case 1
      then have "?live z = []" using z by (simp add: in_window_def)
      then show ?thesis using 1 cov by (simp add: d')
    next
      case (2 z' e)
      then show ?thesis using z prune(1) h by (auto simp: d' covers_def expiry_of_def)
    qed
    moreover have "set (members (keys d' k)) \<subseteq> set z"
      by (auto simp: d' in_window_def)
    moreover have "rclock d' = rclock d" by (simp add: d')
    ultimately show ?thesis using no mz by auto
  qed
  then show "rclock d' = rclock d" "covers W D c h (rclock d) (keys d' k)"
    "fst ` set (members (keys d' k)) \<subseteq> insert m (fst ` set (members (keys d k)))"
    "y = Inr res \<Longrightarrow> res ! 0 = 1 \<Longrightarrow> covers W D c (h @ [rclock d]) (rclock d) (keys d' k)
       \<and> size (since (int (rclock d) - (int W - int D)) h) < unat mx"
    by blast+
qed

section \<open>The checks under way\<close>

text \<open>A check after it has read the clock, and after it has drawn its identifier too.\<close>

definition asking ::
  "('r, 'd, 'o) env \<Rightarrow> string \<Rightarrow> u64 \<Rightarrow> u64 \<Rightarrow> int \<Rightarrow> string \<Rightarrow> ('r, 'd, 'o, rate_limit_result) cached" where
  "asking E key win mx t m = attempt (redis_act E (rate_limit_script (e_redis E) (make_key E ''ratelimit'' key)
      (unix_epoch_ms t - as_millis win) (unix_epoch_ms t) mx m (win + 60))) (\<lambda>result.
    Ret (Inr \<lparr>allowed = result ! 0 = 1, remaining = word_of_int (max (result ! 1) 0),
              reset_at = word_of_int (result ! 2)\<rparr>))"

definition drawing ::
  "('r, 'd, 'o) env \<Rightarrow> string \<Rightarrow> u64 \<Rightarrow> u64 \<Rightarrow> int \<Rightarrow> ('r, 'd, 'o, rate_limit_result) cached" where
  "drawing E key win mx t = bind (os_act E os_uuid) (asking E key win mx t)"

lemma check_begins:
  assumes "rate_limit_check E key win mx = Act f" and "f w = (p, w')"
  shows "p = drawing E key win mx (fst (os_now (e_os E) (outside w)))"
    and "w' = w\<lparr>outside := snd (os_now (e_os E) (outside w))\<rparr>"
proof -
  have "rate_limit_check E key win mx = bind (os_act E os_now) (drawing E key win mx)"
    by (simp add: rate_limit_check_def Let_def drawing_def [abs_def] asking_def [abs_def])
  with assms show "p = drawing E key win mx (fst (os_now (e_os E) (outside w)))"
    "w' = w\<lparr>outside := snd (os_now (e_os E) (outside w))\<rparr>"
    by (auto simp: os_act_def act_def split: prod.splits)
qed

lemma drawing_turn:
  assumes "drawing E key win mx t = Act f" and "f w = (p, w')"
  shows "p = asking E key win mx t (fst (os_uuid (e_os E) (outside w)))"
    and "w' = w\<lparr>outside := snd (os_uuid (e_os E) (outside w))\<rparr>"
  using assms by (auto simp: drawing_def os_act_def act_def split: prod.splits)

lemma not_granted [simp]: "\<not> granted (asking E key win mx t m)" "\<not> granted (Ret (Inl e))"
  by (simp_all add: granted_def asking_def attempt_def redis_act_def act_def)

lemma asking_not_drawing: "asking E key win mx t m = Ret x \<longleftrightarrow> False" "drawing E key win mx t = Ret x \<longleftrightarrow> False"
  by (simp_all add: asking_def drawing_def attempt_def redis_act_def os_act_def act_def)

context redis_env
begin

lemma asking_turn:
  assumes f: "asking E key win mx (int t) m = Act f" "f w = (p, w')"
    and t: "1000 * unat win \<le> t" "t \<le> 2 ^ 53"
  obtains y where "wire_step (rdb_of db_of w) (rate_limit_script (ref_redis 0) (make_key E ''ratelimit'' key)
             (of_nat (t - 1000 * unat win)) (of_nat t) mx m (win + 60)) y (rdb_of db_of w')"
    and "outside w' = outside w"
    and "p = (case y of Inl e \<Rightarrow> Ret (Inl (CommandFailed e)) | Inr r \<Rightarrow>
        Ret (Inr \<lparr>allowed = r ! 0 = 1, remaining = word_of_int (max (r ! 1) 0), reset_at = word_of_int (r ! 2)\<rparr>))"
proof -
  let ?c = "\<lambda>R. rate_limit_script R (make_key E ''ratelimit'' key) (of_nat (t - 1000 * unat win)) (of_nat t) mx m (win + 60)"
  have now: "unix_epoch_ms (int t) = of_nat t" by (simp add: unix_epoch_ms_def)
  have start: "(of_nat t :: u64) - as_millis win = of_nat (t - 1000 * unat win)"
    using t(1) by (simp add: as_millis_def of_nat_diff)
  obtain x w1 where a: "run (redis_act E (?c (e_redis E))) w = (x, w1)" by (cases "run (redis_act E (?c (e_redis E))) w")
  have "p = (case x of Inl e \<Rightarrow> Ret (Inl e) | Inr r \<Rightarrow>
        Ret (Inr \<lparr>allowed = r ! 0 = 1, remaining = word_of_int (max (r ! 1) 0), reset_at = word_of_int (r ! 2)\<rparr>))"
    and w1: "w' = w1"
    using f a by (auto simp: asking_def now start attempt_def redis_act_def act_def simp del: One_nat_def split: prod.splits)
  moreover have "simulates db_of (?c (e_redis E)) (?c (ref_redis 0))"
    by (rule rate_limit_script_sim) (use t(2) in \<open>simp_all add: unat_of_nat_small uint_of_nat_small\<close>)
  from redis_act_run [OF this a] obtain y where "x = map_err CommandFailed y"
    "wire_step (rdb_of db_of w) (?c (ref_redis 0)) y (rdb_of db_of w1)" "w1 = w\<lparr>redis := redis w1\<rparr>" .
  moreover from this(3) have "outside w1 = outside w" by (metis world.select_convs(3) world.surjective world.update_convs(1))
  ultimately show thesis using that by (cases y) simp_all
qed

end

text \<open>
  \<open>Q\<close> are the checks that hold an identifier, \<open>ids\<close> the identifiers: all different, and none in the sorted set yet.
\<close>

definition under_way ::
  "('r, 'd, 'o) env \<Rightarrow> string \<Rightarrow> u64 \<Rightarrow> u64 \<Rightarrow> (string \<Rightarrow> bool) \<Rightarrow> string set \<Rightarrow>
   (int \<times> (('r, 'd, 'o) world, cache_error + rate_limit_result) prog) list \<Rightarrow> bool" where
  "under_way E key win mx known M ps \<longleftrightarrow> (\<forall>x \<in> M. known x) \<and> (\<exists>Q ids. Q \<subseteq> {..<length ps} \<and> inj_on ids Q \<and>
     (\<forall>i \<in> Q. known (ids i) \<and> ids i \<notin> M) \<and>
     (\<forall>i < length ps. \<exists>t. fst (ps ! i) = int t \<and> 1000 * unat win \<le> t \<and> t \<le> 2 ^ 53 \<and>
        (snd (ps ! i) = drawing E key win mx (int t) \<or> (\<exists>x. snd (ps ! i) = Ret x) \<or>
         i \<in> Q \<and> snd (ps ! i) = asking E key win mx (int t) (ids i))))"

lemma under_way_mono:
  "under_way E key win mx known M ps \<Longrightarrow> M' \<subseteq> M \<Longrightarrow> (\<And>x. known x \<Longrightarrow> known' x) \<Longrightarrow> under_way E key win mx known' M' ps"
  unfolding under_way_def by (elim conjE exE, intro conjI exI) blast+

lemma under_way_Nil [simp]: "under_way E key win mx known {} []"
  unfolding under_way_def by (auto intro!: exI [of _ "{}"])

lemma under_way_begins:
  assumes "under_way E key win mx known M ps" and "1000 * unat win \<le> t" "t \<le> 2 ^ 53"
  shows "under_way E key win mx known M (ps @ [(int t, drawing E key win mx (int t))])"
proof -
  obtain Q ids where M: "\<forall>x \<in> M. known x" and Q: "Q \<subseteq> {..<length ps}" "inj_on ids Q" "\<forall>i \<in> Q. known (ids i) \<and> ids i \<notin> M"
    and ps: "\<forall>i < length ps. \<exists>t. fst (ps ! i) = int t \<and> 1000 * unat win \<le> t \<and> t \<le> 2 ^ 53 \<and>
        (snd (ps ! i) = drawing E key win mx (int t) \<or> (\<exists>x. snd (ps ! i) = Ret x) \<or>
         i \<in> Q \<and> snd (ps ! i) = asking E key win mx (int t) (ids i))"
    using assms(1) by (auto simp: under_way_def)
  have "Q \<subseteq> {..<length (ps @ [(int t, drawing E key win mx (int t))])}" using Q(1) by auto
  moreover have "\<forall>i < length (ps @ [(int t, drawing E key win mx (int t))]).
      \<exists>u. fst ((ps @ [(int t, drawing E key win mx (int t))]) ! i) = int u \<and> 1000 * unat win \<le> u \<and> u \<le> 2 ^ 53 \<and>
        (snd ((ps @ [(int t, drawing E key win mx (int t))]) ! i) = drawing E key win mx (int u) \<or>
         (\<exists>x. snd ((ps @ [(int t, drawing E key win mx (int t))]) ! i) = Ret x) \<or>
         i \<in> Q \<and> snd ((ps @ [(int t, drawing E key win mx (int t))]) ! i) = asking E key win mx (int u) (ids i))"
    using ps assms(2,3) by (simp add: nth_append less_Suc_eq all_conj_distrib)
  ultimately show ?thesis using M Q(2,3) unfolding under_way_def by blast
qed

text \<open>A check draws its identifier.\<close>

lemma under_way_draws:
  assumes "under_way E key win mx known M ps" and "i < length ps" and "ps ! i = (t, q)"
    and m: "\<not> known m" "known' m" and known: "\<And>x. known x \<Longrightarrow> known' x"
  shows "under_way E key win mx known' M (ps[i := (t, asking E key win mx t m)])"
proof -
  let ?p = "asking E key win mx t m"
  obtain Q ids where M: "\<forall>x \<in> M. known x" and Q: "Q \<subseteq> {..<length ps}" "inj_on ids Q" "\<forall>i \<in> Q. known (ids i) \<and> ids i \<notin> M"
    and ps: "\<And>i. i < length ps \<Longrightarrow> \<exists>t. fst (ps ! i) = int t \<and> 1000 * unat win \<le> t \<and> t \<le> 2 ^ 53 \<and>
        (snd (ps ! i) = drawing E key win mx (int t) \<or> (\<exists>x. snd (ps ! i) = Ret x) \<or>
         i \<in> Q \<and> snd (ps ! i) = asking E key win mx (int t) (ids i))"
    using assms(1) by (auto simp: under_way_def)
  let ?Q = "insert i (Q - {i})" and ?ids = "ids(i := m)"
  have "inj_on ?ids ?Q" using Q(2,3) m(1) by (auto simp: inj_on_def)
  moreover have "\<forall>j \<in> ?Q. known' (?ids j) \<and> ?ids j \<notin> M" using Q(3) M m known by auto
  moreover have "?Q \<subseteq> {..<length (ps[i := (t, ?p)])}" using Q(1) assms(2) by auto
  moreover have "\<exists>u. fst ((ps[i := (t, ?p)]) ! j) = int u \<and> 1000 * unat win \<le> u \<and> u \<le> 2 ^ 53 \<and>
        (snd ((ps[i := (t, ?p)]) ! j) = drawing E key win mx (int u) \<or> (\<exists>x. snd ((ps[i := (t, ?p)]) ! j) = Ret x) \<or>
         j \<in> ?Q \<and> snd ((ps[i := (t, ?p)]) ! j) = asking E key win mx (int u) (?ids j))" if "j < length ps" for j
    using ps [OF that] assms(2,3) by (cases "j = i") auto
  ultimately show ?thesis
    unfolding under_way_def using M known by (intro conjI exI [of _ ?Q] exI [of _ ?ids]) auto
qed

text \<open>A check that holds an identifier puts it into the sorted set at most, and ends.\<close>

lemma under_way_sent:
  assumes "under_way E key win mx known M ps" and "i < length ps" and "ps ! i = (int t, Act f)"
    and "Act f \<noteq> drawing E key win mx (int t)"
  obtains m where "Act f = asking E key win mx (int t) m" and "m \<notin> M"
    and "\<forall>M' x. M' \<subseteq> insert m M \<longrightarrow> under_way E key win mx known M' (ps[i := (int t, Ret x)])"
proof -
  obtain Q ids where M: "\<forall>x \<in> M. known x" and Q: "Q \<subseteq> {..<length ps}" "inj_on ids Q" "\<forall>i \<in> Q. known (ids i) \<and> ids i \<notin> M"
    and ps: "\<And>i. i < length ps \<Longrightarrow> \<exists>t. fst (ps ! i) = int t \<and> 1000 * unat win \<le> t \<and> t \<le> 2 ^ 53 \<and>
        (snd (ps ! i) = drawing E key win mx (int t) \<or> (\<exists>x. snd (ps ! i) = Ret x) \<or>
         i \<in> Q \<and> snd (ps ! i) = asking E key win mx (int t) (ids i))"
    using assms(1) by (auto simp: under_way_def)
  have i: "i \<in> Q" "Act f = asking E key win mx (int t) (ids i)" and t: "1000 * unat win \<le> t" "t \<le> 2 ^ 53"
    using ps [OF assms(2)] assms(3,4) by auto
  show thesis
  proof (rule that [OF i(2)])
    show "ids i \<notin> M" using Q(3) i(1) by blast
  next
    show "\<forall>M' x. M' \<subseteq> insert (ids i) M \<longrightarrow> under_way E key win mx known M' (ps[i := (int t, Ret x)])"
    proof (intro allI impI)
      fix M' x assume sub: "M' \<subseteq> insert (ids i) M"
      have "ids j \<noteq> ids i" if "j \<in> Q - {i}" for j using that Q(2) i(1) by (auto simp: inj_on_def)
      then have "\<forall>j \<in> Q - {i}. known (ids j) \<and> ids j \<notin> M'" using Q(3) sub by blast
      moreover have "\<forall>x \<in> M'. known x" using M Q(3) i(1) sub by blast
      moreover have "Q - {i} \<subseteq> {..<length (ps[i := (int t, Ret x)])}" "inj_on ids (Q - {i})" using Q by (auto intro: inj_on_subset)
      moreover have "\<exists>u. fst ((ps[i := (int t, Ret x)]) ! j) = int u \<and> 1000 * unat win \<le> u \<and> u \<le> 2 ^ 53 \<and>
          (snd ((ps[i := (int t, Ret x)]) ! j) = drawing E key win mx (int u) \<or> (\<exists>x'. snd ((ps[i := (int t, Ret x)]) ! j) = Ret x') \<or>
           j \<in> Q - {i} \<and> snd ((ps[i := (int t, Ret x)]) ! j) = asking E key win mx (int u) (ids j))" if "j < length ps" for j
        using ps [OF that] assms(2) t that by (cases "j = i") auto
      ultimately show "under_way E key win mx known M' (ps[i := (int t, Ret x)])"
        unfolding under_way_def by (intro conjI exI [of _ "Q - {i}"] exI [of _ ids]) auto
    qed
  qed
qed

section \<open>The invariant\<close>

text \<open>The granted checks of the last \<open>L\<close> milliseconds up to \<open>T\<close>.\<close>

definition admitted :: "int \<Rightarrow> int \<Rightarrow> nat list \<Rightarrow> nat" where
  "admitted L T h = length (filter (\<lambda>e. T - L < int e \<and> int e \<le> T) h)"

lemma admitted_since: "int r \<le> T \<Longrightarrow> admitted L T h \<le> size (since (int r - L) h)"
  by (induction h) (auto simp: admitted_def since_def)

lemma admitted_snoc: "admitted L T (h @ [e]) = admitted L T h + (if T - L < int e \<and> int e \<le> T then 1 else 0)"
  by (simp add: admitted_def)

lemma admitted_step:
  assumes "\<And>T. admitted L T h \<le> n" and "size (since (int r - L) h) < n"
  shows "admitted L T (h @ [r]) \<le> n"
proof (cases "int r \<le> T")
  case True
  then show ?thesis using admitted_since [OF True, of L h] assms(2) by (simp add: admitted_snoc)
qed (use assms(1) [of T] in \<open>simp add: admitted_snoc\<close>)

definition limiter_inv ::
  "('r, 'd, 'o) env \<Rightarrow> ('r \<Rightarrow> rdb) \<Rightarrow> ('o \<Rightarrow> string \<Rightarrow> bool) \<Rightarrow> string \<Rightarrow> u64 \<Rightarrow> u64 \<Rightarrow> int \<Rightarrow> nat \<Rightarrow> nat list \<Rightarrow>
   (int \<times> (('r, 'd, 'o) world, cache_error + rate_limit_result) prog) list \<Rightarrow> ('r, 'd, 'o) world \<Rightarrow> bool" where
  "limiter_inv E db_of issued key win mx c D h ps w \<longleftrightarrow>
     (let d = rdb_of db_of w; v = keys d (make_key E ''ratelimit'' key); W = 1000 * unat win in
      under_way E key win mx (issued (outside w)) (fst ` set (members v)) ps \<and> covers W D c h (rclock d) v \<and>
      (\<forall>T. admitted (int W - int D) T h \<le> unat mx))"

context redis_env
begin

lemma limiter_script_step:
  assumes inv: "limiter_inv E db_of issued key win mx c D h ps w" and win: "unat win \<le> 2 ^ 43"
    and i: "i < length ps" "ps ! i = (int t, Act f)" "f w = (p, w')" and no: "Act f \<noteq> drawing E key win mx (int t)"
    and time: "in_time c D (int t) (rclock (rdb_of db_of w'))" "rclock (rdb_of db_of w') \<le> 2 ^ 53"
    and h': "h' = (if granted p then h @ [rclock (rdb_of db_of w')] else h)"
  shows "limiter_inv E db_of issued key win mx c D h' (ps[i := (int t, p)]) w'"
proof -
  let ?k = "make_key E ''ratelimit'' key" and ?W = "1000 * unat win"
  let ?M = "\<lambda>d. fst ` set (members (keys d ?k))" and ?d = "rdb_of db_of w"
  have way: "under_way E key win mx (issued (outside w)) (?M ?d) ps"
    and cov: "covers ?W D c h (rclock ?d) (keys ?d ?k)" and adm: "\<And>T. admitted (int ?W - int D) T h \<le> unat mx"
    using inv by (simp_all add: limiter_inv_def Let_def)
  obtain m where ask: "Act f = asking E key win mx (int t) m" and m: "m \<notin> ?M ?d"
    and sent': "\<forall>M' x. M' \<subseteq> insert m (?M ?d) \<longrightarrow> under_way E key win mx (issued (outside w)) M' (ps[i := (int t, Ret x)])"
    by (rule under_way_sent [OF way i(1,2) no])
  note sent = sent' [rule_format]
  have t: "?W \<le> t" "t \<le> 2 ^ 53" using way i(1,2) by (fastforce simp: under_way_def)+
  let ?c = "rate_limit_script (ref_redis 0) ?k (of_nat (t - ?W)) (of_nat t) mx m (win + 60)"
  obtain y where wire: "wire_step ?d ?c y (rdb_of db_of w')" and out: "outside w' = outside w"
    and p: "p = (case y of Inl e \<Rightarrow> Ret (Inl (CommandFailed e)) | Inr r \<Rightarrow>
        Ret (Inr \<lparr>allowed = r ! 0 = 1, remaining = word_of_int (max (r ! 1) 0), reset_at = word_of_int (r ! 2)\<rparr>))"
    by (rule asking_turn [OF ask [symmetric] i(3) t])
  obtain x where x: "p = Ret x" using p by (cases y) simp_all
  have el: "covers ?W D c h (rclock (elapse dt ?d)) (keys (elapse dt ?d) ?k)" "?M (elapse dt ?d) \<subseteq> ?M ?d" for dt
    using covers_later [OF cov later_elapse, of dt] by auto
  show ?thesis
    using wire
  proof (cases rule: wire_step_cases)
    case (lost dt e)
    then have "h' = h" using p h' by simp
    then show ?thesis
      using el [of dt] sent [of "?M (elapse dt ?d)" x] adm out lost(1) x
      unfolding limiter_inv_def Let_def by auto
  next
    case (ran dt z)
    have m': "m \<notin> ?M (elapse dt ?d)" using m el(2) by blast
    have clock: "rclock (rdb_of db_of w') = rclock (elapse dt ?d)"
      by (rule timeless_run [OF timeless_rate_limit_script ran(1)])
    note sc = script_covers [OF el(1) refl t time(2) [unfolded clock] win m' time(1) [unfolded clock] ran(1)]
    have way': "under_way E key win mx (issued (outside w)) (?M (rdb_of db_of w')) (ps[i := (int t, Ret x)])"
      by (rule sent) (use sc(3) el(2) in blast)
    show ?thesis
    proof (cases "granted p")
      case True
      then obtain r where "z = Inr r" "r ! 0 = 1"
        using p ran(2) by (cases y) (auto simp: granted_def)
      from sc(4) [OF this] have "covers ?W D c h' (rclock (rdb_of db_of w')) (keys (rdb_of db_of w') ?k)"
        and b: "size (since (int (rclock (rdb_of db_of w')) - (int ?W - int D)) h) < unat mx"
        using h' True clock by simp_all
      moreover have "admitted (int ?W - int D) T h' \<le> unat mx" for T
        using admitted_step [OF adm b] h' True by simp
      ultimately show ?thesis using way' out x unfolding limiter_inv_def Let_def by simp
    next
      case False
      then show ?thesis using h' sc(2) way' out x adm clock unfolding limiter_inv_def Let_def by simp
    qed
  qed
qed

lemma limiter_run_inv:
  assumes os: "os_service (e_os E) issued" and win: "unat win \<le> 2 ^ 43"
    and epoch: "\<And>s. 1000 * int (unat win) \<le> fst (os_now (e_os E) s)"
    and run: "limiter_run E db_of issued key win mx c D h ps w"
  shows "limiter_inv E db_of issued key win mx c D h ps w"
  using run
proof induction
  case (start w)
  then show ?case by (simp add: limiter_inv_def covers_def since_def admitted_def)
next
  case (other h ps w w')
  then show ?case
    using covers_later [OF _ other(2)] under_way_mono
    unfolding limiter_inv_def Let_def keeps_issued_def by (meson image_mono)
next
  case (begins h ps w f p w' t)
  note b = check_begins [OF begins(2,3)]
  have pos: "1000 * int (unat win) \<le> t" using epoch [of "outside w"] begins(4) by (simp only:)
  then have "0 \<le> t" by (rule order_trans [rotated]) simp
  then obtain n where n: "t = int n" by (rule zero_le_imp_eq_int [THEN exE])
  have "int (1000 * unat win) \<le> int n" "int n \<le> int (2 ^ 53)" using pos begins(5) unfolding n by simp_all
  then have t: "t = int n" "1000 * unat win \<le> n" "n \<le> 2 ^ 53" using n by (simp_all only: of_nat_le_iff)
  have "issued (outside w) x \<Longrightarrow> issued (outside w') x" for x
    using os_service.now [OF os, of "outside w"] b(2) by (simp add: keeps_issued_def)
  then have known: "issued (outside w) x \<Longrightarrow> issued (outside w') x" for x .
  have "under_way E key win mx (issued (outside w')) (fst ` set (members (keys (rdb_of db_of w) (make_key E ''ratelimit'' key))))
      (ps @ [(t, p)])"
    unfolding b(1) begins(4) [symmetric] t(1)
    by (rule under_way_mono [OF under_way_begins [OF _ t(2,3)] order_refl known])
      (use begins.IH in \<open>simp_all add: limiter_inv_def Let_def\<close>)
  then show ?case using begins.IH b(2) by (simp add: limiter_inv_def Let_def)
next
  case (turn h ps w i t f p w' h')
  obtain n where n: "t = int n"
    using turn by (fastforce simp: limiter_inv_def Let_def under_way_def)
  show ?case
  proof (cases "Act f = drawing E key win mx t")
    case True
    note d = drawing_turn [OF True [symmetric] turn(4)]
    obtain m o' where u: "os_uuid (e_os E) (outside w) = (m, o')" by (cases "os_uuid (e_os E) (outside w)")
    have fresh: "\<not> issued (outside w) m" "issued o' m" using os_service.uuid_fresh [OF os u] by simp_all
    have keep: "issued (outside w) x \<Longrightarrow> issued o' x" for x
      using os_service.uuid [OF os, of "outside w"] u by (simp add: keeps_issued_def)
    have "h' = h" using turn(7) d(1) by simp
    moreover have "under_way E key win mx (issued o') (fst ` set (members (keys (rdb_of db_of w) (make_key E ''ratelimit'' key))))
        (ps[i := (t, asking E key win mx t m)])"
      by (rule under_way_draws [where known = "issued (outside w)" and known' = "issued o'", OF _ turn(2,3) fresh keep]) (use turn.IH in \<open>simp_all add: limiter_inv_def Let_def\<close>)
    ultimately show ?thesis using turn.IH d u by (simp add: limiter_inv_def Let_def)
  next
    case False
    show ?thesis
      using limiter_script_step [OF turn.IH win turn(2) turn(3) [unfolded n] turn(4) False [unfolded n] turn(5) [unfolded n] turn(6,7)]
      by (simp add: n)
  qed
qed

end

section \<open>Properties\<close>

text \<open>
  C8. However many checks of one key are under way and however their steps interleave, whatever is lost on the wire and
  whenever the key expires: no stretch of the window's length less \<open>D\<close> holds more granted checks than \<open>max_requests\<close>,
  where \<open>D\<close> bounds how much later, by Redis's clock, a script runs than the reading of the clock that it carries says.
  The clock is past the first window and identifiers are unique. That the window loses \<open>D\<close> is no weakness of
  the proof: the example below has two checks granted within 59 seconds where the limit is one a minute.
\<close>

theorem limiter_admits_at_most:
  assumes "redis_env E db_of" and "os_service (e_os E) issued" and "unat win \<le> 2 ^ 43"
    and "\<And>s. 1000 * int (unat win) \<le> fst (os_now (e_os E) s)"
    and "limiter_run E db_of issued key win max_requests c D h ps w"
  shows "admitted (1000 * int (unat win) - int D) T h \<le> unat max_requests"
  using redis_env.limiter_run_inv [OF assms] by (simp add: limiter_inv_def Let_def)


section \<open>An example\<close>

text \<open>
  An example, with a limit of one request a minute. A first check reads the clock; its script runs a second later. A second
  check begins a minute after the first began: its script drops the entry of the first, and both are granted,
  59 seconds apart.
\<close>

definition slow_world :: "nat \<Rightarrow> nat \<Rightarrow> (string \<times> nat) list \<Rightarrow> nat \<Rightarrow> string list \<Rightarrow> (rdb, pg, osstate) world" where
  "slow_world clock rnow z e texts = (ref_world empty_rdb \<lparr>users = [], note_rows = []\<rparr>)
     \<lparr>redis := \<lparr>rclock = 1000000000000 + rnow,
        keys = (if z = [] then Map.empty else [''app:ratelimit:k'' \<mapsto> (RZset z, Some (1000000000000 + e))])\<rparr>,
      outside := \<lparr>oclock = clock, otexts = texts\<rparr>\<rparr>"

lemma run_begins:
  assumes "limiter_run E db_of issued key win mx c D h ps w" and "os_now (e_os E) (outside w) = (t, o')" and "t \<le> 2 ^ 53"
  shows "limiter_run E db_of issued key win mx c D h (ps @ [(t, drawing E key win mx t)]) (w\<lparr>outside := o'\<rparr>)"
proof -
  obtain f where f: "rate_limit_check E key win mx = Act f" by (simp add: rate_limit_check_def Let_def os_act_def act_def)
  obtain p w' where p: "f w = (p, w')" by (cases "f w")
  from limiter_run.begins [OF assms(1) f p refl] check_begins [OF f p] assms(2,3) show ?thesis by simp
qed

lemma run_draws:
  assumes "limiter_run E db_of issued key win mx c D h ps w" and "i < length ps" and "ps ! i = (t, drawing E key win mx t)"
    and "os_uuid (e_os E) (outside w) = (m, o')" and "in_time c D t (rclock (rdb_of db_of w))" and "rclock (rdb_of db_of w) \<le> 2 ^ 53"
  shows "limiter_run E db_of issued key win mx c D h (ps[i := (t, asking E key win mx t m)]) (w\<lparr>outside := o'\<rparr>)"
proof -
  obtain f where f: "drawing E key win mx t = Act f" by (simp add: drawing_def os_act_def act_def)
  obtain p w' where p: "f w = (p, w')" by (cases "f w")
  from limiter_run.turn [OF assms(1,2) assms(3) [unfolded f] p _ _ refl] drawing_turn [OF f p] assms(4-6)
  show ?thesis by simp
qed

lemma run_asks:
  assumes "limiter_run E db_of issued key win mx c D h ps w" and "i < length ps" and "ps ! i = (t, asking E key win mx t m)"
    and "run (asking E key win mx t m) w = (Inr r, w')" and "allowed r"
    and "in_time c D t (rclock (rdb_of db_of w'))" and "rclock (rdb_of db_of w') \<le> 2 ^ 53"
  shows "limiter_run E db_of issued key win mx c D (h @ [rclock (rdb_of db_of w')]) (ps[i := (t, Ret (Inr r))]) w'"
proof -
  obtain f where f: "asking E key win mx t m = Act f" by (simp add: asking_def attempt_def redis_act_def act_def)
  obtain p v where p: "f w = (p, v)" by (cases "f w")
  have "\<exists>x. p = Ret x"
    using f p by (auto simp: asking_def attempt_def redis_act_def act_def split: prod.splits sum.splits)
  then have "p = Ret (Inr r)" "v = w'" using assms(4) f p by auto
  with limiter_run.turn [OF assms(1,2) assms(3) [unfolded f] p _ _ refl] assms(5-7) show ?thesis by (simp add: granted_def)
qed

definition slow_run where
  "slow_run = limiter_run (ref_env 0 Map.empty) (\<lambda>db. db) (\<lambda>s x. x \<in> set (otexts s)) ''k'' 60 1 0 1000"

lemma slow_world_sel [simp]:
  "outside (slow_world clock rnow z e texts) = \<lparr>oclock = clock, otexts = texts\<rparr>"
  "rclock (redis (slow_world clock rnow z e texts)) = 1000000000000 + rnow"
  "keys (redis (slow_world clock rnow z e texts)) = (if z = [] then Map.empty else [''app:ratelimit:k'' \<mapsto> (RZset z, Some (1000000000000 + e))])"
  "(slow_world clock rnow z e texts)\<lparr>outside := \<lparr>oclock = clock', otexts = texts'\<rparr>\<rparr> = slow_world clock' rnow z e texts'"
  by (simp_all add: slow_world_def)

abbreviation (input) asked where
  "asked t m \<equiv> run (asking (ref_env 0 Map.empty) ''k'' 60 1 t m)"

lemma first_asked:
  "\<exists>r. asked 1000000000000 ''u'' (slow_world 0 1000 [] 0 [''u'']) =
     (Inr r, slow_world 0 1000 [(''u'', 1000000000000)] 121000 [''u'']) \<and> allowed r"
  by (simp add: asking_def rate_limit_script_def cache_defs run_simps ref_cmd_defs ref_defs unix_epoch_ms_def slow_world_def
      as_millis_def)

lemma second_asked:
  "\<exists>r. asked 1000000060000 ''uu'' (slow_world 60000 60000 [(''u'', 1000000000000)] 121000 [''uu'', ''u'']) =
     (Inr r, slow_world 60000 60000 [(''uu'', 1000000060000)] 180000 [''uu'', ''u'']) \<and> allowed r"
  by (simp add: asking_def rate_limit_script_def cache_defs run_simps ref_cmd_defs ref_defs unix_epoch_ms_def slow_world_def
      as_millis_def elapse_def put_def live_def fun_eq_iff)

lemma slow_later: "later k (redis (slow_world c1 r1 z e x1)) (redis (slow_world c2 r2 z e x2))"
  if "r1 \<le> r2" and "z = [] \<or> r2 \<le> e"
  using that by (auto simp: later_def live_def)

theorem limiter_admits_at_most_witness:
  "\<exists>ps. slow_run [1000000001000, 1000000060000] ps (slow_world 60000 60000 [(''uu'', 1000000060000)] 180000 [''uu'', ''u'']) \<and>
   admitted 59000 1000000060000 [1000000001000, 1000000060000] \<le> 1 \<and>
   admitted 60000 1000000060000 [1000000001000, 1000000060000] = 2"
proof -
  let ?E = "ref_env 0 Map.empty" and ?lim = "limiter_run (ref_env 0 Map.empty) (\<lambda>db. db) (\<lambda>s x. x \<in> set (otexts s)) ''k'' 60 1 0 1000"
  let ?draw = "\<lambda>t. drawing ?E ''k'' 60 1 t" and ?ask = "\<lambda>t m. asking ?E ''k'' 60 1 t m"
  obtain r1 where 1: "asked 1000000000000 ''u'' (slow_world 0 1000 [] 0 [''u'']) =
     (Inr r1, slow_world 0 1000 [(''u'', 1000000000000)] 121000 [''u''])" "allowed r1"
    using first_asked by blast
  obtain r2 where 2: "asked 1000000060000 ''uu'' (slow_world 60000 60000 [(''u'', 1000000000000)] 121000 [''uu'', ''u'']) =
     (Inr r2, slow_world 60000 60000 [(''uu'', 1000000060000)] 180000 [''uu'', ''u''])" "allowed r2"
    using second_asked by blast
  have "?lim [] [] (slow_world 0 0 [] 0 [])"
    by (rule limiter_run.start) (simp add: rdb_of_def)
  from run_begins [OF this, of 1000000000000]
  have "?lim [] [(1000000000000, ?draw 1000000000000)] (slow_world 0 0 [] 0 [])" by (simp add: ref_os_def)
  from limiter_run.other [OF this] have "?lim [] [(1000000000000, ?draw 1000000000000)] (slow_world 0 1000 [] 0 [])"
    by (simp add: rdb_of_def slow_later)
  from run_draws [OF this, of 0 1000000000000 "''u''"]
  have "?lim [] [(1000000000000, ?ask 1000000000000 ''u'')] (slow_world 0 1000 [] 0 [''u''])"
    by (simp add: ref_os_def ref_uuid_def fresh_text_def rdb_of_def in_time_def)
  from run_asks [OF this _ _ 1(1)] 1(2)
  have "?lim [1000000001000] [(1000000000000, Ret (Inr r1))] (slow_world 0 1000 [(''u'', 1000000000000)] 121000 [''u''])"
    by (simp add: rdb_of_def in_time_def)
  from limiter_run.other [OF this, of "slow_world 60000 60000 [(''u'', 1000000000000)] 121000 [''u'']"]
  have "?lim [1000000001000] [(1000000000000, Ret (Inr r1))] (slow_world 60000 60000 [(''u'', 1000000000000)] 121000 [''u''])"
    by (simp add: rdb_of_def slow_later keeps_issued_def)
  from run_begins [OF this, of 1000000060000]
  have "?lim [1000000001000] [(1000000000000, Ret (Inr r1)), (1000000060000, ?draw 1000000060000)]
      (slow_world 60000 60000 [(''u'', 1000000000000)] 121000 [''u''])" by (simp add: ref_os_def)
  from run_draws [OF this, of 1 1000000060000 "''uu''"]
  have "?lim [1000000001000] [(1000000000000, Ret (Inr r1)), (1000000060000, ?ask 1000000060000 ''uu'')]
      (slow_world 60000 60000 [(''u'', 1000000000000)] 121000 [''uu'', ''u''])"
    by (simp add: ref_os_def ref_uuid_def fresh_text_def rdb_of_def in_time_def)
  from run_asks [OF this, of 1, OF _ _ 2(1)] 2(2)
  have h: "?lim [1000000001000, 1000000060000] [(1000000000000, Ret (Inr r1)), (1000000060000, Ret (Inr r2))]
      (slow_world 60000 60000 [(''uu'', 1000000060000)] 180000 [''uu'', ''u''])"
    by (simp add: rdb_of_def in_time_def)
  have "admitted (1000 * int (unat (60 :: u64)) - int 1000) 1000000060000 [1000000001000, 1000000060000] \<le> unat (1 :: u64)"
    by (rule limiter_admits_at_most [OF ref_env.redis_env_axioms _ _ _ h])
      (simp_all add: ref_os.os_service_axioms, simp add: ref_os_def)
  with h show ?thesis by (auto simp: slow_run_def admitted_def)
qed

end
