(* ===== verification/Ttl_Cache.thy ===== *)
theory Ttl_Cache
  imports Prelude
begin

text \<open>
  The interface of the in-process caches: a value put in at an instant is served until its expiry, and
  what was removed is not served. The session cache and the blacklist cache are its two instances.
\<close>

locale ttl_cache =
  fixes lookup :: "string \<Rightarrow> nat \<Rightarrow> 'c \<Rightarrow> 'v option \<times> 'c"
    and expiry_of :: "string \<Rightarrow> 'c \<Rightarrow> nat option"
    and remove :: "string \<Rightarrow> 'c \<Rightarrow> 'c"
  assumes hit: "lookup k now c = (Some v, c') \<Longrightarrow> \<exists>e. expiry_of k c = Some e \<and> now < e"
    and miss: "expiry_of k c = None \<Longrightarrow> fst (lookup k now c) = None"
    and evict: "expiry_of k' (snd (lookup k now c)) = Some e \<Longrightarrow> expiry_of k' c = Some e"
    and removed: "expiry_of k' (remove k c) = (if k' = k then None else expiry_of k' c)"
begin

lemma no_hit_after_remove: "fst (lookup k now (remove k c)) = None"
  by (rule miss) (simp add: removed)

lemma hit_bound:
  assumes "\<And>e. expiry_of k c = Some e \<Longrightarrow> e \<le> t + ttl" and "fst (lookup k now c) = Some v"
  shows "now < t + ttl"
proof -
  obtain c' where "lookup k now c = (Some v, c')" using assms(2) by (cases "lookup k now c") simp
  from hit [OF this] obtain e where "expiry_of k c = Some e" "now < e" by blast
  with assms(1) show ?thesis by force
qed

text \<open>A lookup after a lookup: eviction never makes an entry live again.\<close>

lemma stays_gone: "expiry_of k c = None \<Longrightarrow> expiry_of k (snd (lookup k' now c)) = None"
  using evict by (metis not_None_eq)

end

end
