(* ===== verification/Session.thy ===== *)
theory Session
  imports Rate_Limit Ttl_Cache
begin

text \<open>
  The session store (\<open>backend/cache/src/session.rs\<close>): sessions in Redis with an index of the sessions of
  each user, and the in-process cache of session lookups. No critical section of the cache's mutex can
  panic, so the mutex is never poisoned.
\<close>

section \<open>The in-process cache\<close>

definition max_session_cache_entries :: nat where
  "max_session_cache_entries = 100000"

text \<open>Milliseconds of the monotonic clock.\<close>

definition session_cache_ttl :: nat where
  "session_cache_ttl = 300 * 1000"

type_synonym scache = "(nat \<times> session) hmap"

definition scache_lookup :: "string \<Rightarrow> nat \<Rightarrow> scache \<Rightarrow> session option \<times> scache" where
  "scache_lookup sid now m = (case hm_get m sid of
       Some (expiry, s) \<Rightarrow> if now < expiry then (Some s, m) else (None, hm_remove sid m)
     | None \<Rightarrow> (None, m))"

definition scache_put :: "string \<Rightarrow> session \<Rightarrow> nat \<Rightarrow> scache \<Rightarrow> scache" where
  "scache_put sid s now m =
     (let m' = (if max_session_cache_entries \<le> length m then [] else m) in
      hm_insert sid (now + session_cache_ttl, s) m')"

definition scache_expiry :: "string \<Rightarrow> scache \<Rightarrow> nat option" where
  "scache_expiry sid m = map_option fst (hm_get m sid)"

interpretation scache: ttl_cache scache_lookup scache_expiry hm_remove
  by unfold_locales (auto simp: scache_lookup_def scache_expiry_def split: option.splits prod.splits if_splits)

text \<open>\<open>get_or_init\<close> of the \<open>OnceLock\<close>.\<close>

definition get_or_init :: "'v hmap option \<Rightarrow> 'v hmap" where
  "get_or_init c = (case c of Some m \<Rightarrow> m | None \<Rightarrow> [])"

definition session_cache_get ::
  "('r, 'd, 'o) env \<Rightarrow> string \<Rightarrow> (('r, 'd, 'o) world, session option) prog" where
  "session_cache_get E sid = act (\<lambda>w.
     case os_instant (e_os E) (outside w) of (now, o') \<Rightarrow>
       (case scache_lookup sid now (get_or_init (session_cache w)) of
          (r, m) \<Rightarrow> (r, w\<lparr>session_cache := Some m, outside := o'\<rparr>)))"

definition session_cache_put ::
  "('r, 'd, 'o) env \<Rightarrow> string \<Rightarrow> session \<Rightarrow> (('r, 'd, 'o) world, unit) prog" where
  "session_cache_put E sid s = act (\<lambda>w.
     case os_instant (e_os E) (outside w) of (now, o') \<Rightarrow>
       ((), w\<lparr>session_cache := Some (scache_put sid s now (get_or_init (session_cache w))), outside := o'\<rparr>))"

definition session_cache_remove :: "string \<Rightarrow> (('r, 'd, 'o) world, unit) prog" where
  "session_cache_remove sid = act (\<lambda>w. ((), case session_cache w of
       None \<Rightarrow> w
     | Some m \<Rightarrow> w\<lparr>session_cache := Some (hm_remove sid m)\<rparr>))"

definition session_cache_retain :: "(session \<Rightarrow> bool) \<Rightarrow> (('r, 'd, 'o) world, unit) prog" where
  "session_cache_retain P = act (\<lambda>w.
     ((), w\<lparr>session_cache := Some (hm_retain (\<lambda>_ (_, s). P s) (get_or_init (session_cache w)))\<rparr>))"

text \<open>What the cache holds for a session, what a lookup would be served now, and the reading of the clock after it.\<close>

definition copy_entry :: "string \<Rightarrow> ('r, 'd, 'o) world \<Rightarrow> (nat \<times> session) option" where
  "copy_entry sid w = hm_get (get_or_init (session_cache w)) sid"

definition fresh_copy :: "('r, 'd, 'o) env \<Rightarrow> string \<Rightarrow> ('r, 'd, 'o) world \<Rightarrow> session option" where
  "fresh_copy E sid w = fst (scache_lookup sid (fst (os_instant (e_os E) (outside w))) (get_or_init (session_cache w)))"

definition second_instant :: "('r, 'd, 'o) env \<Rightarrow> ('r, 'd, 'o) world \<Rightarrow> nat" where
  "second_instant E w = fst (os_instant (e_os E) (snd (os_instant (e_os E) (outside w))))"

lemma no_copy: "scache_expiry sid (get_or_init (session_cache w)) = None \<Longrightarrow> fresh_copy E sid w = None"
  unfolding fresh_copy_def by (rule scache.miss)

section \<open>Operations\<close>

definition session_create_script ::
  "'r redis_ops \<Rightarrow> string \<Rightarrow> string \<Rightarrow> string \<Rightarrow> string \<Rightarrow> u64 \<Rightarrow> ('r, string) cmd" where
  "session_create_script R key user_key j sid ttl =
     cbind (r_set_ex R key j (uint ttl)) (\<lambda>_.
     cbind (r_sadd R user_key sid) (\<lambda>_.
     cbind (r_expire R user_key (uint ttl)) (\<lambda>_. cret sid)))"

definition session_create :: "('r, 'd, 'o) env \<Rightarrow> session \<Rightarrow> u64 \<Rightarrow> ('r, 'd, 'o, string) cached" where
  "session_create E s ttl =
     bind (os_act E os_uuid) (\<lambda>sid.
     let key = make_key E ''session'' sid; user_key = make_key E ''user_sessions'' (user_id s) in
     attempt (Ret (map_err SerializationFailed (enc (session_codec (e_lib E)) s))) (\<lambda>j.
     redis_act E (session_create_script (e_redis E) key user_key j sid ttl)))"

definition session_destroy_all_for_user ::
  "('r, 'd, 'o) env \<Rightarrow> string \<Rightarrow> (('r, 'd, 'o) world, unit) prog" where
  "session_destroy_all_for_user E uid =
     (let user_key = make_key E ''user_sessions'' uid; temp_key = user_key @ '':destroying'' in
      bind (redis_act E (r_rename (e_redis E) user_key temp_key)) (\<lambda>renamed.
      case renamed of Inl _ \<Rightarrow> Ret () | Inr _ \<Rightarrow>
      bind (redis_act E (r_smembers (e_redis E) temp_key)) (\<lambda>members.
      let session_ids = (case members of Inl _ \<Rightarrow> [] | Inr xs \<Rightarrow> xs) in
      bind (redis_act E (r_del (e_redis E) [temp_key])) (\<lambda>_.
      let session_keys = map (make_key E ''session'') session_ids in
      bind (redis_act E (r_del (e_redis E) session_keys)) (\<lambda>_.
      session_cache_retain (\<lambda>s. user_id s \<noteq> uid))))))"

definition session_get :: "('r, 'd, 'o) env \<Rightarrow> string \<Rightarrow> ('r, 'd, 'o, session) cached" where
  "session_get E sid =
     bind (session_cache_get E sid) (\<lambda>hit. case hit of Some s \<Rightarrow> Ret (Inr s) | None \<Rightarrow>
     let key = make_key E ''session'' sid in
     attempt (redis_act E (r_get (e_redis E) key)) (\<lambda>result. case result of
         Some j \<Rightarrow> (case dec (session_codec (e_lib E)) j of
             Inl e \<Rightarrow> Ret (Inl (SerializationFailed e))
           | Inr s \<Rightarrow> bind (session_cache_put E sid s) (\<lambda>_. Ret (Inr s)))
       | None \<Rightarrow> Ret (Inl SessionNotFound)))"

definition session_destroy_script ::
  "(string \<Rightarrow> string + string option) \<Rightarrow> 'r redis_ops \<Rightarrow> string \<Rightarrow> string \<Rightarrow> string \<Rightarrow> ('r, int) cmd" where
  "session_destroy_script cjson R key sid user_prefix =
     cbind (r_get R key) (\<lambda>j.
     let rest = cbind (r_del R [key]) (\<lambda>_. cret 1) in
     case j of None \<Rightarrow> rest | Some j \<Rightarrow>
       (case cjson j of
          Inl e \<Rightarrow> (\<lambda>r. (Inl e, r))
        | Inr None \<Rightarrow> rest
        | Inr (Some uid) \<Rightarrow> cbind (r_srem R (user_prefix @ '':'' @ uid) sid) (\<lambda>_. rest)))"

definition session_destroy :: "('r, 'd, 'o) env \<Rightarrow> string \<Rightarrow> ('r, 'd, 'o, unit) cached" where
  "session_destroy E sid =
     (let key = make_key E ''session'' sid; user_prefix = e_prefix E @ '':user_sessions'' in
      attempt (redis_act E (session_destroy_script (cjson_user_id (e_lib E)) (e_redis E) key sid user_prefix))
        (\<lambda>_. bind (session_cache_remove sid) (\<lambda>_. Ret (Inr ()))))"

definition session_refresh :: "('r, 'd, 'o) env \<Rightarrow> string \<Rightarrow> u64 \<Rightarrow> ('r, 'd, 'o, unit) cached" where
  "session_refresh E sid ttl =
     (let key = make_key E ''session'' sid in redis_act E (r_expire (e_redis E) key (sint ttl)))"

lemma session_frame [frame]:
  "keeps db (session_create E s ttl)" "keeps session_cache (session_create E s ttl)"
  "keeps db (session_get E sid)" "keeps blacklist_cache (session_get E sid)"
  "keeps db (session_destroy E sid)" "keeps blacklist_cache (session_destroy E sid)"
  "keeps db (session_destroy_all_for_user E uid)"
proof -
  have c: "keeps db (session_cache_get E sid)" "keeps blacklist_cache (session_cache_get E sid)"
    "keeps db (session_cache_put E sid s)" "keeps blacklist_cache (session_cache_put E sid s)"
    "keeps db (session_cache_remove sid)" "keeps blacklist_cache (session_cache_remove sid)"
    "keeps db (session_cache_retain P)" for E :: "('r, 'd, 'o) env" and sid s P
    unfolding session_cache_get_def session_cache_put_def session_cache_remove_def session_cache_retain_def
    by (rule keeps_act; simp split: prod.split option.split)+
  show "keeps db (session_create E s ttl)" "keeps session_cache (session_create E s ttl)"
    unfolding session_create_def Let_def by (intro keeps_bind keeps_attempt keeps_Ret frame)+
  show "keeps db (session_get E sid)" "keeps blacklist_cache (session_get E sid)"
    unfolding session_get_def Let_def
    by (intro keeps_bind keeps_attempt keeps_Ret frame c; auto intro!: keeps_attempt keeps_bind frame c
        split: option.split sum.split)+
  show "keeps db (session_destroy E sid)" "keeps blacklist_cache (session_destroy E sid)"
    unfolding session_destroy_def Let_def by (intro keeps_bind keeps_attempt keeps_Ret frame c)+
  show "keeps db (session_destroy_all_for_user E uid)"
    unfolding session_destroy_all_for_user_def Let_def
    by (auto intro!: keeps_bind frame c split: sum.split)
qed

section \<open>What the scripts do on the server\<close>

lemma create_script_ref:
  assumes "session_create_script (ref_redis 0) key ukey j sid ttl d = (Inr r, d')" and "key \<noteq> ukey"
  shows "r = sid" and "rclock d' = rclock d"
    and "keys d' key = Some (RStr j, Some (rclock d + 1000 * unat ttl))"
proof -
  obtain d1 where s: "ref_set_ex key j (uint ttl) d = (Inr (), d1)"
    and c: "cbind (ref_sadd ukey sid) (\<lambda>_. cbind (ref_expire ukey (uint ttl)) (\<lambda>_. cret sid)) d1 = (Inr r, d')"
    using assms(1) by (auto simp: session_create_script_def cbind_def split: sum.splits prod.splits)
  obtain d2 where a: "ref_sadd ukey sid d1 = (Inr (), d2)"
    and e: "cbind (ref_expire ukey (uint ttl)) (\<lambda>_. cret sid) d2 = (Inr r, d')"
    using c by (auto simp: cbind_def split: sum.splits prod.splits)
  have 1: "keys d1 key = Some (RStr j, Some (rclock d + 1000 * unat ttl))" "rclock d1 = rclock d"
    using s by (auto simp: ref_set_ex_def split: if_splits)
  have 2: "keys d2 key = keys d1 key" "rclock d2 = rclock d1"
    using a assms(2) by (auto simp: ref_sadd_def put_set_def split: sum.splits if_splits)
  have 3: "keys d' key = keys d2 key" "rclock d' = rclock d2" "r = sid"
    using e assms(2) by (auto simp: cbind_def cret_def ref_expire_def split: option.splits prod.splits if_splits)
  show "r = sid" "rclock d' = rclock d"
    "keys d' key = Some (RStr j, Some (rclock d + 1000 * unat ttl))"
    using 1 2 3 by simp_all
qed

lemma destroy_script_ref:
  assumes "session_destroy_script cj (ref_redis 0) key sid pre d = (Inr r, d')"
  shows "keys d' key = None"
proof -
  have last: "cbind (ref_del [key]) (\<lambda>_. cret 1) d1 = (Inr r, d') \<Longrightarrow> keys d' key = None" for d1
    by (auto simp: cbind_def cret_def ref_del_def)
  obtain j d1 where "ref_get key d = (Inr j, d1)"
    using assms by (auto simp: session_destroy_script_def cbind_def split: sum.splits prod.splits)
  then have "(let rest = cbind (ref_del [key]) (\<lambda>_. cret 1) in
     case j of None \<Rightarrow> rest | Some j \<Rightarrow>
       (case cj j of Inl e \<Rightarrow> (\<lambda>r. (Inl e, r)) | Inr None \<Rightarrow> rest
        | Inr (Some uid) \<Rightarrow> cbind (ref_srem (pre @ '':'' @ uid) sid) (\<lambda>_. rest))) d1 = (Inr r, d')"
    using assms unfolding session_destroy_script_def ref_ops by (simp add: cbind_def [of "ref_get key"])
  then show ?thesis
    by (auto simp: Let_def cbind_def [of "ref_srem a b" for a b] intro: last
        split: option.splits sum.splits prod.splits)
qed

lemma session_keys_differ:
  "make_key E ''session'' sid \<noteq> make_key E ''user_sessions'' uid"
  by (simp add: make_key_inject)

context redis_env
begin

lemma create_sim:
  "simulates db_of (session_create_script (e_redis E) key ukey j sid ttl)
     (session_create_script (ref_redis 0) key ukey j sid ttl)"
  unfolding session_create_script_def ref_ops by (intro simulates_cbind set_ex sadd expire simulates_cret)

lemma destroy_sim:
  "simulates db_of (session_destroy_script cj (e_redis E) key sid pre)
     (session_destroy_script cj (ref_redis 0) key sid pre)"
  unfolding session_destroy_script_def ref_ops Let_def
  by (intro simulates_cbind get option_simulates)
    (auto split: sum.split option.split intro!: simulates_cbind del srem simulates_cret simp: simulates_def [of _ "\<lambda>r. (Inl _, r)"])

lemma session_create_run:
  assumes "run (session_create E s ttl) w = (Inr sid, w')" and "codec_ok (session_codec (e_lib E))"
  obtains j where "dec (session_codec (e_lib E)) j = Inr s"
    and "keys (rdb_of db_of w') (make_key E ''session'' sid) =
           Some (RStr j, Some (rclock (rdb_of db_of w') + 1000 * unat ttl))"
proof -
  let ?ukey = "make_key E ''user_sessions'' (user_id s)"
  obtain sid' o' where u: "os_uuid (e_os E) (outside w) = (sid', o')"
    by (cases "os_uuid (e_os E) (outside w)")
  obtain j where j: "enc (session_codec (e_lib E)) s = Inr j" "dec (session_codec (e_lib E)) j = Inr s"
    using assms(2) unfolding codec_ok_def by blast
  let ?k = "make_key E ''session'' sid'" and ?w = "w\<lparr>outside := o'\<rparr>"
  have r: "run (redis_act E (session_create_script (e_redis E) ?k ?ukey j sid' ttl)) ?w = (Inr sid, w')"
    using assms(1) by (simp add: session_create_def Let_def run_bind run_os_act u run_attempt run_Ret j)
  obtain dt where "session_create_script (ref_redis 0) ?k ?ukey j sid' ttl (elapse dt (rdb_of db_of ?w)) =
      (Inr sid, rdb_of db_of w')"
    by (rule redis_act_Inr [OF create_sim r])
  from create_script_ref [OF this session_keys_differ] j(2) show thesis
    by (intro that [of j]) simp_all
qed

text \<open>A lookup that the in-process cache does not answer.\<close>

lemma session_get_miss:
  assumes run: "run (session_get E sid) w = (r, w')"
    and miss: "fresh_copy E sid w = None"
    and answered: "\<And>m. r \<noteq> Inl (CommandFailed m)"
  obtains dt x d where "ref_get (make_key E ''session'' sid) (elapse dt (rdb_of db_of w)) = (Inr x, d)"
    and "rdb_of db_of w' = d"
    and "r = (case x of None \<Rightarrow> Inl SessionNotFound
                | Some j \<Rightarrow> map_err SerializationFailed (dec (session_codec (e_lib E)) j))"
    and "copy_entry sid w' = (case r of Inr s \<Rightarrow> Some (second_instant E w + session_cache_ttl, s) | Inl _ \<Rightarrow> None)"
proof -
  let ?key = "make_key E ''session'' sid"
  obtain now o' where i: "os_instant (e_os E) (outside w) = (now, o')"
    by (cases "os_instant (e_os E) (outside w)")
  obtain m where m: "scache_lookup sid now (get_or_init (session_cache w)) = (None, m)"
    using miss i by (cases "scache_lookup sid now (get_or_init (session_cache w))") (simp add: fresh_copy_def)
  have gone: "hm_get m sid = None"
    using m by (auto simp: scache_lookup_def split: option.splits prod.splits if_splits)
  obtain w1 where c: "run (session_cache_get E sid) w = (None, w1)" and w1: "redis w1 = redis w"
      "session_cache w1 = Some m" "outside w1 = o'"
    using i m by (simp add: session_cache_get_def run_act)
  obtain x w2 where a: "run (redis_act E (r_get (e_redis E) ?key)) w1 = (x, w2)"
    by (cases "run (redis_act E (r_get (e_redis E) ?key)) w1")
  obtain y where y: "x = map_err CommandFailed y"
    and wire: "wire_step (rdb_of db_of w1) (ref_get ?key) y (rdb_of db_of w2)" and w2: "w2 = w1\<lparr>redis := redis w2\<rparr>"
    by (rule redis_act_run [OF get a])
  note run' = run [unfolded session_get_def Let_def run_bind c prod.case option.case run_attempt a y]
  obtain z where z: "y = Inr z"
    using run' answered by (cases y) auto
  obtain dt where g: "ref_get ?key (elapse dt (rdb_of db_of w)) = (Inr z, rdb_of db_of w2)"
    using wire_step_Inr [OF wire [unfolded z]] w1 by (auto simp: rdb_of_def)
  have keep: "session_cache w2 = Some m" "outside w2 = o'" by (subst w2, simp add: w1)+
  have p: "rdb_of db_of (snd (run (session_cache_put E sid s) w2)) = rdb_of db_of w2"
    "copy_entry sid (snd (run (session_cache_put E sid s) w2)) = Some (second_instant E w + session_cache_ttl, s)" for s
    using keep i by (simp_all add: session_cache_put_def run_act copy_entry_def second_instant_def get_or_init_def
        scache_put_def split: prod.split)
  have n: "copy_entry sid w2 = None" using keep gone by (simp add: copy_entry_def get_or_init_def)
  have "rdb_of db_of w' = rdb_of db_of w2" and "r = (case z of None \<Rightarrow> Inl SessionNotFound
      | Some j \<Rightarrow> map_err SerializationFailed (dec (session_codec (e_lib E)) j))"
    and "copy_entry sid w' = (case r of Inr s \<Rightarrow> Some (second_instant E w + session_cache_ttl, s) | Inl _ \<Rightarrow> None)"
    using run' p n by (auto simp: z run_Ret run_bind split: option.splits sum.splits prod.splits) (metis snd_conv)+
  then show thesis using that [OF g] by blast
qed

text \<open>A lookup that it does answer.\<close>

lemma session_get_hit:
  assumes "run (session_get E sid) w = (r, w')" and "fresh_copy E sid w = Some s"
  shows "r = Inr s" and "copy_entry sid w' = copy_entry sid w"
  using assms
  by (auto simp: session_get_def run_bind session_cache_get_def run_act run_Ret fresh_copy_def copy_entry_def
      get_or_init_def scache_lookup_def split: prod.splits option.splits if_splits)

lemma create_then_get:
  assumes c: "codec_ok (session_codec (e_lib E))"
    and create: "run (session_create E s ttl) w = (Inr sid, w1)"
    and later: "later (make_key E ''session'' sid) (rdb_of db_of w1) (rdb_of db_of w2)"
    and get: "run (session_get E sid) w2 = (r, w3)" and answered: "\<And>m. r \<noteq> Inl (CommandFailed m)"
  shows "case fresh_copy E sid w2 of
      Some copy \<Rightarrow> r = Inr copy \<and> copy_entry sid w3 = copy_entry sid w2
    | None \<Rightarrow> if rclock (rdb_of db_of w3) \<le> rclock (rdb_of db_of w1) + 1000 * unat ttl
        then r = Inr s \<and> copy_entry sid w3 = Some (second_instant E w2 + session_cache_ttl, s)
        else r = Inl SessionNotFound \<and> copy_entry sid w3 = None"
proof (cases "fresh_copy E sid w2")
  case (Some copy)
  then show ?thesis using session_get_hit [OF get Some] by simp
next
  case None
  let ?k = "make_key E ''session'' sid"
  obtain j where j: "dec (session_codec (e_lib E)) j = Inr s"
    and k: "keys (rdb_of db_of w1) ?k = Some (RStr j, Some (rclock (rdb_of db_of w1) + 1000 * unat ttl))"
    by (rule session_create_run [OF create c])
  obtain dt x d where g: "ref_get ?k (elapse dt (rdb_of db_of w2)) = (Inr x, d)" and d: "rdb_of db_of w3 = d"
    and r: "r = (case x of None \<Rightarrow> Inl SessionNotFound
                | Some j \<Rightarrow> map_err SerializationFailed (dec (session_codec (e_lib E)) j))"
    and e: "copy_entry sid w3 = (case r of Inr s \<Rightarrow> Some (second_instant E w2 + session_cache_ttl, s) | Inl _ \<Rightarrow> None)"
    by (rule session_get_miss [OF get None answered])
  have d': "d = elapse dt (rdb_of db_of w2)"
    using g by (auto simp: ref_get_def split: option.splits rdata.splits)
  have "later ?k (rdb_of db_of w1) d" unfolding d' by (rule later_trans [OF later later_elapse])
  then have "keys d ?k = (if rclock d \<le> rclock (rdb_of db_of w1) + 1000 * unat ttl
      then Some (RStr j, Some (rclock (rdb_of db_of w1) + 1000 * unat ttl)) else None)"
    using k by (simp add: later_def live_def)
  then show ?thesis
    using g r e j d d' None by (auto simp: ref_get_def split: if_splits)
qed

lemma destroy_then_get:
  assumes destroy: "run (session_destroy E sid) w = (Inr (), w1)"
    and later: "later (make_key E ''session'' sid) (rdb_of db_of w1) (rdb_of db_of w2)"
    and miss: "scache_expiry sid (get_or_init (session_cache w2)) = None"
    and get: "run (session_get E sid) w2 = (r, w3)" and answered: "\<And>m. r \<noteq> Inl (CommandFailed m)"
  shows "r = Inl SessionNotFound"
proof -
  let ?k = "make_key E ''session'' sid"
  let ?c = "\<lambda>R. session_destroy_script (cjson_user_id (e_lib E)) R ?k sid (e_prefix E @ '':user_sessions'')"
  obtain x v where a: "run (redis_act E (?c (e_redis E))) w = (x, v)"
    by (cases "run (redis_act E (?c (e_redis E))) w")
  with destroy obtain i where x: "x = Inr i" and v: "rdb_of db_of w1 = rdb_of db_of v"
    by (auto simp: session_destroy_def Let_def run_simps session_cache_remove_def split: sum.splits option.splits)
  obtain dt where "?c (ref_redis 0) (elapse dt (rdb_of db_of w)) = (Inr i, rdb_of db_of v)"
    by (rule redis_act_Inr [OF destroy_sim a [unfolded x]])
  then have "keys (rdb_of db_of w1) ?k = None" unfolding v by (rule destroy_script_ref)
  with later have n: "keys (rdb_of db_of w2) ?k = None" by (simp add: later_def)
  obtain dt x d where g: "ref_get ?k (elapse dt (rdb_of db_of w2)) = (Inr x, d)"
    and r: "r = (case x of None \<Rightarrow> Inl SessionNotFound
                | Some j \<Rightarrow> map_err SerializationFailed (dec (session_codec (e_lib E)) j))"
    by (rule session_get_miss [OF get no_copy [OF miss] answered])
  from g elapse_None [OF n] r show ?thesis by (simp add: ref_get_def)
qed

end

section \<open>Destroying all sessions of a user\<close>

text \<open>Every request is delivered and answered.\<close>

definition reliable :: "'r redis_ops \<Rightarrow> bool" where
  "reliable R \<longleftrightarrow> (\<forall>r. fst (r_link R r) = Delivered)"

text \<open>The index of a user's sessions: every session of the user is in the set, which lives as long.\<close>

definition indexed :: "('r, 'd, 'o) env \<Rightarrow> string \<Rightarrow> rdb \<Rightarrow> bool" where
  "indexed E uid d \<longleftrightarrow> (\<forall>sid j e s. keys d (make_key E ''session'' sid) = Some (RStr j, e) \<longrightarrow>
     dec (session_codec (e_lib E)) j = Inr s \<longrightarrow> user_id s = uid \<longrightarrow>
     (\<exists>xs es. keys d (make_key E ''user_sessions'' uid) = Some (RSet xs, es) \<and> sid \<in> set xs \<and>
        (\<forall>t. es = Some t \<longrightarrow> (\<exists>u. e = Some u \<and> u \<le> t))))"

definition session_of :: "('r, 'd, 'o) env \<Rightarrow> string \<Rightarrow> rdb \<Rightarrow> session option" where
  "session_of E sid d = (case keys d (make_key E ''session'' sid) of
       Some (RStr j, _) \<Rightarrow> (case dec (session_codec (e_lib E)) j of Inr s \<Rightarrow> Some s | Inl _ \<Rightarrow> None)
     | _ \<Rightarrow> None)"

definition temp_key :: "('r, 'd, 'o) env \<Rightarrow> string \<Rightarrow> string" where
  "temp_key E uid = make_key E ''user_sessions'' uid @ '':destroying''"

lemma temp_key_differs [simp]:
  "temp_key E uid \<noteq> make_key E ''session'' sid" "make_key E ''session'' sid \<noteq> temp_key E uid"
  "make_key E ''session'' sid \<noteq> make_key E ''user_sessions'' uid"
  "make_key E ''user_sessions'' uid \<noteq> make_key E ''session'' sid"
  "temp_key E uid \<noteq> make_key E ''user_sessions'' uid"
proof -
  have t: "temp_key E uid = make_key E ''user_sessions'' (uid @ '':destroying'')"
    by (simp add: temp_key_def make_key_def)
  show "temp_key E uid \<noteq> make_key E ''session'' sid" "make_key E ''session'' sid \<noteq> temp_key E uid"
    "make_key E ''session'' sid \<noteq> make_key E ''user_sessions'' uid"
    "make_key E ''user_sessions'' uid \<noteq> make_key E ''session'' sid"
    "temp_key E uid \<noteq> make_key E ''user_sessions'' uid"
    unfolding t by (simp_all add: make_key_inject)
qed

text \<open>The four requests on the server, with the time that passes before each.\<close>

lemma destroy_all_ref:
  assumes idx: "indexed E uid d"
    and d1: "ref_rename (make_key E ''user_sessions'' uid) (temp_key E uid) (elapse t1 d) = (x1, d1)"
    and d2: "ref_smembers (temp_key E uid) (elapse t2 d1) = (Inr ids, d2) \<or>
             ref_smembers (temp_key E uid) (elapse t2 d1) = (Inl e2, d2) \<and> ids = []"
    and d3: "d3 = drop_keys [temp_key E uid] (elapse t3 d2)"
    and d4: "d4 = drop_keys (map (make_key E ''session'') ids) (elapse t4 d3)"
  shows "x1 = Inr () \<Longrightarrow> session_of E sid d = Some s \<Longrightarrow> user_id s = uid \<Longrightarrow>
     keys d4 (make_key E ''session'' sid) = None"
    and "x1 = Inl e1 \<Longrightarrow> session_of E sid d = Some s \<Longrightarrow> user_id s = uid \<Longrightarrow>
     keys d1 (make_key E ''session'' sid) = None"
proof -
  let ?k = "make_key E ''session'' sid" and ?u = "make_key E ''user_sessions'' uid"
  assume s: "session_of E sid d = Some s" "user_id s = uid"
  then obtain j e where k: "keys d ?k = Some (RStr j, e)" "dec (session_codec (e_lib E)) j = Inr s"
    by (auto simp: session_of_def split: option.splits prod.splits rdata.splits sum.splits)
  with idx s obtain xs es where u: "keys d ?u = Some (RSet xs, es)" "sid \<in> set xs"
    and es: "\<And>t. es = Some t \<Longrightarrow> \<exists>v. e = Some v \<and> v \<le> t"
    unfolding indexed_def by blast
  have u1: "keys (elapse t1 d) ?k = None" if "keys (elapse t1 d) ?u = None"
    using that u k es by (cases es) (auto simp: keys_elapse split: if_splits)
  have u1': "keys (elapse t1 d) ?u = Some (RSet xs, es)" if "keys (elapse t1 d) ?u \<noteq> None"
    using that u by (cases es) (auto simp: keys_elapse split: if_splits)
  show "keys d1 ?k = None" if "x1 = Inl e1"
    using that d1 u1 by (cases "keys (elapse t1 d) ?u") (auto simp: ref_rename_def)
  show "keys d4 ?k = None" if "x1 = Inr ()"
  proof -
    have live: "keys (elapse t1 d) ?u \<noteq> None"
      using d1 that by (cases "keys (elapse t1 d) ?u") (auto simp: ref_rename_def)
    have d1': "d1 = put (temp_key E uid) (RSet xs, es) (drop_keys [?u] (elapse t1 d))"
      using d1 u1' [OF live] by (simp add: ref_rename_def)
    have c2: "rclock d2 = rclock d + t1 + t2" and same: "keys d2 ?k = keys (elapse t2 d1) ?k"
      using d2 d1' by (auto simp: ref_smembers_def split: sum.splits)
    have k2: "keys (elapse t2 d1) ?k = keys (elapse (t1 + t2) d) ?k"
      using k d1' by (cases e) (auto simp: keys_elapse)
    show ?thesis
    proof (cases "keys d2 ?k")
      case None
      then have "keys d3 ?k = None" by (simp add: d3 elapse_None)
      then show ?thesis by (simp add: d4 elapse_None)
    next
      case (Some v)
      then have "\<forall>v. e = Some v \<longrightarrow> rclock d + (t1 + t2) \<le> v"
        using same k2 k by (cases e) (auto simp: keys_elapse split: if_splits)
      then have "\<forall>t. es = Some t \<longrightarrow> rclock d + (t1 + t2) \<le> t" using es by force
      then have "keys (elapse t2 d1) (temp_key E uid) = Some (RSet xs, es)"
        by (cases es) (auto simp: keys_elapse d1')
      then have "ids = xs" using d2 by (auto simp: ref_smembers_def set_of_def)
      then show ?thesis using u(2) by (simp add: d4)
    qed
  qed
qed

context redis_env
begin

lemma reliable_run:
  assumes rel: "reliable (e_redis E)" and sim: "simulates db_of c c'"
  obtains dt x r where "c' (elapse dt (rdb_of db_of w)) = (x, db_of r)"
    and "run (redis_act E c) w = (map_err CommandFailed x, w\<lparr>redis := r\<rparr>)"
proof -
  obtain r1 where l: "r_link (e_redis E) (redis w) = (Delivered, r1)"
    using rel by (metis prod.collapse reliable_def)
  obtain x r where c: "c r1 = (x, r)" by (cases "c r1")
  from link [of "redis w"] l obtain dt where "db_of r1 = elapse dt (db_of (redis w))" by auto
  with simulatesD [OF sim c] have "c' (elapse dt (rdb_of db_of w)) = (x, db_of r)"
    by (simp add: rdb_of_def)
  moreover have "run (redis_act E c) w = (map_err CommandFailed x, w\<lparr>redis := r\<rparr>)"
    by (simp add: run_redis_act redis_send_def l c)
  ultimately show thesis by (rule that)
qed

lemma destroy_all_sessions:
  assumes rel: "reliable (e_redis E)" and idx: "indexed E uid (rdb_of db_of w)"
    and run: "run (session_destroy_all_for_user E uid) w = ((), w')"
    and s: "session_of E sid (rdb_of db_of w) = Some s" "user_id s = uid"
  shows "keys (rdb_of db_of w') (make_key E ''session'' sid) = None"
proof -
  let ?u = "make_key E ''user_sessions'' uid" and ?t = "temp_key E uid"
  obtain t1 x1 r1 where d1: "ref_rename ?u ?t (elapse t1 (rdb_of db_of w)) = (x1, db_of r1)"
    and run1: "run (redis_act E (r_rename (e_redis E) ?u ?t)) w = (map_err CommandFailed x1, w\<lparr>redis := r1\<rparr>)"
    by (rule reliable_run [OF rel rename])
  show ?thesis
  proof (cases x1)
    case (Inl e1)
    have "w' = w\<lparr>redis := r1\<rparr>"
      using run by (simp add: session_destroy_all_for_user_def Let_def run_bind run1 [unfolded temp_key_def] run_Ret Inl)
    moreover have "keys (db_of r1) (make_key E ''session'' sid) = None"
    proof (rule destroy_all_ref(2) [OF idx d1 _ refl refl Inl s])
      show "ref_smembers ?t (elapse 0 (db_of r1)) =
            (Inr (case fst (ref_smembers ?t (elapse 0 (db_of r1))) of Inl _ \<Rightarrow> [] | Inr xs \<Rightarrow> xs), elapse 0 (db_of r1)) \<or>
          ref_smembers ?t (elapse 0 (db_of r1)) =
            (Inl (projl (fst (ref_smembers ?t (elapse 0 (db_of r1))))), elapse 0 (db_of r1)) \<and>
            (case fst (ref_smembers ?t (elapse 0 (db_of r1))) of Inl _ \<Rightarrow> [] | Inr xs \<Rightarrow> xs) = []"
        by (simp add: ref_smembers_def split: sum.split)
    qed
    ultimately show ?thesis by simp
  next
    case (Inr a)
    let ?w1 = "w\<lparr>redis := r1\<rparr>"
    obtain t2 x2 r2 where d2: "ref_smembers ?t (elapse t2 (rdb_of db_of ?w1)) = (x2, db_of r2)"
      and run2: "run (redis_act E (r_smembers (e_redis E) ?t)) ?w1 = (map_err CommandFailed x2, ?w1\<lparr>redis := r2\<rparr>)"
      by (rule reliable_run [OF rel smembers])
    define ids where "ids = (case x2 of Inl _ \<Rightarrow> [] | Inr xs \<Rightarrow> xs)"
    obtain t3 x3 r3 where d3: "ref_del [?t] (elapse t3 (rdb_of db_of (w\<lparr>redis := r2\<rparr>))) = (x3, db_of r3)"
      and run3: "run (redis_act E (r_del (e_redis E) [?t])) (w\<lparr>redis := r2\<rparr>) = (map_err CommandFailed x3, w\<lparr>redis := r3\<rparr>)"
      by (rule reliable_run [OF rel del, of "[?t]" "w\<lparr>redis := r2\<rparr>"]) simp
    let ?ks = "map (make_key E ''session'') ids"
    obtain t4 x4 r4 where d4: "ref_del ?ks (elapse t4 (rdb_of db_of (w\<lparr>redis := r3\<rparr>))) = (x4, db_of r4)"
      and run4: "run (redis_act E (r_del (e_redis E) ?ks)) (w\<lparr>redis := r3\<rparr>) = (map_err CommandFailed x4, w\<lparr>redis := r4\<rparr>)"
      by (rule reliable_run [OF rel del, of ?ks "w\<lparr>redis := r3\<rparr>"]) simp
    have w': "rdb_of db_of w' = db_of r4"
    proof -
      have ids': "(case map_err CommandFailed x2 of Inl _ \<Rightarrow> [] | Inr xs \<Rightarrow> xs) = ids"
        by (cases x2) (simp_all add: ids_def)
      have "w' = snd (run (session_cache_retain (\<lambda>s. user_id s \<noteq> uid)) (w\<lparr>redis := r4\<rparr>))"
        using run run1 run2 run3 run4
        by (simp add: session_destroy_all_for_user_def Let_def run_bind temp_key_def Inr ids' del: sum.case_eq_if)
      then show ?thesis by (simp add: session_cache_retain_def run_act)
    qed
    have "keys (db_of r4) (make_key E ''session'' sid) = None"
    proof (rule destroy_all_ref(1) [OF idx d1 _ _ _ _ s])
      show "ref_smembers ?t (elapse t2 (db_of r1)) = (Inr ids, db_of r2) \<or>
          ref_smembers ?t (elapse t2 (db_of r1)) = (Inl (projl x2), db_of r2) \<and> ids = []"
        using d2 by (cases x2) (auto simp: ids_def)
      show "db_of r3 = drop_keys [?t] (elapse t3 (db_of r2))" using d3 by (simp add: ref_del_def)
      show "db_of r4 = drop_keys ?ks (elapse t4 (db_of r3))" using d4 by (simp add: ref_del_def)
      show "x1 = Inr ()" using Inr by simp
    qed
    then show ?thesis using w' by simp
  qed
qed

end

section \<open>Properties\<close>


text \<open>
  After \<open>session_destroy\<close> was answered, no lookup that reaches Redis finds
  the session any more, as long as nobody creates the key again.
\<close>

theorem destroyed_session_not_found:
  assumes "redis_env E db_of" and "run (session_destroy E sid) w = (Inr (), w1)"
    and "later (make_key E ''session'' sid) (rdb_of db_of w1) (rdb_of db_of w2)"
    and "scache_expiry sid (get_or_init (session_cache w2)) = None"
    and "run (session_get E sid) w2 = (r, w3)" and "\<And>m. r \<noteq> Inl (CommandFailed m)"
  shows "r = Inl SessionNotFound"
  by (rule redis_env.destroy_then_get [OF assms])

text \<open>
  C10. When every request is answered and the index of the user's
  sessions is complete, \<open>session_destroy_all_for_user\<close> leaves none of the user's sessions in Redis, even
  if the index expires half way.
\<close>

theorem destroy_all_revokes_every_session:
  assumes "redis_env E db_of" and "reliable (e_redis E)" and "indexed E uid (rdb_of db_of w)"
    and "run (session_destroy_all_for_user E uid) w = ((), w')"
    and "session_of E sid (rdb_of db_of w) = Some s" and "user_id s = uid"
  shows "keys (rdb_of db_of w') (make_key E ''session'' sid) = None"
  by (rule redis_env.destroy_all_sessions [OF assms])

lemmas session_defs = session_create_def session_create_script_def session_get_def session_cache_get_def
  session_cache_put_def session_cache_remove_def session_cache_retain_def session_destroy_def
  session_destroy_script_def session_destroy_all_for_user_def scache_lookup_def scache_put_def
  get_or_init_def max_session_cache_entries_def session_cache_ttl_def

text \<open>An example: a session for 60 seconds, looked up, destroyed, looked up again.\<close>

definition ann :: session where
  "ann = \<lparr>user_id = ''ann'', email = ''a@x'', sname = None, provider = ''local'', created_at = 0\<rparr>"

definition with_session :: "(rdb, pg, osstate) world" where
  "with_session = (ref_world empty_rdb \<lparr>users = [], note_rows = []\<rparr>)
     \<lparr>redis := put ''app:user_sessions:ann'' (RSet [''u''], Some 1000000060000)
         (put ''app:session:u'' (RStr (enc_session ann), Some 1000000060000) empty_rdb),
      outside := \<lparr>oclock = 0, otexts = [''u'']\<rparr>\<rparr>"

definition without_session :: "(rdb, pg, osstate) world" where
  "without_session = with_session\<lparr>redis := empty_rdb\<rparr>"

lemma dec_enc_ann [simp]: "dec_session (enc_session ann) = Inr ann"
  by (simp add: enc_session_def dec_session_def)

lemma elapse_0_put2 [simp]:
  "keys d = Map.empty \<Longrightarrow> rclock d \<le> e \<Longrightarrow> rclock d \<le> e' \<Longrightarrow>
   elapse 0 (put k (v, Some e) (put k' (v', Some e') d)) = put k (v, Some e) (put k' (v', Some e') d)"
  by (cases d) (auto simp: elapse_def put_def live_def fun_eq_iff)




lemma run_destroy_ann:
  "run (session_destroy (ref_env 0 Map.empty) ''u'') with_session = (Inr (), without_session)"
proof -
  have "drop_keys [''app:session:u''] (drop_keys [''app:user_sessions:ann''] (redis with_session)) = empty_rdb"
    by (simp add: with_session_def empty_rdb_def drop_keys_def put_def fun_eq_iff)
  moreover have "user_id ann = ''ann''" by (simp add: ann_def)
  ultimately show ?thesis
    by (simp add: session_defs cache_defs run_simps ref_cmd_defs ref_srem_def ref_defs ref_session_codec_def
        ref_cjson_user_id_def with_session_def without_session_def)
qed

lemma run_get_none:
  "run (session_get (ref_env 0 Map.empty) ''u'') without_session =
     (Inl SessionNotFound, without_session\<lparr>session_cache := Some []\<rparr>)"
  by (simp add: session_defs cache_defs run_simps ref_cmd_defs ref_defs without_session_def with_session_def)

theorem destroyed_session_not_found_witness:
  "fst (run (session_get (ref_env 0 Map.empty) ''u'') without_session) = Inl SessionNotFound"
proof -
  note nf = destroyed_session_not_found [OF ref_env.redis_env_axioms run_destroy_ann _ _ run_get_none]
  have "(Inl SessionNotFound :: cache_error + session) = Inl SessionNotFound"
    by (rule nf) (simp_all add: later_def live_def rdb_of_def without_session_def with_session_def
        ref_world_def get_or_init_def scache_expiry_def)
  then show ?thesis by (simp add: run_get_none)
qed

theorem destroy_all_revokes_every_session_witness:
  "keys (rdb_of (\<lambda>db. db) (snd (run (session_destroy_all_for_user (ref_env 0 Map.empty) ''ann'') with_session)))
     ''app:session:u'' = None"
proof -
  let ?E = "ref_env 0 Map.empty"
  have rel: "reliable (e_redis ?E)" by (simp add: reliable_def)
  have key: "make_key ?E ''session'' sid = ''app:session:u'' \<longleftrightarrow> sid = ''u''" for sid
    by (simp add: make_key_def)
  have idx: "indexed ?E ''ann'' (rdb_of (\<lambda>db. db) with_session)"
    unfolding indexed_def
    by (auto simp: rdb_of_def with_session_def make_key_def empty_rdb_def split: if_splits)
  have s: "session_of ?E ''u'' (rdb_of (\<lambda>db. db) with_session) = Some ann"
    by (simp add: session_of_def rdb_of_def with_session_def make_key_def ref_lib_def ref_session_codec_def)
  have run: "run (session_destroy_all_for_user ?E ''ann'') with_session =
      ((), snd (run (session_destroy_all_for_user ?E ''ann'') with_session))"
    by (simp add: prod_eq_iff)
  have "user_id ann = ''ann''" by (simp add: ann_def)
  from destroy_all_revokes_every_session [OF ref_env.redis_env_axioms rel idx run s this]
  show ?thesis by (simp add: make_key_def)
qed

end
