(* ===== verification/Auth_Core.thy ===== *)
theory Auth_Core
  imports Session
begin

text \<open>
  The parts of the auth crate below the middleware and the routes: configuration
  (\<open>backend/auth/src/lib.rs\<close>), constant-time comparison (\<open>util.rs\<close>), CSRF tokens (\<open>csrf.rs\<close>),
  cookies (\<open>cookies.rs\<close>), JSON Web Tokens (\<open>jwt.rs\<close>), passwords (\<open>password.rs\<close>) and the signature of the
  headers sent to the Python sidecar (\<open>middleware.rs\<close>).
\<close>

section \<open>Constant-time comparison\<close>

definition constant_time_eq :: "u8 list \<Rightarrow> u8 list \<Rightarrow> bool" where
  "constant_time_eq a b =
     (if length a \<noteq> length b then False
      else foldl (\<lambda>acc (x, y). or acc (xor x y)) 0 (zip a b) = 0)"

definition as_bytes :: "string \<Rightarrow> u8 list" where
  "as_bytes s = map of_char s"

definition constant_time_str_eq :: "string \<Rightarrow> string \<Rightarrow> bool" where
  "constant_time_str_eq a b = constant_time_eq (as_bytes a) (as_bytes b)"

lemma or_zero: "or (a :: u8) b = 0 \<longleftrightarrow> a = 0 \<and> b = 0"
  by (rule or_eq_0_iff)

lemma foldl_or_zero:
  "foldl (\<lambda>acc (x, y). or acc (xor x y)) (c :: u8) ps = 0 \<longleftrightarrow> c = 0 \<and> (\<forall>(x, y) \<in> set ps. x = y)"
proof (induction ps arbitrary: c)
  case (Cons p ps)
  obtain x y where p: "p = (x, y)" by (cases p)
  have "xor x y = 0 \<longleftrightarrow> x = y"
    by (metis xor.assoc xor.left_neutral xor.right_neutral xor_self_eq)
  then show ?case by (auto simp: Cons p or_zero)
qed simp

section \<open>CSRF tokens\<close>

definition generate_csrf_token :: "('r, 'd, 'o) env \<Rightarrow> ('r, 'd, 'o, string) handler" where
  "generate_csrf_token E =
     map_result (\<lambda>r. case r of
         Inl e \<Rightarrow> Inl (InternalError (''failed to generate random bytes: '' @ e))
       | Inr bytes \<Rightarrow> Inr (hex_encode bytes))
       (os_act E (\<lambda>OS. os_random OS 32))"

definition validate_csrf_token :: "string \<Rightarrow> string \<Rightarrow> bool" where
  "validate_csrf_token cookie_token header_token =
     (if cookie_token = [] \<or> header_token = [] then False
      else constant_time_str_eq cookie_token header_token)"

section \<open>Cookies\<close>

definition parse_cookie_value :: "string \<Rightarrow> string \<Rightarrow> string option" where
  "parse_cookie_value cookie_header name =
     (let prefix = name @ ''='' in
      case find_map (\<lambda>c. strip_prefix prefix (trim c)) (split_on (CHR '';'') cookie_header) of
        None \<Rightarrow> None
      | Some val \<Rightarrow> if val = [] then None else Some val)"

text \<open>The \<open>Set-Cookie\<close> values of a response, in order.\<close>

type_synonym cookies = "string list"

definition cookie_text :: "string \<Rightarrow> string \<Rightarrow> u64 \<Rightarrow> bool \<Rightarrow> bool \<Rightarrow> string" where
  "cookie_text name v max_age http_only secure =
     join ''; '' ([name @ ''='' @ v @ ''; Path=/; Max-Age='' @ show_u64 max_age @ ''; SameSite=Lax'']
       @ (if http_only then [''HttpOnly''] else []) @ (if secure then [''Secure''] else []))"

definition set_cookie ::
  "lib \<Rightarrow> cookies \<Rightarrow> string \<Rightarrow> string \<Rightarrow> u64 \<Rightarrow> bool \<Rightarrow> bool \<Rightarrow> api_error + cookies" where
  "set_cookie L headers name v max_age http_only secure =
     (let cookie = cookie_text name v max_age http_only secure in
      case header_value_error L cookie of
        Some e \<Rightarrow> Inl (InternalError (''failed to construct Set-Cookie header: '' @ e))
      | None \<Rightarrow> Inr (headers @ [cookie]))"

text \<open>Returns the headers and the CSRF token for the body.\<close>

definition set_auth_cookies ::
  "('r, 'd, 'o) env \<Rightarrow> cookies \<Rightarrow> string \<Rightarrow> string \<Rightarrow> string option \<Rightarrow> u64 \<Rightarrow> u64 \<Rightarrow> bool \<Rightarrow>
   ('r, 'd, 'o, cookies \<times> string) handler" where
  "set_auth_cookies E headers access_token refresh_token session_id jwt_expiry refresh_expiry cookie_secure =
     (let L = e_lib E in
      attempt (generate_csrf_token E) (\<lambda>csrf_token.
      attempt (Ret (set_cookie L headers ''access_token'' access_token jwt_expiry True cookie_secure)) (\<lambda>h.
      attempt (Ret (set_cookie L h ''refresh_token'' refresh_token refresh_expiry True cookie_secure)) (\<lambda>h.
      attempt (Ret (set_cookie L h ''csrf_token'' csrf_token jwt_expiry False cookie_secure)) (\<lambda>h.
      attempt (Ret (case session_id of
          Some sid \<Rightarrow> set_cookie L h ''session'' sid jwt_expiry True cookie_secure
        | None \<Rightarrow> Inr h)) (\<lambda>h.
      Ret (Inr (h, csrf_token))))))))"

section \<open>JSON Web Tokens\<close>

record jwt_service =
  jwt_secret :: string
  jwt_issuer :: string
  jwt_exp :: u64

definition jwt_new :: "string \<Rightarrow> string \<Rightarrow> u64 \<Rightarrow> jwt_service" where
  "jwt_new secret issuer expiry = \<lparr>jwt_secret = secret, jwt_issuer = issuer, jwt_exp = expiry\<rparr>"

definition create_token ::
  "('r, 'd, 'o) env \<Rightarrow> jwt_service \<Rightarrow> string \<Rightarrow> string \<Rightarrow> string option \<Rightarrow> string \<Rightarrow> ('r, 'd, 'o, string) handler" where
  "create_token E J uid mail name prov =
     bind (os_act E os_now) (\<lambda>clock. let now = unix_timestamp_secs clock in
     bind (os_act E os_uuid) (\<lambda>id.
     let c = \<lparr>sub = uid, cemail = mail, cname = name, cprovider = prov, exp_at = now + jwt_exp J,
              iat = now, iss = jwt_issuer J, jti = id\<rparr> in
     Ret (map_err (\<lambda>e. InternalError (''JWT encode error: '' @ e)) (jwt_encode (e_lib E) (jwt_secret J) c))))"

definition validate_token ::
  "('r, 'd, 'o) env \<Rightarrow> jwt_service \<Rightarrow> string \<Rightarrow> ('r, 'd, 'o, claims) handler" where
  "validate_token E J token =
     bind (os_act E os_now) (\<lambda>clock.
     Ret (map_err (\<lambda>e. case e of
           ExpiredSignature \<Rightarrow> Unauthorized ''Token expired''
         | _ \<Rightarrow> Unauthorized (''Invalid token: '' @ jwt_error_text (e_lib E) e))
       (jwt_decode (e_lib E) (jwt_secret J) (jwt_issuer J) clock token)))"

section \<open>Passwords\<close>

definition hash_password :: "('r, 'd, 'o) env \<Rightarrow> string \<Rightarrow> ('r, 'd, 'o, string) handler" where
  "hash_password E password =
     map_result (map_err (\<lambda>e. InternalError (''Password hash error: '' @ e)))
       (os_act E (\<lambda>OS. os_argon2 OS password))"

definition verify_password :: "lib \<Rightarrow> string \<Rightarrow> string \<Rightarrow> api_error + bool" where
  "verify_password L password hash =
     (case argon2_parse L hash of
        Inl e \<Rightarrow> Inl (InternalError (''Invalid password hash: '' @ e))
      | Inr _ \<Rightarrow> Inr (argon2_matches L password hash))"

section \<open>Signed headers for the sidecar\<close>

definition compute_auth_signature ::
  "lib \<Rightarrow> string \<Rightarrow> string \<Rightarrow> string \<Rightarrow> string \<Rightarrow> u64 \<Rightarrow> api_error + string" where
  "compute_auth_signature L secret uid mail name timestamp =
     (if secret = [] then Inl (InternalError ''SIDECAR_SHARED_SECRET is empty'')
      else let payload = show_json L (JObj [(''user_id'', JStr uid), (''email'', JStr mail),
                 (''name'', JStr name), (''timestamp'', JNum (uint timestamp))]) in
        case hmac_sha256 L secret payload of
          Inl e \<Rightarrow> Inl (InternalError (''HMAC init failed: '' @ e))
        | Inr mac \<Rightarrow> Inr (hex_encode mac))"

definition verify_auth_signature ::
  "lib \<Rightarrow> string \<Rightarrow> string \<Rightarrow> string \<Rightarrow> string \<Rightarrow> u64 \<Rightarrow> string \<Rightarrow> bool" where
  "verify_auth_signature L secret uid mail name timestamp signature =
     (case compute_auth_signature L secret uid mail name timestamp of
        Inl _ \<Rightarrow> False
      | Inr expected \<Rightarrow> constant_time_str_eq expected signature)"

section \<open>Configuration\<close>

record rate_limit_config =
  register_max :: u64
  register_window_secs :: u64
  login_email_max :: u64
  login_email_window_secs :: u64
  login_ip_max :: u64
  login_ip_window_secs :: u64
  forgot_max :: u64
  forgot_window_secs :: u64
  oauth_callback_max :: u64
  oauth_callback_window_secs :: u64

definition rate_limit_config_default :: rate_limit_config where
  "rate_limit_config_default = \<lparr>register_max = 5, register_window_secs = 900, login_email_max = 5,
     login_email_window_secs = 300, login_ip_max = 10, login_ip_window_secs = 300, forgot_max = 3,
     forgot_window_secs = 900, oauth_callback_max = 10, oauth_callback_window_secs = 60\<rparr>"

definition env_or :: "(string \<Rightarrow> string option) \<Rightarrow> string \<Rightarrow> u64 \<Rightarrow> u64" where
  "env_or vars key def =
     (case Option.bind (vars key) parse_u64 of Some v \<Rightarrow> v | None \<Rightarrow> def)"

definition rate_limits_from_env :: "(string \<Rightarrow> string option) \<Rightarrow> rate_limit_config" where
  "rate_limits_from_env vars = \<lparr>
     register_max = env_or vars ''RATE_LIMIT_REGISTER_MAX'' 5,
     register_window_secs = env_or vars ''RATE_LIMIT_REGISTER_WINDOW'' 900,
     login_email_max = env_or vars ''RATE_LIMIT_LOGIN_EMAIL_MAX'' 5,
     login_email_window_secs = env_or vars ''RATE_LIMIT_LOGIN_EMAIL_WINDOW'' 300,
     login_ip_max = env_or vars ''RATE_LIMIT_LOGIN_IP_MAX'' 10,
     login_ip_window_secs = env_or vars ''RATE_LIMIT_LOGIN_IP_WINDOW'' 300,
     forgot_max = env_or vars ''RATE_LIMIT_FORGOT_MAX'' 3,
     forgot_window_secs = env_or vars ''RATE_LIMIT_FORGOT_WINDOW'' 900,
     oauth_callback_max = env_or vars ''RATE_LIMIT_OAUTH_CALLBACK_MAX'' 10,
     oauth_callback_window_secs = env_or vars ''RATE_LIMIT_OAUTH_CALLBACK_WINDOW'' 60\<rparr>"

datatype auth_mode = CookieMode | BearerMode | BothMode

record auth_config =
  c_jwt_secret :: string
  c_jwt_issuer :: string
  c_jwt_expiry :: u64
  c_refresh_expiry :: u64
  c_auth_mode :: auth_mode
  c_google_client_id :: "string option"
  c_google_client_secret :: "string option"
  c_github_client_id :: "string option"
  c_github_client_secret :: "string option"
  c_oauth_redirect_url :: "string option"
  c_sidecar_shared_secret :: "string option"
  c_fail_open :: bool
  c_rate_limits :: rate_limit_config
  c_cookie_secure :: bool

definition or_else :: "'a option \<Rightarrow> 'a \<Rightarrow> 'a" where
  "or_else x d = (case x of Some v \<Rightarrow> v | None \<Rightarrow> d)"

definition parse_mode :: "string \<Rightarrow> auth_mode" where
  "parse_mode s = (if s = ''cookie'' then CookieMode else if s = ''bearer'' then BearerMode else BothMode)"

definition auth_config_from_env :: "(string \<Rightarrow> string option) \<Rightarrow> auth_config option" where
  "auth_config_from_env vars = (case vars ''JWT_SECRET'' of
       None \<Rightarrow> None
     | Some secret \<Rightarrow>
       if secret = [] \<or> secret = ''CHANGE_ME'' then None
       else Some \<lparr>c_jwt_secret = secret,
         c_jwt_issuer = or_else (vars ''JWT_ISSUER'') ''fullstackhex'',
         c_jwt_expiry = or_else (Option.bind (vars ''JWT_EXPIRY'') parse_u64) 900,
         c_refresh_expiry = or_else (Option.bind (vars ''JWT_REFRESH_EXPIRY'') parse_u64) 604800,
         c_auth_mode = parse_mode (or_else (vars ''AUTH_MODE'') ''both''),
         c_google_client_id = vars ''GOOGLE_CLIENT_ID'',
         c_google_client_secret = vars ''GOOGLE_CLIENT_SECRET'',
         c_github_client_id = vars ''GITHUB_CLIENT_ID'',
         c_github_client_secret = vars ''GITHUB_CLIENT_SECRET'',
         c_oauth_redirect_url = vars ''OAUTH_REDIRECT_URL'',
         c_sidecar_shared_secret = Option.bind (vars ''SIDECAR_SHARED_SECRET'')
           (\<lambda>s. if s = [] then None else Some s),
         c_fail_open = or_else (Option.bind (vars ''AUTH_FAIL_OPEN_ON_REDIS_ERROR'')
           (\<lambda>v. parse_bool (lowercase v))) True,
         c_rate_limits = rate_limits_from_env vars,
         c_cookie_secure = or_else (Option.bind (vars ''COOKIE_SECURE'') (\<lambda>v. parse_bool (lowercase v))) True\<rparr>)"

record auth_service =
  config :: auth_config
  jwt :: jwt_service

definition auth_service_new :: "auth_config \<Rightarrow> auth_service" where
  "auth_service_new c = \<lparr>config = c, jwt = jwt_new (c_jwt_secret c) (c_jwt_issuer c) (c_jwt_expiry c)\<rparr>"

definition auth_service_from_env :: "(string \<Rightarrow> string option) \<Rightarrow> auth_service option" where
  "auth_service_from_env vars = map_option auth_service_new (auth_config_from_env vars)"

section \<open>Frames\<close>

lemma auth_core_frame [frame]:
  "keeps v (generate_csrf_token E)" "keeps v (set_auth_cookies E h a r s je re sec)"
  "keeps v (create_token E J u m n p)" "keeps v (validate_token E J t)" "keeps v (hash_password E pw)"
  if "\<And>w o'. v (w\<lparr>outside := o'\<rparr>) = v w"
proof -
  note k = keeps_os_act [of v, OF that]
  show g: "keeps v (generate_csrf_token E)"
    unfolding generate_csrf_token_def by (intro keeps_map_result k)
  show "keeps v (set_auth_cookies E h a r s je re sec)"
    unfolding set_auth_cookies_def Let_def by (intro keeps_attempt g keeps_Ret)
  show "keeps v (create_token E J u m n p)" "keeps v (validate_token E J t)" "keeps v (hash_password E pw)"
    unfolding create_token_def validate_token_def hash_password_def Let_def
    by (intro keeps_bind keeps_map_result k keeps_Ret)+
qed

section \<open>Properties\<close>

lemma constant_time_eq_iff: "constant_time_eq a b \<longleftrightarrow> a = b"
  by (auto simp: constant_time_eq_def foldl_or_zero list_eq_iff_zip_eq)

lemma as_bytes_inject [simp]: "as_bytes a = as_bytes b \<longleftrightarrow> a = b"
proof
  have inj: "inj (of_char :: char \<Rightarrow> u8)"
  proof (rule injI)
    fix c d :: char
    assume h: "(of_char c :: u8) = of_char d"
    have *: "unat (of_char c :: u8) = of_char c" for c :: char
    proof -
      have "(of_char c :: nat) < 256" by simp
      moreover have "(of_char c :: u8) = of_nat (of_char c)" by (simp only: of_nat_of_char)
      ultimately show ?thesis by (simp only: unat_of_nat) (simp add: take_bit_nat_eq_self)
    qed
    have "(of_char c :: nat) = of_char d" using h * by metis
    then show "c = d" by simp
  qed
  show "as_bytes a = as_bytes b \<Longrightarrow> a = b" unfolding as_bytes_def by (rule inj_map_eq_map [OF inj, THEN iffD1])
qed simp

text \<open>
  The constant-time comparison used for CSRF tokens and signatures
  decides equality, on byte strings of any length and on texts.
\<close>

theorem constant_time_comparison_exact:
  "(constant_time_eq a b \<longleftrightarrow> a = b) \<and> (constant_time_str_eq s t \<longleftrightarrow> s = t)"
  by (simp add: constant_time_eq_iff constant_time_str_eq_def)

lemma validate_csrf_token_iff: "validate_csrf_token c h \<longleftrightarrow> c = h \<and> c \<noteq> []"
  by (auto simp: validate_csrf_token_def constant_time_str_eq_def constant_time_eq_iff)

text \<open>
  The signature that \<open>compute_auth_signature\<close> makes is accepted by
  \<open>verify_auth_signature\<close> for the same data, no other text is, and without a secret nothing is.
\<close>

theorem signature_verifies_exactly:
  "verify_auth_signature L secret uid mail name t signature \<longleftrightarrow>
     compute_auth_signature L secret uid mail name t = Inr signature"
  by (auto simp: verify_auth_signature_def constant_time_str_eq_def constant_time_eq_iff
      split: sum.split)

text \<open>A \<open>Cookie\<close> header as a browser writes it: the pairs, separated by a semicolon and a space.\<close>

definition cookie_header :: "(string \<times> string) list \<Rightarrow> string" where
  "cookie_header cs = join ''; '' (map (\<lambda>(n, v). n @ ''='' @ v) cs)"

definition cookie_ok :: "string \<times> string \<Rightarrow> bool" where
  "cookie_ok c \<longleftrightarrow> CHR ''='' \<notin> set (fst c) \<and> (\<forall>x \<in> set (fst c @ snd c). graphic x \<and> x \<noteq> CHR '';'')"

lemma split_on_join:
  assumes "ps \<noteq> []" and "\<forall>p \<in> set ps. c \<notin> set p" and "c \<noteq> d"
  shows "split_on c (join [c, d] ps) = hd ps # map ((#) d) (tl ps)"
  using assms
proof (induction ps)
  case (Cons x ps)
  note IH = Cons.IH and prems = Cons.prems
  show ?case
  proof (cases ps)
    case Nil
    then show ?thesis using prems by (simp add: split_on_id)
  next
    case (Cons y ys)
    have "split_on c (x @ c # (d # join [c, d] ps)) = x # split_on c (d # join [c, d] ps)"
      using prems by (intro split_on_append) simp
    moreover have "split_on c (join [c, d] ps) = y # map ((#) d) ys"
      using IH prems Cons by simp
    ultimately show ?thesis using prems Cons by simp
  qed
qed simp

lemma graphic_equals: "graphic (CHR ''='')"
  by (simp add: graphic_def byte_def)

lemma strip_named:
  assumes "CHR ''='' \<notin> set n" "CHR ''='' \<notin> set name"
  shows "strip_prefix (name @ ''='') (n @ ''='' @ v) = (if n = name then Some v else None)"
proof (cases "n = name")
  case True
  have "strip_prefix (n @ ''='') ((n @ ''='') @ v) = Some v" by (rule strip_prefix_append)
  with True show ?thesis by simp
next
  case False
  have "strip_prefix (name @ ''='') (n @ ''='' @ v) \<noteq> Some r" for r
  proof
    assume "strip_prefix (name @ ''='') (n @ ''='' @ v) = Some r"
    then have "n @ CHR ''='' # v = name @ CHR ''='' # r" by (simp add: strip_prefix_Some)
    then have "split_once (CHR ''='') (n @ CHR ''='' # v) = split_once (CHR ''='') (name @ CHR ''='' # r)"
      by simp
    with assms False show False by (simp add: split_once_append)
  qed
  with False show ?thesis by (cases "strip_prefix (name @ ''='') (n @ ''='' @ v)") simp_all
qed

lemma find_named:
  assumes "\<forall>c \<in> set cs. cookie_ok c" "CHR ''='' \<notin> set name" and that: "\<And>p. trim (f p) = trim p"
  shows "find_map (\<lambda>p. strip_prefix (name @ ''='') (trim p)) (map (\<lambda>(n, v). f (n @ ''='' @ v)) cs) = map_of cs name"
  using assms(1)
proof (induction cs)
  case (Cons c cs)
  obtain n v where c: "c = (n, v)" by (cases c)
  have "trim (n @ ''='' @ v) = n @ ''='' @ v"
    using Cons.prems c graphic_equals by (intro trim_graphic) (auto simp: cookie_ok_def)
  then show ?case
    using Cons c assms(2) strip_named [of n name v] by (simp add: that cookie_ok_def)
qed simp

lemma cookie_value:
  assumes "\<forall>c \<in> set cs. cookie_ok c" and "CHR ''='' \<notin> set name"
  shows "parse_cookie_value (cookie_header cs) name =
    (case map_of cs name of None \<Rightarrow> None | Some v \<Rightarrow> if v = [] then None else Some v)"
proof (cases cs)
  case Nil
  have "trim [] = []" by (simp add: trim_def trim_end_def)
  then show ?thesis using Nil by (cases name) (simp_all add: parse_cookie_value_def cookie_header_def)
next
  case (Cons c cs')
  let ?ps = "map (\<lambda>(n, v). n @ ''='' @ v) cs"
  have "\<forall>p \<in> set ?ps. CHR '';'' \<notin> set p"
  proof
    fix p assume "p \<in> set ?ps"
    then obtain n v where "(n, v) \<in> set cs" "p = n @ ''='' @ v" by (auto split: prod.splits)
    moreover then have "cookie_ok (n, v)" using assms(1) by blast
    ultimately show "CHR '';'' \<notin> set p" by (auto simp: cookie_ok_def)
  qed
  then have sp: "split_on (CHR '';'') (cookie_header cs) = hd ?ps # map ((#) (CHR '' '')) (tl ?ps)"
    unfolding cookie_header_def by (intro split_on_join) (use Cons in auto)
  obtain n v where c: "c = (n, v)" by (cases c)
  let ?f = "\<lambda>p. strip_prefix (name @ ''='') (trim p)"
  have 1: "?f (n @ ''='' @ v) = (if n = name then Some v else None)"
  proof -
    have "trim (n @ ''='' @ v) = n @ ''='' @ v"
      using assms(1) Cons c graphic_equals by (intro trim_graphic) (auto simp: cookie_ok_def)
    moreover have "CHR ''='' \<notin> set n" using assms(1) Cons c by (simp add: cookie_ok_def)
    ultimately show ?thesis using strip_named [of n name v] assms(2) by simp
  qed
  have rest: "\<forall>c \<in> set cs'. cookie_ok c" using assms(1) Cons by simp
  have "map ((#) (CHR '' '')) (tl ?ps) = map (\<lambda>(n, v). CHR '' '' # (n @ ''='' @ v)) cs'"
    using Cons by (simp add: case_prod_unfold comp_def)
  then have 2: "find_map ?f (map ((#) (CHR '' '')) (tl ?ps)) = map_of cs' name"
    using find_named [where f = "(#) (CHR '' '')", OF rest assms(2) trim_space] by (simp only:)
  have "hd ?ps = n @ ''='' @ v" using Cons c by simp
  moreover have "find_map ?f ((n @ ''='' @ v) # map ((#) (CHR '' '')) (tl ?ps)) = map_of cs name"
    unfolding find_map.simps 1 2 using Cons c by simp
  ultimately have "find_map ?f (split_on (CHR '';'') (cookie_header cs)) = map_of cs name"
    using sp by (simp only:)
  then show ?thesis unfolding parse_cookie_value_def Let_def by (simp only:)
qed

text \<open>
  From a \<open>Cookie\<close> header of well-formed pairs, \<open>parse_cookie_value\<close> returns the
  value of the first cookie of the given name, and nothing if there is none or it is empty. A cookie
  whose name merely ends or begins with the name is never taken for it.
\<close>

theorem cookie_lookup_exact:
  assumes "\<forall>c \<in> set cs. cookie_ok c" and "CHR ''='' \<notin> set name"
  shows "parse_cookie_value (cookie_header cs) name =
    (case map_of cs name of None \<Rightarrow> None | Some v \<Rightarrow> if v = [] then None else Some v)"
  by (rule cookie_value [OF assms])

theorem cookie_lookup_exact_witness:
  "parse_cookie_value ''xsession=a; session=b'' ''session'' = Some ''b''"
proof -
  have "\<forall>c \<in> set [(''xsession'', ''a''), (''session'', ''b'')]. cookie_ok c"
    by (simp add: cookie_ok_def graphic_def byte_def)
  from cookie_lookup_exact [OF this, of "''session''"] show ?thesis by (simp add: cookie_header_def)
qed

end
