(* ===== verification/Store_Frames.thy ===== *)
theory Store_Frames
  imports Session
begin

text \<open>
  Which keys of the store an operation leaves alone: for such a key only time passes while the
  operation runs, whatever the wire does and whatever other requests do between its steps.
\<close>

section \<open>Commands\<close>

definition inert :: "string \<Rightarrow> (rdb, 'a) cmd \<Rightarrow> bool" where
  "inert k c \<longleftrightarrow> (\<forall>d. keys (snd (c d)) k = keys d k \<and> rclock (snd (c d)) = rclock d)"

named_theorems inert_rules "commands that leave a key alone"

lemma inert_run: "inert k c \<Longrightarrow> c d = (x, d') \<Longrightarrow> keys d' k = keys d k \<and> rclock d' = rclock d"
  by (metis inert_def snd_conv)

lemma inert_cret [inert_rules]: "inert k (cret x)"
  by (simp add: inert_def cret_def)

lemma inert_fail [inert_rules]: "inert k (\<lambda>d. (Inl e, d))"
  by (simp add: inert_def)

lemma inert_cbind [inert_rules]: "inert k c \<Longrightarrow> (\<And>x. inert k (h x)) \<Longrightarrow> inert k (cbind c h)"
  by (auto simp: inert_def cbind_def split: sum.splits prod.splits) (metis snd_conv)+

lemma inert_reads [inert_rules]:
  "inert k (ref_get k')" "inert k (ref_ttl k')" "inert k (ref_zcard k')" "inert k (ref_zfirst k')"
  "inert k (ref_smembers k')"
  by (auto simp: inert_def ref_get_def ref_ttl_def ref_zcard_def ref_zfirst_def ref_smembers_def
      split: option.split rdata.split sum.split)

lemma inert_writes [inert_rules]:
  "k \<noteq> k' \<Longrightarrow> inert k (ref_set_ex k' v s)" "k \<noteq> k' \<Longrightarrow> inert k (ref_getdel k')"
  "k \<noteq> k' \<Longrightarrow> inert k (ref_expire k' s)" "k \<noteq> k' \<Longrightarrow> inert k (ref_incr k')"
  "k \<noteq> k' \<Longrightarrow> inert k (ref_zadd k' n m)" "k \<noteq> k' \<Longrightarrow> inert k (ref_zremrangebyscore k' mx)"
  "k \<noteq> k' \<Longrightarrow> inert k (ref_sadd k' m)" "k \<noteq> k' \<Longrightarrow> inert k (ref_srem k' m)"
  "k \<notin> set ks \<Longrightarrow> inert k (ref_del ks)"
  by (auto simp: inert_def ref_set_ex_def ref_getdel_def ref_expire_def ref_incr_def ref_zadd_def
      ref_zremrangebyscore_def ref_sadd_def ref_srem_def ref_del_def put_zset_def put_set_def
      split: option.split rdata.split sum.split)

section \<open>Operations\<close>

definition aged :: "('r \<Rightarrow> rdb) \<Rightarrow> string \<Rightarrow> ('r, 'd, 'o) world \<Rightarrow> ('r, 'd, 'o) world \<Rightarrow> bool" where
  "aged f k w w' \<longleftrightarrow> rdb_of f w' = rdb_of f w \<or> later k (rdb_of f w) (rdb_of f w')"

lemma aged_refl: "reflp (aged f k)"
  by (simp add: reflp_def aged_def)

lemma aged_trans: "transp (aged f k)"
proof (rule transpI)
  fix x y z :: "('a, 'b, 'c) world"
  assume "aged f k x y" "aged f k y z"
  then consider "rdb_of f y = rdb_of f x" | "rdb_of f z = rdb_of f y"
    | "later k (rdb_of f x) (rdb_of f y)" "later k (rdb_of f y) (rdb_of f z)"
    unfolding aged_def by blast
  then show "aged f k x z"
    using \<open>aged f k x y\<close> \<open>aged f k y z\<close> unfolding aged_def
    by cases (simp, simp, metis later_trans)
qed

lemma later_aged: "later k d (rdb_of f w) \<Longrightarrow> aged f k w w' \<Longrightarrow> later k d (rdb_of f w')"
  unfolding aged_def by (elim disjE) (simp, rule later_trans)

abbreviation spares ::
  "('r \<Rightarrow> rdb) \<Rightarrow> string \<Rightarrow> (('r, 'd, 'o) world, 'a) prog \<Rightarrow> bool" where
  "spares f k \<equiv> steps (aged f k) (\<lambda>_. True)"

named_theorems sparing "operations that leave a key alone"

lemma spares_run: "spares f k p \<Longrightarrow> run p w = (a, w') \<Longrightarrow> aged f k w w'"
  by (rule steps_run [OF _ aged_refl aged_trans, THEN conjunct1])

lemma spares_Ret [sparing]: "spares f k (Ret a)"
  by (simp add: steps.Ret)

lemma spares_bind [sparing]: "spares f k p \<Longrightarrow> (\<And>a. spares f k (h a)) \<Longrightarrow> spares f k (bind p h)"
  by (rule steps_bind)

lemma spares_attempt [sparing]:
  "spares f k p \<Longrightarrow> (\<And>a. spares f k (h a)) \<Longrightarrow> spares f k (attempt p h)"
  by (rule steps_attempt)

lemma spares_map_result [sparing]: "spares f k p \<Longrightarrow> spares f k (map_result h p)"
  by (rule steps_map_result)

lemma spares_lift_err [sparing]: "spares f k p \<Longrightarrow> spares f k (lift_err h p)"
  unfolding lift_err_def by (rule spares_map_result)

lemma spares_act: "(\<And>w. rdb_of f (snd (g w)) = rdb_of f w) \<Longrightarrow> spares f k (act g)"
  by (rule steps_act) (metis aged_def snd_conv)

lemma spares_other [sparing]:
  "spares f k (db_act E q)" "spares f k (os_act E g)" "spares f k (session_cache_get E sid)"
  "spares f k (session_cache_put E sid s)" "spares f k (session_cache_remove sid)"
  "spares f k (session_cache_retain P)"
  unfolding db_act_def os_act_def session_cache_get_def session_cache_put_def session_cache_remove_def
    session_cache_retain_def
  by (rule spares_act, simp split: prod.split option.split)+

lemma spares_keeps: "keeps redis p \<Longrightarrow> spares f k p"
  by (erule steps_mono) (simp_all add: aged_def rdb_of_def)

lemma wire_inert:
  assumes "wire_step d c x d'" and "inert k c"
  shows "later k d d'"
  using assms(1)
proof (rule wire_step_cases)
  fix dt y assume "c (elapse dt d) = (y, d')"
  from inert_run [OF assms(2) this] show "later k d d'" by (simp add: later_def elapse_def)
next
  fix dt assume "d' = elapse dt d"
  then show "later k d d'" by (simp add: later_elapse)
qed

context redis_env
begin

lemma spares_redis_act:
  assumes "simulates db_of c c'" and "inert k c'"
  shows "spares db_of k (redis_act E c)"
  unfolding redis_act_def
proof (rule steps_act)
  fix w w' :: "('r, 'd, 'o) world" and x
  assume "(case redis_send (e_redis E) c (redis w) of (x, r) \<Rightarrow> (map_err CommandFailed x, w\<lparr>redis := r\<rparr>))
    = (x, w')"
  then have "run (redis_act E c) w = (x, w')" by (simp add: run_redis_act)
  then obtain y where "wire_step (rdb_of db_of w) c' y (rdb_of db_of w')"
    by (rule redis_act_run [OF assms(1)])
  from wire_inert [OF this assms(2)] show "aged db_of k w w' \<and> True" by (simp add: aged_def)
qed

lemma cache_get_spares: "spares db_of k (cache_get E c ns k')"
  unfolding cache_get_def Let_def
  by (intro sparing spares_redis_act [OF get] inert_rules)

lemma cache_set_spares: "k \<noteq> make_key E ns k' \<Longrightarrow> spares db_of k (cache_set E c ns k' v ttl)"
  unfolding cache_set_def Let_def
  by (intro sparing spares_redis_act [OF set_ex] inert_rules)

lemma cache_delete_spares: "k \<noteq> make_key E ns k' \<Longrightarrow> spares db_of k (cache_delete E ns k')"
  unfolding cache_delete_def Let_def
  by (intro sparing spares_redis_act [OF del] inert_rules) simp

lemma cache_get_delete_spares: "k \<noteq> make_key E ns k' \<Longrightarrow> spares db_of k (cache_get_delete E c ns k')"
  unfolding cache_get_delete_def Let_def
  by (intro sparing spares_redis_act [OF getdel] inert_rules)

lemma session_get_spares: "spares db_of k (session_get E sid)"
proof -
  have "spares db_of k (redis_act E (r_get (e_redis E) k'))" for k'
    by (intro spares_redis_act [OF get] inert_rules)
  then show ?thesis
    unfolding session_get_def Let_def
    by (auto intro!: sparing split: option.split sum.split)
qed

end

section \<open>A key that holds its value is read\<close>

context redis_env
begin

text \<open>
  A read of a key at which a value was stored and which has not expired: if it is answered, it gives
  the value, and on a reliable link it is answered.
\<close>

lemma set_then_get_live:
  assumes c: "codec_ok c" and set: "run (cache_set E c ns k v ttl) w = (Inr (), w1)"
    and later: "later (make_key E ns k) (rdb_of db_of w1) (rdb_of db_of w2)"
    and get: "run (cache_get E c ns k) w2 = (r, w3)"
    and live: "rclock (rdb_of db_of w3) \<le> rclock (rdb_of db_of w1) + 1000 * unat ttl"
  shows "r = Inr (Some v) \<or> \<not> reliable (e_redis E) \<and> (\<exists>e. r = Inl e)"
proof (cases r)
  case (Inr x)
  from set_then_get [OF c set later get [unfolded Inr]] live Inr show ?thesis by simp
next
  case (Inl e)
  have "\<not> reliable (e_redis E)"
  proof
    assume rel: "reliable (e_redis E)"
    let ?k = "make_key E ns k"
    obtain dt j where j: "enc c v = Inr j" and pos: "0 < sint ttl"
      and w1: "rdb_of db_of w1 = put ?k
           (RStr j, Some (rclock (rdb_of db_of w) + dt + 1000 * nat (sint ttl)))
           (elapse dt (rdb_of db_of w))"
      by (rule cache_set_run [OF set])
    obtain dt' x r3 where g: "ref_get ?k (elapse dt' (rdb_of db_of w2)) = (x, db_of r3)"
      and run: "run (redis_act E (r_get (e_redis E) ?k)) w2 = (map_err CommandFailed x, w2\<lparr>redis := r3\<rparr>)"
      by (rule reliable_run [OF rel redis_service.get [OF redis_service_axioms]])
    have d3: "db_of r3 = elapse dt' (rdb_of db_of w2)"
      using g by (auto simp: ref_get_def split: option.splits rdata.splits)
    have w3: "rdb_of db_of w3 = db_of r3"
      using get run by (cases x) (auto simp: cache_get_def Let_def run_attempt run_Ret)
    have l3: "later ?k (rdb_of db_of w1) (db_of r3)"
      unfolding d3 by (rule later_trans [OF later later_elapse])
    have "nat (sint ttl) = unat ttl" using pos by (simp add: sint_positive)
    with later_present [OF l3, of "RStr j"] live w1 w3
    have "keys (db_of r3) ?k = Some (RStr j, Some (rclock (rdb_of db_of w) + dt + 1000 * nat (sint ttl)))"
      by simp
    then have "x = Inr (Some j)" using g d3 by (simp add: ref_get_def)
    moreover have "dec c j = Inr v" using c [unfolded codec_ok_def, rule_format, of v] j by auto
    ultimately show False
      using get Inl run by (simp add: cache_get_def Let_def run_attempt run_Ret decode_stored_def)
  qed
  with Inl show ?thesis by blast
qed

end

end
