(* ===== verification/Auth_Middleware.thy ===== *)
theory Auth_Middleware
  imports Auth_Core Store_Frames
begin

text \<open>
  The authentication middleware (\<open>backend/auth/src/middleware.rs\<close>): which user, if any, a request is
  authenticated as, by its bearer token or its session cookie, and the in-process cache of blacklisted
  token identifiers.
\<close>

section \<open>Requests\<close>

record auth_user =
  au_user_id :: string
  au_email :: string
  au_name :: "string option"
  au_provider :: string
  au_jti :: string
  au_session_id :: "string option"

text \<open>
  A request: its method, path and headers (names in lower case, in order), and the extensions the
  layers around the handler put into it. \<open>ext_redis\<close> says whether the Redis client is among them.
\<close>

record request =
  req_method :: string
  path :: string
  headers :: "(string \<times> string) list"
  ext_auth :: "auth_service option"
  ext_redis :: bool
  ext_user :: "auth_user option"

text \<open>\<open>headers.get(name).and_then(|v| v.to_str().ok())\<close>.\<close>

definition header_text :: "lib \<Rightarrow> (string \<times> string) list \<Rightarrow> string \<Rightarrow> string option" where
  "header_text L hs name = (case map_of hs name of
       None \<Rightarrow> None
     | Some v \<Rightarrow> if header_is_text L v then Some v else None)"

section \<open>The in-process blacklist\<close>

definition max_blacklist_cache_entries :: nat where
  "max_blacklist_cache_entries = 100000"

definition blist_lookup :: "string \<Rightarrow> nat \<Rightarrow> nat hmap \<Rightarrow> unit option \<times> nat hmap" where
  "blist_lookup j now m = (case hm_get m j of
       Some expiry \<Rightarrow> if now < expiry then (Some (), m) else (None, hm_remove j m)
     | None \<Rightarrow> (None, m))"

interpretation blist: ttl_cache blist_lookup "\<lambda>k m. hm_get m k" hm_remove
  by unfold_locales (auto simp: blist_lookup_def split: option.splits if_splits)

text \<open>No critical section of this mutex can panic either, so it is never poisoned.\<close>

definition blacklisted_in_process ::
  "('r, 'd, 'o) env \<Rightarrow> string \<Rightarrow> (('r, 'd, 'o) world, bool) prog" where
  "blacklisted_in_process E j = act (\<lambda>w. case blacklist_cache w of
       None \<Rightarrow> (False, w)
     | Some m \<Rightarrow>
         (case os_instant (e_os E) (outside w) of (now, o') \<Rightarrow>
           (case blist_lookup j now m of
              (hit, m') \<Rightarrow> (hit \<noteq> None, w\<lparr>blacklist_cache := Some m', outside := o'\<rparr>))))"

definition cache_blacklisted :: "string \<Rightarrow> nat \<Rightarrow> (('r, 'd, 'o) world, unit) prog" where
  "cache_blacklisted j expiry = act (\<lambda>w. ((), case blacklist_cache w of
       None \<Rightarrow> w
     | Some m \<Rightarrow>
         if length m < max_blacklist_cache_entries
         then w\<lparr>blacklist_cache := Some (hm_insert j expiry m)\<rparr> else w))"

section \<open>Rejections and the extractor\<close>

datatype auth_rejection = RejUnauthorized | RejForbidden

definition rejection_response :: "auth_rejection \<Rightarrow> response" where
  "rejection_response r =
     (let (st, code, message) = (case r of
          RejUnauthorized \<Rightarrow> (401, ''UNAUTHORIZED'', ''Authentication required'')
        | RejForbidden \<Rightarrow> (403, ''FORBIDDEN'', ''Access denied'')) in
      \<lparr>status = st, body = JObj [(''error'', JObj [(''code'', JStr code), (''message'', JStr message)])]\<rparr>)"

text \<open>\<open>FromRequestParts\<close> of \<open>AuthUser\<close>: how a handler asks for the authenticated user.\<close>

definition from_request_parts :: "request \<Rightarrow> auth_rejection + auth_user" where
  "from_request_parts req = ok_or RejUnauthorized (ext_user req)"

section \<open>Bearer tokens and cookies\<close>

definition extract_bearer ::
  "('r, 'd, 'o) env \<Rightarrow> request \<Rightarrow> auth_service \<Rightarrow> (('r, 'd, 'o) world, auth_user option) prog" where
  "extract_bearer E req svc = (case header_text (e_lib E) (headers req) ''authorization'' of
       None \<Rightarrow> Ret None
     | Some v \<Rightarrow>
       (case split_once (CHR '' '') v of
          None \<Rightarrow> Ret None
        | Some (scheme, token_value) \<Rightarrow>
          if \<not> eq_ignore_ascii_case scheme ''Bearer'' then Ret None
          else let token = trim_start token_value in
            bind (validate_token E (jwt svc) token) (\<lambda>r. case r of
                Inl _ \<Rightarrow> Ret None
              | Inr c \<Rightarrow> Ret (Some \<lparr>au_user_id = sub c, au_email = cemail c, au_name = cname c,
                    au_provider = cprovider c, au_jti = jti c, au_session_id = None\<rparr>))))"

definition cookie_auth_prepare :: "lib \<Rightarrow> request \<Rightarrow> auth_rejection + string option" where
  "cookie_auth_prepare L req = (case header_text L (headers req) ''cookie'' of
       None \<Rightarrow> Inr None
     | Some cookies \<Rightarrow>
       (case parse_cookie_value cookies ''session'' of
          None \<Rightarrow> Inr None
        | Some session_id \<Rightarrow>
          let m = req_method req in
          if m = ''POST'' \<or> m = ''PUT'' \<or> m = ''DELETE'' \<or> m = ''PATCH'' then
            let csrf_header = or_else (header_text L (headers req) ''x-csrf-token'') '''';
                csrf_cookie = or_else (parse_cookie_value cookies ''csrf_token'') '''' in
            if \<not> validate_csrf_token csrf_cookie csrf_header then Inl RejForbidden
            else Inr (Some session_id)
          else Inr (Some session_id)))"

definition resolve_cookie_user ::
  "('r, 'd, 'o) env \<Rightarrow> string \<Rightarrow> (('r, 'd, 'o) world, auth_user option) prog" where
  "resolve_cookie_user E sid =
     bind (session_get E sid) (\<lambda>r. case r of
         Inl _ \<Rightarrow> Ret None
       | Inr s \<Rightarrow> Ret (Some \<lparr>au_user_id = user_id s, au_email = email s, au_name = sname s,
             au_provider = provider s, au_jti = '''', au_session_id = Some sid\<rparr>))"

section \<open>The middleware\<close>

definition public_path :: "string \<Rightarrow> bool" where
  "public_path p \<longleftrightarrow> p = ''/live'' \<or> starts_with p ''/health'' \<or> p = ''/metrics''
     \<or> starts_with p ''/metrics/'' \<or> p = ''/auth/login'' \<or> p = ''/auth/register''
     \<or> p = ''/auth/forgot-password'' \<or> p = ''/auth/reset-password'' \<or> p = ''/auth/refresh''
     \<or> p = ''/auth/providers'' \<or> p = ''/auth/oauth/google'' \<or> p = ''/auth/oauth/github''
     \<or> p = ''/auth/oauth/google/callback'' \<or> p = ''/auth/oauth/github/callback''"

text \<open>
  Where the user of a request comes from: \<open>Inl\<close> is the response of a rejected request; \<open>Inr None\<close> sends
  the request on without a user, \<open>Inr (Some u)\<close> goes to the blacklist check (bearer authentication
  without a valid token goes there too, and passes it, having no user to check).
\<close>

definition resolve_auth_user ::
  "('r, 'd, 'o) env \<Rightarrow> request \<Rightarrow> auth_service \<Rightarrow>
   (('r, 'd, 'o) world, response + auth_user option) prog" where
  "resolve_auth_user E req svc =
     bind (extract_bearer E req svc) (\<lambda>bearer_user.
     if c_auth_mode (config svc) = BearerMode then Ret (Inr bearer_user)
     else if c_auth_mode (config svc) = BothMode \<and> bearer_user \<noteq> None then Ret (Inr bearer_user)
     else (case cookie_auth_prepare (e_lib E) req of
         Inl rejection \<Rightarrow> Ret (Inl (rejection_response rejection))
       | Inr None \<Rightarrow> Ret (Inr None)
       | Inr (Some sess) \<Rightarrow>
           if ext_redis req then map_result Inr (resolve_cookie_user E sess) else Ret (Inr None)))"

text \<open>
  The blacklist check of an authenticated user: whether the request goes on with the user. The expiry
  of a remembered identifier is an instant; its addition cannot overflow.
\<close>

definition blacklist_check ::
  "('r, 'd, 'o) env \<Rightarrow> auth_service \<Rightarrow> auth_user \<Rightarrow> (('r, 'd, 'o) world, bool) prog" where
  "blacklist_check E svc u =
     bind (if au_jti u \<noteq> [] then blacklisted_in_process E (au_jti u) else Ret False) (\<lambda>fast.
     if fast then Ret False
     else bind (cache_get E (bool_codec (e_lib E)) ''blacklist'' (au_jti u)) (\<lambda>r.
       let is_blacklisted = (case r of
           Inr (Some v) \<Rightarrow> Some v | Inr None \<Rightarrow> Some False | Inl _ \<Rightarrow> None) in
       case is_blacklisted of
         Some True \<Rightarrow>
           bind (if au_jti u \<noteq> []
                 then bind (os_act E os_instant) (\<lambda>now.
                   cache_blacklisted (au_jti u) (now + 1000 * unat (c_jwt_expiry (config svc))))
                 else Ret ()) (\<lambda>_. Ret False)
       | None \<Rightarrow> Ret (c_fail_open (config svc))
       | Some False \<Rightarrow> Ret True))"

text \<open>\<open>Inl\<close>: the response of a rejected request; \<open>Inr\<close>: the request as it goes on to the handler.\<close>

definition auth_decide ::
  "('r, 'd, 'o) env \<Rightarrow> request \<Rightarrow> (('r, 'd, 'o) world, response + request) prog" where
  "auth_decide E req =
     (if public_path (path req) then Ret (Inr req)
      else case ext_auth req of None \<Rightarrow> Ret (Inr req)
      | Some svc \<Rightarrow>
        attempt (resolve_auth_user E req svc) (\<lambda>auth_user. case auth_user of
            None \<Rightarrow> Ret (Inr req)
          | Some user \<Rightarrow>
            bind (if ext_redis req then blacklist_check E svc user else Ret True) (\<lambda>ok.
            Ret (Inr (if ok then req\<lparr>ext_user := Some user\<rparr> else req)))))"

definition auth_middleware ::
  "('r, 'd, 'o) env \<Rightarrow> (request \<Rightarrow> (('r, 'd, 'o) world, response) prog) \<Rightarrow> request \<Rightarrow>
   (('r, 'd, 'o) world, response) prog" where
  "auth_middleware E next_layer req =
     bind (auth_decide E req) (\<lambda>r. case r of Inl resp \<Rightarrow> Ret resp | Inr req' \<Rightarrow> next_layer req')"

section \<open>Frames\<close>

lemma extract_bearer_keeps:
  assumes "\<And>w o'. v (w\<lparr>outside := o'\<rparr>) = v w"
  shows "keeps v (extract_bearer E req svc)"
  unfolding extract_bearer_def Let_def
  by (auto intro!: keeps_bind auth_core_frame assms split: option.split sum.split)

lemma middleware_frame [frame]:
  "keeps db (extract_bearer E req svc)" "keeps redis (extract_bearer E req svc)"
  "keeps session_cache (extract_bearer E req svc)"
  "keeps db (resolve_cookie_user E sid)" "keeps db (resolve_auth_user E req svc)"
  "keeps db (blacklist_check E svc u)" "keeps db (auth_decide E req)"
proof -
  show b: "keeps db (extract_bearer E req svc)" "keeps redis (extract_bearer E req svc)"
    "keeps session_cache (extract_bearer E req svc)" for svc
    by (rule extract_bearer_keeps; simp)+
  show c: "keeps db (resolve_cookie_user E sid)" for sid
    unfolding resolve_cookie_user_def by (auto intro!: keeps_bind frame split: sum.split)
  show r: "keeps db (resolve_auth_user E req svc)" for svc
    unfolding resolve_auth_user_def
    by (auto intro!: keeps_bind keeps_map_result b c split: sum.split option.split)
  have p: "keeps db (blacklisted_in_process E j)" "keeps db (cache_blacklisted j e)" for j e
    unfolding blacklisted_in_process_def cache_blacklisted_def
    by (rule keeps_act; simp split: option.split prod.split)+
  show l: "keeps db (blacklist_check E svc u)" for svc u
    unfolding blacklist_check_def Let_def
    by (auto intro!: keeps_bind frame p split: option.split bool.split sum.split)
  show "keeps db (auth_decide E req)"
    unfolding auth_decide_def by (auto intro!: keeps_bind keeps_attempt r l split: option.split)
qed

section \<open>How a request gets its user\<close>

lemma auth_decide_user:
  assumes "run (auth_decide E req) w = (Inr req', w')" and "ext_user req = None" and "ext_user req' = Some u"
  obtains svc v where "ext_auth req = Some svc" and "\<not> public_path (path req)"
    and "run (resolve_auth_user E req svc) w = (Inr (Some u), v)" and "req' = req\<lparr>ext_user := Some u\<rparr>"
    and "if ext_redis req then run (blacklist_check E svc u) v = (True, w') else w' = v"
proof -
  obtain svc where svc: "ext_auth req = Some svc" and p: "\<not> public_path (path req)"
    using assms by (auto simp: auth_decide_def run_Ret split: if_splits option.splits)
  obtain r v where r: "run (resolve_auth_user E req svc) w = (r, v)"
    by (cases "run (resolve_auth_user E req svc) w")
  note d = assms(1) [unfolded auth_decide_def svc option.case if_not_P [OF p] run_attempt r]
  obtain u' where u': "r = Inr (Some u')"
    using d assms(2,3) by (auto simp: run_Ret split: sum.splits option.splits)
  obtain ok v' where k: "run (if ext_redis req then blacklist_check E svc u' else Ret True) v = (ok, v')"
    by (cases "run (if ext_redis req then blacklist_check E svc u' else Ret True) v")
  have req': "(if ok then req\<lparr>ext_user := Some u'\<rparr> else req) = req'" and w': "v' = w'"
    using d by (simp_all add: u' run_bind k run_Ret)
  have ok: "ok" using req' assms(2,3) by (cases ok) auto
  with req' assms(3) have "u' = u" by auto
  with svc p r u' k w' req' ok show thesis
    by (intro that [of svc v]) (auto simp: run_Ret)
qed

lemma blacklist_check_True:
  assumes "run (blacklist_check E svc u) v = (True, w')"
  obtains v1 r where "run (cache_get E (bool_codec (e_lib E)) ''blacklist'' (au_jti u)) v1 = (r, w')"
    and "redis v1 = redis v"
    and "r = Inr None \<or> r = Inr (Some False) \<or> (\<exists>e. r = Inl e) \<and> c_fail_open (config svc)"
proof -
  let ?fast = "if au_jti u \<noteq> [] then blacklisted_in_process E (au_jti u) else Ret False"
  obtain b v1 where f: "run ?fast v = (b, v1)" by (cases "run ?fast v")
  have "keeps redis ?fast"
    unfolding blacklisted_in_process_def
    by (cases "au_jti u = []") (auto intro!: keeps_act split: option.split prod.split)
  then have rv: "redis v1 = redis v" using f by (rule keeps_run)
  obtain r v2 where g: "run (cache_get E (bool_codec (e_lib E)) ''blacklist'' (au_jti u)) v1 = (r, v2)"
    by (cases "run (cache_get E (bool_codec (e_lib E)) ''blacklist'' (au_jti u)) v1")
  note d = assms [unfolded blacklist_check_def run_bind f prod.case]
  have b: "\<not> b" using d by (cases b) (auto simp: run_Ret)
  note d' = d [unfolded if_not_P [OF b] run_bind g prod.case Let_def]
  from d' have "v2 = w'" and "r = Inr None \<or> r = Inr (Some False) \<or> (\<exists>e. r = Inl e) \<and> c_fail_open (config svc)"
    by (auto simp: run_Ret run_bind split: sum.splits option.splits bool.splits prod.splits)
  with g rv show thesis by (intro that [of v1 r]) simp_all
qed

definition user_of_claims :: "claims \<Rightarrow> auth_user" where
  "user_of_claims c = \<lparr>au_user_id = sub c, au_email = cemail c, au_name = cname c,
     au_provider = cprovider c, au_jti = jti c, au_session_id = None\<rparr>"

definition user_of_session :: "string \<Rightarrow> session \<Rightarrow> auth_user" where
  "user_of_session sid s = \<lparr>au_user_id = user_id s, au_email = email s, au_name = sname s,
     au_provider = provider s, au_jti = '''', au_session_id = Some sid\<rparr>"

text \<open>A bearer token in the header that decodes, at the clock's time, to the user's claims.\<close>

definition bearer_credentials ::
  "('r, 'd, 'o) env \<Rightarrow> request \<Rightarrow> auth_service \<Rightarrow> int \<Rightarrow> auth_user \<Rightarrow> bool" where
  "bearer_credentials E req svc clock u \<longleftrightarrow> (\<exists>scheme token c.
     header_text (e_lib E) (headers req) ''authorization'' = Some (scheme @ '' '' @ token)
     \<and> eq_ignore_ascii_case scheme ''Bearer''
     \<and> jwt_decode (e_lib E) (jwt_secret (jwt svc)) (jwt_issuer (jwt svc)) clock (trim_start token) = Inr c
     \<and> u = user_of_claims c)"

definition state_changing :: "string \<Rightarrow> bool" where
  "state_changing m \<longleftrightarrow> m \<in> {''POST'', ''PUT'', ''DELETE'', ''PATCH''}"

text \<open>The double submit: one nonempty token both in the cookie and in the header.\<close>

definition csrf_pair :: "lib \<Rightarrow> request \<Rightarrow> string \<Rightarrow> bool" where
  "csrf_pair L req cookies \<longleftrightarrow> (\<exists>t. t \<noteq> [] \<and> parse_cookie_value cookies ''csrf_token'' = Some t
     \<and> header_text L (headers req) ''x-csrf-token'' = Some t)"

text \<open>A session cookie, with its CSRF token if need be, whose session the store returns.\<close>

definition cookie_credentials ::
  "('r, 'd, 'o) env \<Rightarrow> request \<Rightarrow> ('r, 'd, 'o) world \<Rightarrow> auth_user \<Rightarrow> bool" where
  "cookie_credentials E req w u \<longleftrightarrow> (\<exists>cookies sid s w'.
     header_text (e_lib E) (headers req) ''cookie'' = Some cookies
     \<and> parse_cookie_value cookies ''session'' = Some sid
     \<and> (state_changing (req_method req) \<longrightarrow> csrf_pair (e_lib E) req cookies)
     \<and> run (session_get E sid) w = (Inr s, w')
     \<and> u = user_of_session sid s)"

lemma extract_bearer_Some:
  assumes "run (extract_bearer E req svc) w = (Some u, v)"
  shows "bearer_credentials E req svc (fst (os_now (e_os E) (outside w))) u"
proof -
  obtain x a b where h: "header_text (e_lib E) (headers req) ''authorization'' = Some x"
      "split_once (CHR '' '') x = Some (a, b)" "eq_ignore_ascii_case a ''Bearer''"
    using assms by (auto simp: extract_bearer_def run_Ret split: option.splits prod.splits if_splits)
  obtain c where "jwt_decode (e_lib E) (jwt_secret (jwt svc)) (jwt_issuer (jwt svc))
      (fst (os_now (e_os E) (outside w))) (trim_start b) = Inr c" "u = user_of_claims c"
    using assms h
    by (auto simp: extract_bearer_def validate_token_def run_simps user_of_claims_def
        split: sum.splits prod.splits)
  with h h(2) [unfolded split_once_Some] show ?thesis unfolding bearer_credentials_def by auto
qed

lemma csrf_pair_iff:
  "validate_csrf_token (or_else (parse_cookie_value cookies ''csrf_token'') '''')
     (or_else (header_text L (headers req) ''x-csrf-token'') '''') \<longleftrightarrow> csrf_pair L req cookies"
  by (auto simp: validate_csrf_token_iff csrf_pair_def or_else_def split: option.split)

lemma cookie_prepare_cases:
  "cookie_auth_prepare L req = (case header_text L (headers req) ''cookie'' of None \<Rightarrow> Inr None
     | Some cookies \<Rightarrow> (case parse_cookie_value cookies ''session'' of None \<Rightarrow> Inr None
       | Some sid \<Rightarrow> if state_changing (req_method req) \<and> \<not> csrf_pair L req cookies then Inl RejForbidden
                     else Inr (Some sid)))"
  by (auto simp: cookie_auth_prepare_def Let_def csrf_pair_iff state_changing_def split: option.split)

lemma resolve_cookie_Some:
  assumes "run (resolve_cookie_user E sid) w = (Some u, v)"
  obtains s where "run (session_get E sid) w = (Inr s, v)" "u = user_of_session sid s"
  using assms
  by (auto simp: resolve_cookie_user_def run_bind run_Ret user_of_session_def split: sum.splits prod.splits)

section \<open>Properties\<close>

lemma decide_credentials:
  assumes "run (auth_decide E req) w = (Inr req', w')" and "ext_user req = None" and "ext_user req' = Some u"
  shows "\<exists>svc. ext_auth req = Some svc \<and> \<not> public_path (path req) \<and> req' = req\<lparr>ext_user := Some u\<rparr> \<and>
    (c_auth_mode (config svc) \<noteq> CookieMode
       \<and> bearer_credentials E req svc (fst (os_now (e_os E) (outside w))) u
     \<or> c_auth_mode (config svc) \<noteq> BearerMode \<and> ext_redis req
       \<and> cookie_credentials E req (snd (run (extract_bearer E req svc) w)) u)"
proof -
  obtain svc v where svc: "ext_auth req = Some svc" "\<not> public_path (path req)"
    and r: "run (resolve_auth_user E req svc) w = (Inr (Some u), v)" and req': "req' = req\<lparr>ext_user := Some u\<rparr>"
    by (rule auth_decide_user [OF assms])
  obtain b v1 where b: "run (extract_bearer E req svc) w = (b, v1)"
    by (cases "run (extract_bearer E req svc) w")
  note d = r [unfolded resolve_auth_user_def run_bind b prod.case]
  consider "b = Some u" "c_auth_mode (config svc) \<noteq> CookieMode"
    | sid where "c_auth_mode (config svc) \<noteq> BearerMode" "ext_redis req"
        "cookie_auth_prepare (e_lib E) req = Inr (Some sid)" "run (resolve_cookie_user E sid) v1 = (Some u, v)"
    using d by (auto simp: run_Ret run_map_result split: if_splits sum.splits option.splits prod.splits)
  then show ?thesis
  proof cases
    case 1
    with b svc req' show ?thesis using extract_bearer_Some by blast
  next
    case 2
    obtain s where "run (session_get E sid) v1 = (Inr s, v)" "u = user_of_session sid s"
      using 2(4) by (rule resolve_cookie_Some)
    with 2 have "cookie_credentials E req v1 u"
      by (auto simp: cookie_prepare_cases cookie_credentials_def split: option.splits if_splits)
    with 2 svc req' b show ?thesis by auto
  qed
qed

text \<open>
  C3. The middleware attaches a user to a request only by credentials
  the request carries: on a path that is not public, with the auth service configured, either a bearer
  token that decodes at the current time (unless only cookies are enabled), or a session cookie whose
  session the store returns (unless only bearer tokens are enabled) and, for a request that changes
  state, a CSRF token that matches the cookie's. Nothing else of the request changes.
\<close>

theorem authenticated_only_by_credentials:
  assumes "run (auth_decide E req) w = (Inr req', w')" and "ext_user req = None" and "ext_user req' = Some u"
  shows "\<exists>svc. ext_auth req = Some svc \<and> \<not> public_path (path req) \<and> req' = req\<lparr>ext_user := Some u\<rparr> \<and>
    (c_auth_mode (config svc) \<noteq> CookieMode
       \<and> bearer_credentials E req svc (fst (os_now (e_os E) (outside w))) u
     \<or> c_auth_mode (config svc) \<noteq> BearerMode \<and> ext_redis req
       \<and> cookie_credentials E req (snd (run (extract_bearer E req svc) w)) u)"
  by (rule decide_credentials [OF assms])

text \<open>
  C5. A request without a bearer token, where cookies are enabled, is rejected exactly
  if it carries a session cookie, changes state and does not show the CSRF token of its cookie a second
  time; the answer is then 403, the handler does not run, and neither the stores nor the session cache
  change.
\<close>

theorem csrf_enforced:
  assumes "ext_auth req = Some svc" and "\<not> public_path (path req)"
    and "c_auth_mode (config svc) \<noteq> BearerMode" and "header_text (e_lib E) (headers req) ''authorization'' = None"
    and "header_text (e_lib E) (headers req) ''cookie'' = Some cookies"
    and "parse_cookie_value cookies ''session'' = Some sid"
  shows "((\<exists>resp. fst (run (auth_decide E req) w) = Inl resp) \<longleftrightarrow>
       state_changing (req_method req) \<and> \<not> csrf_pair (e_lib E) req cookies)
    \<and> (state_changing (req_method req) \<and> \<not> csrf_pair (e_lib E) req cookies \<longrightarrow>
       run (auth_middleware E next_layer req) w = (rejection_response RejForbidden, w))"
proof -
  have b: "run (extract_bearer E req svc) w = (None, w)"
    using assms(4) by (simp add: extract_bearer_def run_Ret)
  have r: "run (resolve_auth_user E req svc) w =
      (if state_changing (req_method req) \<and> \<not> csrf_pair (e_lib E) req cookies
       then (Inl (rejection_response RejForbidden), w)
       else run (if ext_redis req then map_result Inr (resolve_cookie_user E sid) else Ret (Inr None)) w)"
    using assms by (simp add: resolve_auth_user_def run_bind b run_Ret cookie_prepare_cases)
  obtain y v where ok: "run (if ext_redis req then map_result Inr (resolve_cookie_user E sid)
      else Ret (Inr None)) w = ((Inr y :: response + auth_user option), v)"
    by (cases "ext_redis req"; cases "run (resolve_cookie_user E sid) w") (simp_all add: run_map_result run_Ret)
  have "(\<exists>resp. fst (run (auth_decide E req) w) = Inl resp) \<longleftrightarrow>
      state_changing (req_method req) \<and> \<not> csrf_pair (e_lib E) req cookies"
    using assms(1,2) r
    by (auto simp: auth_decide_def run_attempt run_bind run_Ret ok split: option.splits prod.splits)
  moreover have "run (auth_middleware E next_layer req) w = (rejection_response RejForbidden, w)"
    if "state_changing (req_method req)" "\<not> csrf_pair (e_lib E) req cookies"
    using assms(1,2) r that
    by (simp add: auth_middleware_def auth_decide_def run_attempt run_bind run_Ret)
  ultimately show ?thesis by blast
qed

lemma extract_bearer_spares: "spares f k (extract_bearer E req svc)"
  by (rule spares_keeps) (rule middleware_frame)

context redis_env
begin

lemma resolve_auth_user_spares: "spares db_of k (resolve_auth_user E req svc)"
  unfolding resolve_auth_user_def resolve_cookie_user_def
  by (auto intro!: sparing extract_bearer_spares session_get_spares split: sum.split option.split)

lemma live_blacklist_rejects:
  assumes c: "codec_ok (bool_codec (e_lib E))"
    and set: "run (cache_set E (bool_codec (e_lib E)) ''blacklist'' j True ttl) w = (Inr (), w1)"
    and later: "later (make_key E ''blacklist'' j) (rdb_of db_of w1) (rdb_of db_of w2)"
    and run: "run (auth_decide E req) w2 = (Inr req', w3)"
    and req: "ext_user req = None" "ext_redis req"
    and closed: "\<And>svc. ext_auth req = Some svc \<Longrightarrow> c_fail_open (config svc) \<Longrightarrow> reliable (e_redis E)"
    and live: "rclock (rdb_of db_of w3) \<le> rclock (rdb_of db_of w1) + 1000 * unat ttl"
  shows "\<not> (\<exists>u. ext_user req' = Some u \<and> au_jti u = j)"
proof
  assume "\<exists>u. ext_user req' = Some u \<and> au_jti u = j"
  then obtain u where u: "ext_user req' = Some u" "au_jti u = j" by blast
  obtain svc v where svc: "ext_auth req = Some svc"
    and r: "run (resolve_auth_user E req svc) w2 = (Inr (Some u), v)"
    and "if ext_redis req then run (blacklist_check E svc u) v = (True, w3) else w3 = v"
    by (rule auth_decide_user [OF run req(1) u(1)])
  with req have k: "run (blacklist_check E svc u) v = (True, w3)" by simp
  obtain v1 r where g: "run (cache_get E (bool_codec (e_lib E)) ''blacklist'' j) v1 = (r, w3)"
    and v1: "redis v1 = redis v"
    and res: "r = Inr None \<or> r = Inr (Some False) \<or> (\<exists>e. r = Inl e) \<and> c_fail_open (config svc)"
    by (rule blacklist_check_True [OF k, unfolded u(2)])
  have "later (make_key E ''blacklist'' j) (rdb_of db_of w1) (rdb_of db_of v)"
    by (rule later_aged [OF later spares_run [OF resolve_auth_user_spares r]])
  then have l1: "later (make_key E ''blacklist'' j) (rdb_of db_of w1) (rdb_of db_of v1)"
    by (simp add: rdb_of_def v1)
  from set_then_get_live [OF c set l1 g live] res closed [OF svc] show False by auto
qed

end

text \<open>
  C6. While the blacklist entry of a token identifier lives in the store, no
  request gets a user with that identifier, by whatever token or cookie: on a reliable link always, and
  on an unreliable one if the service is configured to fail closed.
\<close>

theorem blacklisted_token_rejected:
  assumes "redis_env E db_of" and "codec_ok (bool_codec (e_lib E))"
    and "run (cache_set E (bool_codec (e_lib E)) ''blacklist'' j True ttl) w = (Inr (), w1)"
    and "later (make_key E ''blacklist'' j) (rdb_of db_of w1) (rdb_of db_of w2)"
    and "run (auth_decide E req) w2 = (Inr req', w3)"
    and "ext_user req = None" and "ext_redis req"
    and "\<And>svc. ext_auth req = Some svc \<Longrightarrow> c_fail_open (config svc) \<Longrightarrow> reliable (e_redis E)"
    and "rclock (rdb_of db_of w3) \<le> rclock (rdb_of db_of w1) + 1000 * unat ttl"
  shows "\<not> (\<exists>u. ext_user req' = Some u \<and> au_jti u = j)"
  by (rule redis_env.live_blacklist_rejects [OF assms])

section \<open>Examples\<close>

definition demo_config :: "auth_mode \<Rightarrow> auth_config" where
  "demo_config m = \<lparr>c_jwt_secret = ''s'', c_jwt_issuer = ''i'', c_jwt_expiry = 900, c_refresh_expiry = 604800,
     c_auth_mode = m, c_google_client_id = None, c_google_client_secret = None, c_github_client_id = None,
     c_github_client_secret = None, c_oauth_redirect_url = None, c_sidecar_shared_secret = None,
     c_fail_open = False, c_rate_limits = rate_limit_config_default, c_cookie_secure = True\<rparr>"

definition demo_claims :: claims where
  "demo_claims = \<lparr>sub = ''ann'', cemail = ''a@x'', cname = None, cprovider = ''local'',
     exp_at = 1000000900, iat = 1000000000, iss = ''i'', jti = ''j''\<rparr>"

definition demo_token :: string where
  "demo_token = projr (ref_jwt_encode ''s'' demo_claims)"

definition demo_request :: "auth_mode \<Rightarrow> string \<Rightarrow> (string \<times> string) list \<Rightarrow> request" where
  "demo_request m meth hs = \<lparr>req_method = meth, path = ''/notes'', headers = hs,
     ext_auth = Some (auth_service_new (demo_config m)), ext_redis = True, ext_user = None\<rparr>"

definition bearer_request :: request where
  "bearer_request = demo_request BothMode ''POST'' [(''authorization'', ''bearer '' @ demo_token)]"

definition demo_world :: "(rdb, pg, osstate) world" where
  "demo_world = ref_world empty_rdb \<lparr>users = [], note_rows = []\<rparr>"

lemma trim_start_pack [simp]: "trim_start (pack xs) = pack xs"
proof (cases xs)
  case (Cons x ys)
  have g: "graphic (CHR ''.'')" "graphic (CHR ''x'')" by (simp_all add: graphic_def byte_def)
  show ?thesis
    by (cases x) (simp_all add: Cons pack_def pack_field_def trim_start_graphic g)
qed (simp add: pack_def)

lemma decode_demo [simp]: "0 \<le> t \<Longrightarrow> t \<le> 1000000900000 \<Longrightarrow> ref_jwt_decode ''s'' ''i'' t demo_token = Inr demo_claims"
  by (simp add: ref_jwt_decode_def demo_token_def ref_jwt_encode_def demo_claims_def)

lemma trim_demo [simp]: "trim_start demo_token = demo_token"
  by (simp add: demo_token_def ref_jwt_encode_def)

lemmas middleware_defs = auth_middleware_def auth_decide_def resolve_auth_user_def extract_bearer_def
  validate_token_def blacklist_check_def blacklisted_in_process_def header_text_def Let_def

lemma bearer_ci [simp]: "eq_ignore_ascii_case ''bearer'' ''Bearer''"
  by code_simp

lemma bearer_request_user:
  "run (auth_decide (ref_env 0 Map.empty) bearer_request) demo_world =
     (Inr (bearer_request\<lparr>ext_user := Some (user_of_claims demo_claims)\<rparr>), demo_world)"
  by (simp add: middleware_defs run_simps bearer_request_def demo_request_def public_path_def
      auth_service_new_def jwt_new_def demo_config_def demo_world_def ref_defs cache_defs
      ref_cmd_defs user_of_claims_def starts_with_def demo_claims_def)

theorem authenticated_only_by_credentials_witness:
  "bearer_credentials (ref_env 0 Map.empty) bearer_request (auth_service_new (demo_config BothMode))
     1000000000000 (user_of_claims demo_claims)"
proof -
  have n: "ext_user bearer_request = None" by (simp add: bearer_request_def demo_request_def)
  have c: "header_text L (headers bearer_request) ''cookie'' = None" for L
    by (simp add: bearer_request_def demo_request_def header_text_def)
  have t: "fst (os_now ref_os (outside demo_world)) = 1000000000000"
    by (simp add: ref_os_def demo_world_def ref_world_def)
  have s: "ext_auth bearer_request = Some (auth_service_new (demo_config BothMode))"
    by (simp add: bearer_request_def demo_request_def)
  from authenticated_only_by_credentials [OF bearer_request_user n, of "user_of_claims demo_claims"]
  show ?thesis by (auto simp: s t c cookie_credentials_def)
qed

definition cookie_request :: "(string \<times> string) list \<Rightarrow> request" where
  "cookie_request hs = demo_request CookieMode ''POST'' ((''cookie'', ''session=u; csrf_token=t'') # hs)"

theorem csrf_enforced_witness:
  "run (auth_middleware (ref_env 0 Map.empty) (\<lambda>_. Ret \<lparr>status = 200, body = JNull\<rparr>)
      (cookie_request [(''x-csrf-token'', ''u'')])) demo_world =
    (rejection_response RejForbidden, demo_world)"
proof -
  let ?r = "cookie_request [(''x-csrf-token'', ''u'')]"
  let ?E = "ref_env 0 Map.empty :: (rdb, pg, osstate) env"
  have p: "\<not> public_path (path ?r)"
    by (simp add: cookie_request_def demo_request_def public_path_def starts_with_def)
  have h: "header_text (e_lib ?E) (headers ?r) ''authorization'' = None"
    "header_text (e_lib ?E) (headers ?r) ''cookie'' = Some ''session=u; csrf_token=t''"
    "header_text (e_lib ?E) (headers ?r) ''x-csrf-token'' = Some ''u''"
    by (simp_all add: cookie_request_def demo_request_def header_text_def ref_lib_def)
  have cs: "\<forall>c \<in> set [(''session'', ''u''), (''csrf_token'', ''t'')]. cookie_ok c"
    by (simp add: cookie_ok_def graphic_def byte_def)
  have v: "parse_cookie_value ''session=u; csrf_token=t'' ''session'' = Some ''u''"
    "parse_cookie_value ''session=u; csrf_token=t'' ''csrf_token'' = Some ''t''"
    using cookie_value [OF cs, of "''session''"] cookie_value [OF cs, of "''csrf_token''"]
    by (simp_all add: cookie_header_def)
  have s: "ext_auth ?r = Some (auth_service_new (demo_config CookieMode))"
    "c_auth_mode (config (auth_service_new (demo_config CookieMode))) \<noteq> BearerMode"
    "state_changing (req_method ?r)"
    by (simp_all add: cookie_request_def demo_request_def auth_service_new_def demo_config_def state_changing_def)
  have "\<not> csrf_pair (e_lib ?E) ?r ''session=u; csrf_token=t''"
    unfolding csrf_pair_def h(3) v(2) by simp
  with csrf_enforced [OF s(1) p s(2) h(1,2) v(1)] s(3) show ?thesis by blast
qed

text \<open>The same request after its token was blacklisted for 900 seconds.\<close>

definition blacklisted_world :: "(rdb, pg, osstate) world" where
  "blacklisted_world = demo_world\<lparr>redis := put ''app:blacklist:j'' (RStr ''true'', Some 1000000900000) empty_rdb\<rparr>"

lemma elapse_0_put1 [simp]:
  "keys d = Map.empty \<Longrightarrow> rclock d \<le> e \<Longrightarrow> elapse 0 (put k (v, Some e) d) = put k (v, Some e) d"
  by (cases d) (auto simp: elapse_def put_def live_def fun_eq_iff)

lemma blacklist_demo:
  "run (cache_set (ref_env 0 Map.empty) ref_bool_codec ''blacklist'' ''j'' True 900) demo_world
     = (Inr (), blacklisted_world)"
  by (simp add: cache_defs run_simps ref_cmd_defs ref_bool_codec_def blacklisted_world_def demo_world_def
      ref_world_def empty_rdb_def)

lemma blacklisted_request:
  "run (auth_decide (ref_env 0 Map.empty) bearer_request) blacklisted_world = (Inr bearer_request, blacklisted_world)"
proof -
  have t: "parse_bool ''true'' = Some True" by code_simp
  show ?thesis
    by (simp add: middleware_defs run_simps bearer_request_def demo_request_def public_path_def cache_blacklisted_def
        auth_service_new_def jwt_new_def demo_config_def demo_world_def ref_defs cache_defs blacklisted_world_def
        ref_cmd_defs user_of_claims_def starts_with_def demo_claims_def ref_bool_codec_def t)
qed

theorem blacklisted_token_rejected_witness:
  "ext_user (projr (fst (run (auth_decide (ref_env 0 Map.empty) bearer_request) blacklisted_world)))
     \<noteq> Some (user_of_claims demo_claims)"
proof -
  let ?E = "ref_env 0 Map.empty"
  have b: "bool_codec (e_lib ?E) = ref_bool_codec" by (simp add: ref_lib_def)
  have "\<not> (\<exists>u. ext_user bearer_request = Some u \<and> au_jti u = ''j'')"
    by (rule blacklisted_token_rejected [OF ref_env.redis_env_axioms _ blacklist_demo [folded b] _ blacklisted_request])
      (simp_all add: b [simplified] bearer_request_def demo_request_def later_def live_def rdb_of_def blacklisted_world_def
        auth_service_new_def demo_config_def make_key_def)
  moreover have "au_jti (user_of_claims demo_claims) = ''j''" by (simp add: user_of_claims_def demo_claims_def)
  ultimately show ?thesis by (auto simp: blacklisted_request)
qed

end
