(* ===== verification/Client_Ip.thy ===== *)
theory Client_Ip
  imports Auth_Middleware
begin

text \<open>
  The address a request is rate-limited by (\<open>client_ip\<close> and its helpers in \<open>backend/auth/src/routes.rs\<close>),
  with the standard library's IP addresses: their classification and their text.
\<close>

section \<open>Addresses\<close>

type_synonym u16 = "16 word"

text \<open>The four octets, or the eight segments.\<close>

datatype ip_addr = V4 u8 u8 u8 u8 | V6 "u16 list"

fun v4_is_loopback :: "ip_addr \<Rightarrow> bool" where
  "v4_is_loopback (V4 a b c d) = (a = 127)"
| "v4_is_loopback _ = False"

fun v4_is_private :: "ip_addr \<Rightarrow> bool" where
  "v4_is_private (V4 a b c d) =
     (a = 10 \<or> a = 172 \<and> 16 \<le> b \<and> b \<le> 31 \<or> a = 192 \<and> b = 168)"
| "v4_is_private _ = False"

fun v4_is_link_local :: "ip_addr \<Rightarrow> bool" where
  "v4_is_link_local (V4 a b c d) = (a = 169 \<and> b = 254)"
| "v4_is_link_local _ = False"

fun is_proxy_peer :: "ip_addr \<Rightarrow> bool" where
  "is_proxy_peer (V4 a b c d) =
     (v4_is_loopback (V4 a b c d) \<or> v4_is_private (V4 a b c d) \<or> v4_is_link_local (V4 a b c d))"
| "is_proxy_peer (V6 segs) =
     (segs = [0, 0, 0, 0, 0, 0, 0, 1] \<or> and (segs ! 0) 0xfe00 = 0xfc00 \<or> and (segs ! 0) 0xffc0 = 0xfe80)"

subsection \<open>Their text\<close>

fun show_hex :: "nat \<Rightarrow> string" where
  "show_hex n = (if n < 16 then [hex_digit n] else show_hex (n div 16) @ [hex_digit (n mod 16)])"

declare show_hex.simps [simp del]

fun v4_text :: "u8 \<Rightarrow> u8 \<Rightarrow> u8 \<Rightarrow> u8 \<Rightarrow> string" where
  "v4_text a b c d = join ''.'' (map (\<lambda>x. show_nat (unat x)) [a, b, c, d])"

text \<open>The first longest run of zero segments: its start and its length.\<close>

fun zero_run :: "nat \<Rightarrow> nat \<times> nat \<Rightarrow> nat \<times> nat \<Rightarrow> u16 list \<Rightarrow> nat \<times> nat" where
  "zero_run i current longest [] = longest"
| "zero_run i current longest (s # ss) =
     (if s = 0 then
        (let cur = (if snd current = 0 then i else fst current, snd current + 1) in
         zero_run (i + 1) cur (if snd longest < snd cur then cur else longest) ss)
      else zero_run (i + 1) (0, 0) longest ss)"

definition segments_text :: "u16 list \<Rightarrow> string" where
  "segments_text segs = join '':'' (map (\<lambda>s. show_hex (unat s)) segs)"

fun ip_text :: "ip_addr \<Rightarrow> string" where
  "ip_text (V4 a b c d) = v4_text a b c d"
| "ip_text (V6 segs) =
     (if take 6 segs = [0, 0, 0, 0, 0, 0xffff] then
        (let x = segs ! 6; y = segs ! 7 in
         ''::ffff:'' @ v4_text (ucast (drop_bit 8 x)) (ucast x) (ucast (drop_bit 8 y)) (ucast y))
      else case zero_run 0 (0, 0) (0, 0) segs of (start, len) \<Rightarrow>
        if 1 < len then segments_text (take start segs) @ ''::'' @ segments_text (drop (start + len) segs)
        else segments_text segs)"

lemma ip_text_examples:
  "ip_text (V6 [0x2001, 0xdb8, 0, 0, 1, 0, 0, 1]) = ''2001:db8::1:0:0:1''"
  "ip_text (V6 [0, 0, 0, 0, 0, 0, 0, 1]) = ''::1''"
  "ip_text (V6 [0, 0, 0, 0, 0, 0xffff, 0xc000, 0x280]) = ''::ffff:192.0.2.128''"
  "ip_text (V4 10 0 0 255) = ''10.0.0.255''"
  by (simp_all add: segments_text_def show_hex.simps show_nat.simps hex_digit_def digit_def drop_bit_eq_div
      char_of_def bit_Suc_0_iff)

section \<open>The client of a request\<close>

definition forwarded_ip :: "lib \<Rightarrow> (string \<times> string) list \<Rightarrow> string option" where
  "forwarded_ip L hs =
     (let nonempty = (\<lambda>s. if s = [] then None else Some s);
          forwarded = Option.bind (header_text L hs ''x-forwarded-for'')
            (\<lambda>v. nonempty (trim (hd (split_on (CHR '','') v)))) in
      case forwarded of
        Some ip \<Rightarrow> Some ip
      | None \<Rightarrow> Option.bind (header_text L hs ''x-real-ip'') (\<lambda>s. nonempty (trim s)))"

definition client_ip ::
  "('r, 'd, 'o) env \<Rightarrow> (string \<times> string) list \<Rightarrow> ip_addr option \<Rightarrow> string" where
  "client_ip E hs peer =
     (let direct = (case peer of Some a \<Rightarrow> ip_text a | None \<Rightarrow> ''unknown'') in
      if e_vars E ''TRUST_PROXY'' \<noteq> None then
        (if (case peer of Some a \<Rightarrow> is_proxy_peer a | None \<Rightarrow> False)
         then (case forwarded_ip (e_lib E) hs of Some ip \<Rightarrow> ip | None \<Rightarrow> direct)
         else direct)
      else direct)"

text \<open>
  A client that connects directly cannot choose the address it is limited
  by: unless the service is told to trust a proxy and the peer's address is a loopback, private or
  link-local one, the address is the peer's, whatever headers the request carries. Behind a trusted
  proxy it is the first entry of \<open>X-Forwarded-For\<close> that is not blank.
\<close>

theorem client_ip_not_spoofable:
  "(e_vars E ''TRUST_PROXY'' = None \<or> \<not> is_proxy_peer a \<longrightarrow> client_ip E hs (Some a) = ip_text a)
   \<and> client_ip E hs None = ''unknown''
   \<and> (e_vars E ''TRUST_PROXY'' \<noteq> None \<and> is_proxy_peer a
      \<and> header_text (e_lib E) hs ''x-forwarded-for'' = Some v \<and> trim (hd (split_on (CHR '','') v)) \<noteq> []
      \<longrightarrow> client_ip E hs (Some a) = trim (hd (split_on (CHR '','') v)))"
  by (simp add: client_ip_def forwarded_ip_def Let_def)

text \<open>Example: a public peer and a proxy, with a forged header.\<close>

theorem client_ip_not_spoofable_witness:
  "client_ip (ref_env 0 (Map.empty(''TRUST_PROXY'' \<mapsto> ''1''))) [(''x-forwarded-for'', ''9.9.9.9, 10.0.0.1'')]
     (Some (V4 8 8 8 8)) = ''8.8.8.8'' \<and>
   client_ip (ref_env 0 (Map.empty(''TRUST_PROXY'' \<mapsto> ''1''))) [(''x-forwarded-for'', ''9.9.9.9, 10.0.0.1'')]
     (Some (V4 10 0 0 1)) = ''9.9.9.9''"
proof -
  let ?E = "ref_env 0 (Map.empty(''TRUST_PROXY'' \<mapsto> ''1''))"
  let ?h = "[(''x-forwarded-for'', ''9.9.9.9, 10.0.0.1'')]"
  have h: "header_text (e_lib ?E) ?h ''x-forwarded-for'' = Some ''9.9.9.9, 10.0.0.1''"
    by (simp add: header_text_def ref_lib_def)
  have t: "trim (hd (split_on (CHR '','') ''9.9.9.9, 10.0.0.1'')) = ''9.9.9.9''" by code_simp
  have p: "\<not> is_proxy_peer (V4 8 8 8 8)" "is_proxy_peer (V4 10 0 0 1)" "ip_text (V4 8 8 8 8) = ''8.8.8.8''"
    by code_simp+
  have e: "e_vars ?E ''TRUST_PROXY'' \<noteq> None" by simp
  note n = client_ip_not_spoofable [of ?E _ ?h "''9.9.9.9, 10.0.0.1''"]
  have "client_ip ?E ?h (Some (V4 8 8 8 8)) = ip_text (V4 8 8 8 8)"
    using n [of "V4 8 8 8 8"] p(1) by blast
  moreover have "client_ip ?E ?h (Some (V4 10 0 0 1)) = trim (hd (split_on (CHR '','') ''9.9.9.9, 10.0.0.1''))"
    using n [of "V4 10 0 0 1"] p(2) e h t by (metis list.distinct(1))
  ultimately show ?thesis unfolding p(3) t by blast
qed

end
