(* ===== verification/OAuth.thy ===== *)
theory OAuth
  imports Auth_Middleware
begin

text \<open>
  Signing in with Google or GitHub (\<open>backend/auth/src/oauth.rs\<close>) and the checks of the OAuth state
  (\<open>routes.rs\<close>). The \<open>oauth2\<close> and \<open>reqwest\<close> libraries with the providers behind them are the record \<open>web\<close>.
\<close>

section \<open>Providers and clients\<close>

datatype oauth_provider = Google | GitHub

fun provider_text :: "oauth_provider \<Rightarrow> string" where
  "provider_text Google = ''google''"
| "provider_text GitHub = ''github''"

record oauth_user_info =
  oi_provider :: oauth_provider
  oi_provider_id :: string
  oi_email :: string
  oi_name :: "string option"

record oauth_client =
  oc_id :: string
  oc_secret :: string
  oc_auth_uri :: string
  oc_token_uri :: string

record oauth_service =
  google_client :: "oauth_client option"
  github_client :: "oauth_client option"

record google_user =
  goog_id :: string
  goog_email :: string
  goog_name :: "string option"

record github_user =
  gh_id :: int
  gh_login :: string
  gh_email :: "string option"
  gh_name :: "string option"

record github_email =
  ge_email :: string
  ge_primary :: bool

text \<open>
  A response: whether its status is a success, the status as text, and its body read as JSON of the
  expected type (or the error of reading it). A request gives a response or its error as text.
\<close>

record 'b reply =
  rp_success :: bool
  rp_status :: string
  rp_json :: "string + 'b"

type_synonym ('o, 'b) fetch = "'o \<Rightarrow> (string + 'b reply) \<times> 'o"

text \<open>
  \<open>wb_redirect_error\<close> is the error of \<open>RedirectUrl::new\<close>, if it fails; \<open>wb_authorize\<close> builds the URL and
  draws the state (\<open>CsrfToken::new_random\<close>); \<open>wb_token\<close> is the token request. The others are \<open>GET\<close>
  requests of the named resources with an access token.
\<close>

record 'o web =
  wb_redirect_error :: "string \<Rightarrow> string option"
  wb_authorize :: "oauth_client \<Rightarrow> string \<Rightarrow> string \<Rightarrow> 'o \<Rightarrow> (string \<times> string) \<times> 'o"
  wb_token :: "oauth_client \<Rightarrow> string \<Rightarrow> 'o \<Rightarrow> (string + string) \<times> 'o"
  wb_google_user :: "string \<Rightarrow> ('o, google_user) fetch"
  wb_github_user :: "string \<Rightarrow> ('o, github_user) fetch"
  wb_github_emails :: "string \<Rightarrow> ('o, github_email list) fetch"

section \<open>The service\<close>

definition oauth_service_new ::
  "string option \<Rightarrow> string option \<Rightarrow> string option \<Rightarrow> string option \<Rightarrow> oauth_service" where
  "oauth_service_new google_id google_secret github_id github_secret =
     \<lparr>google_client = (case (google_id, google_secret) of
          (Some i, Some s) \<Rightarrow> Some \<lparr>oc_id = i, oc_secret = s,
             oc_auth_uri = ''https://accounts.google.com/o/oauth2/v2/auth'',
             oc_token_uri = ''https://www.googleapis.com/oauth2/v3/token''\<rparr>
        | _ \<Rightarrow> None),
      github_client = (case (github_id, github_secret) of
          (Some i, Some s) \<Rightarrow> Some \<lparr>oc_id = i, oc_secret = s,
             oc_auth_uri = ''https://github.com/login/oauth/authorize'',
             oc_token_uri = ''https://github.com/login/oauth/access_token''\<rparr>
        | _ \<Rightarrow> None)\<rparr>"

fun is_configured :: "oauth_service \<Rightarrow> oauth_provider \<Rightarrow> bool" where
  "is_configured svc Google = (google_client svc \<noteq> None)"
| "is_configured svc GitHub = (github_client svc \<noteq> None)"

fun get_client :: "oauth_service \<Rightarrow> oauth_provider \<Rightarrow> api_error + oauth_client" where
  "get_client svc Google = ok_or (ServiceUnavailable ''Google OAuth not configured'') (google_client svc)"
| "get_client svc GitHub = ok_or (ServiceUnavailable ''GitHub OAuth not configured'') (github_client svc)"

fun oauth_scope :: "oauth_provider \<Rightarrow> string" where
  "oauth_scope Google = ''email''"
| "oauth_scope GitHub = ''user:email''"

definition get_redirect_url ::
  "('r, 'd, 'o) env \<Rightarrow> 'o web \<Rightarrow> oauth_service \<Rightarrow> oauth_provider \<Rightarrow> string \<Rightarrow>
   ('r, 'd, 'o, string \<times> string) handler" where
  "get_redirect_url E W svc prov redirect_url =
     attempt (Ret (get_client svc prov)) (\<lambda>client.
       case wb_redirect_error W redirect_url of
         Some e \<Rightarrow> Ret (Inl (InternalError (''Invalid redirect URL: '' @ e)))
       | None \<Rightarrow> map_result Inr (os_act E (\<lambda>_. wb_authorize W client redirect_url (oauth_scope prov))))"

section \<open>Fetching the user\<close>

definition fetch_google_user_info ::
  "('r, 'd, 'o) env \<Rightarrow> 'o web \<Rightarrow> string \<Rightarrow> ('r, 'd, 'o, oauth_user_info) handler" where
  "fetch_google_user_info E W access_token =
     map_result (\<lambda>r. case r of
         Inl e \<Rightarrow> Inl (InternalError (''Google userinfo request failed: '' @ e))
       | Inr resp \<Rightarrow>
           if \<not> rp_success resp
           then Inl (InternalError (''Google userinfo failed: HTTP '' @ rp_status resp))
           else (case rp_json resp of
               Inl e \<Rightarrow> Inl (InternalError (''Google userinfo parse failed: '' @ e))
             | Inr d \<Rightarrow> Inr \<lparr>oi_provider = Google, oi_provider_id = goog_id d,
                            oi_email = goog_email d, oi_name = goog_name d\<rparr>))
       (os_act E (\<lambda>_. wb_google_user W access_token))"

definition fetch_github_primary_email ::
  "('r, 'd, 'o) env \<Rightarrow> 'o web \<Rightarrow> string \<Rightarrow> ('r, 'd, 'o, string option) handler" where
  "fetch_github_primary_email E W access_token =
     map_result (\<lambda>r. case r of
         Inl e \<Rightarrow> Inl (InternalError (''GitHub email request failed: '' @ e))
       | Inr resp \<Rightarrow>
           if \<not> rp_success resp
           then Inl (InternalError (''GitHub email request failed: HTTP '' @ rp_status resp))
           else (case rp_json resp of
               Inl e \<Rightarrow> Inl (InternalError (''GitHub email parse failed: '' @ e))
             | Inr emails \<Rightarrow> Inr (map_option ge_email (find ge_primary emails))))
       (os_act E (\<lambda>_. wb_github_emails W access_token))"

text \<open>The dash of the second message is the three bytes of an em dash.\<close>

definition em_dash :: string where
  "em_dash = map char_of [0xE2, 0x80, 0x94 :: nat]"

definition fetch_github_user_info ::
  "('r, 'd, 'o) env \<Rightarrow> 'o web \<Rightarrow> string \<Rightarrow> ('r, 'd, 'o, oauth_user_info) handler" where
  "fetch_github_user_info E W access_token =
     bind (os_act E (\<lambda>_. wb_github_user W access_token)) (\<lambda>r. case r of
         Inl e \<Rightarrow> Ret (Inl (InternalError (''GitHub user request failed: '' @ e)))
       | Inr resp \<Rightarrow>
           if \<not> rp_success resp
           then Ret (Inl (InternalError (''GitHub user failed: HTTP '' @ rp_status resp)))
           else (case rp_json resp of
               Inl e \<Rightarrow> Ret (Inl (InternalError (''GitHub user parse failed: '' @ e)))
             | Inr user \<Rightarrow>
                 attempt (case gh_email user of
                     Some e \<Rightarrow> Ret (Inr e)
                   | None \<Rightarrow> attempt (fetch_github_primary_email E W access_token) (\<lambda>e. case e of
                         Some e \<Rightarrow> Ret (Inr e)
                       | None \<Rightarrow> Ret (Inl (InternalError (''GitHub email not available '' @ em_dash
                           @ '' make sure user:email scope is granted''))))) (\<lambda>mail.
                 Ret (Inr \<lparr>oi_provider = GitHub, oi_provider_id = show_int (gh_id user), oi_email = mail,
                   oi_name = (case gh_name user of Some n \<Rightarrow> Some n | None \<Rightarrow> Some (gh_login user))\<rparr>))))"

definition exchange_code ::
  "('r, 'd, 'o) env \<Rightarrow> 'o web \<Rightarrow> oauth_service \<Rightarrow> oauth_provider \<Rightarrow> string \<Rightarrow>
   ('r, 'd, 'o, oauth_user_info) handler" where
  "exchange_code E W svc prov code_text =
     attempt (Ret (get_client svc prov)) (\<lambda>client.
     attempt (map_result (map_err (\<lambda>e. InternalError (''Token exchange failed: '' @ e)))
         (os_act E (\<lambda>_. wb_token W client code_text))) (\<lambda>access_token.
     case prov of
       Google \<Rightarrow> fetch_google_user_info E W access_token
     | GitHub \<Rightarrow> fetch_github_user_info E W access_token))"

lemma exchange_code_keeps:
  assumes "\<And>w o'. v (w\<lparr>outside := o'\<rparr>) = v w"
  shows "keeps v (exchange_code E W svc prov c)" and "keeps v (get_redirect_url E W svc prov u)"
proof -
  note k = keeps_os_act [of v, OF assms]
  have e: "keeps v (fetch_github_primary_email E W t)" for t
    unfolding fetch_github_primary_email_def by (intro keeps_map_result k)
  show "keeps v (exchange_code E W svc prov c)"
    unfolding exchange_code_def fetch_google_user_info_def fetch_github_user_info_def
    by (auto intro!: keeps_attempt keeps_bind keeps_map_result k e split: oauth_provider.split sum.split option.split)
  show "keeps v (get_redirect_url E W svc prov u)"
    unfolding get_redirect_url_def
    by (auto intro!: keeps_attempt keeps_map_result k split: option.split)
qed

section \<open>The OAuth state\<close>

definition parse_provider :: "string \<Rightarrow> api_error + oauth_provider" where
  "parse_provider s = (let l = lowercase s in
     if l = ''google'' then Inr Google
     else if l = ''github'' then Inr GitHub
     else Inl (ValidationError (''Unknown OAuth provider: '' @ s)))"

record stored_oauth_state =
  so_provider :: string
  so_session_id :: "string option"

definition parse_stored_oauth_state :: "lib \<Rightarrow> string \<Rightarrow> api_error + stored_oauth_state" where
  "parse_stored_oauth_state L stored = (case parse_json L stored of
       Some d \<Rightarrow>
         (case json_str (json_get d ''provider'') of
            Some prov \<Rightarrow> Inr \<lparr>so_provider = prov,
              so_session_id = (case json_str (json_get d ''session_id'') of
                  Some s \<Rightarrow> if s = [] then None else Some s | None \<Rightarrow> None)\<rparr>
          | None \<Rightarrow> Inl (Unauthorized ''Invalid OAuth state: JSON without provider''))
     | None \<Rightarrow>
         if stored = [] then Inl (Unauthorized ''Invalid OAuth state'')
         else Inr \<lparr>so_provider = stored, so_session_id = None\<rparr>)"

definition validate_oauth_state_match ::
  "stored_oauth_state \<Rightarrow> string \<Rightarrow> string option \<Rightarrow> api_error + unit" where
  "validate_oauth_state_match stored expected_provider current_session_id =
     (if so_provider stored \<noteq> expected_provider then Inl (Unauthorized ''OAuth provider mismatch'')
      else case so_session_id stored of
        None \<Rightarrow> Inr ()
      | Some bound \<Rightarrow>
          (case current_session_id of
             Some sid \<Rightarrow> if sid = bound then Inr () else Inl (Unauthorized ''OAuth session mismatch'')
           | None \<Rightarrow> Inl (Unauthorized ''OAuth requires an active session'')))"

text \<open>The JSON value \<open>oauth_redirect\<close> stores, and the first cookie of a name, with no check that it is not empty.\<close>

definition oauth_state_value :: "oauth_provider \<Rightarrow> string option \<Rightarrow> json" where
  "oauth_state_value prov session_id = JObj [(''provider'', JStr (provider_text prov)),
     (''session_id'', case session_id of Some s \<Rightarrow> JStr s | None \<Rightarrow> JNull)]"

definition first_cookie :: "lib \<Rightarrow> (string \<times> string) list \<Rightarrow> string \<Rightarrow> string option" where
  "first_cookie L hs name = (case header_text L hs ''cookie'' of
       None \<Rightarrow> None
     | Some cookies \<Rightarrow>
         find_map (\<lambda>c. strip_prefix (name @ ''='') (trim c)) (split_on (CHR '';'') cookies))"

text \<open>
  C38. A state that \<open>oauth_redirect\<close> stored is accepted exactly for its own
  provider and, if the redirect was made with a session, exactly with that session: provided the JSON
  library reads back the text it printed for the state, no other provider and no other browser session
  can use it.
\<close>

theorem oauth_state_binds_session:
  assumes "parse_json L (show_json L (oauth_state_value prov session_id)) = Some (oauth_state_value prov session_id)"
  shows "(\<exists>st. parse_stored_oauth_state L (show_json L (oauth_state_value prov session_id)) = Inr st
            \<and> validate_oauth_state_match st (provider_text prov') current = Inr ()) \<longleftrightarrow>
         prov' = prov \<and> (session_id = None \<or> session_id = Some [] \<or> current = session_id)"
proof -
  have p: "provider_text prov = provider_text prov' \<longleftrightarrow> prov' = prov"
    by (cases prov; cases prov') simp_all
  show ?thesis
    using assms
    by (auto simp: parse_stored_oauth_state_def oauth_state_value_def validate_oauth_state_match_def p
        split: option.splits)
qed

theorem oauth_state_binds_session_witness:
  "parse_stored_oauth_state ref_lib (show_json ref_lib (oauth_state_value Google (Some ''u''))) =
     Inr \<lparr>so_provider = ''google'', so_session_id = Some ''u''\<rparr> \<and>
   (\<nexists>st. parse_stored_oauth_state ref_lib (show_json ref_lib (oauth_state_value Google (Some ''u''))) = Inr st
      \<and> validate_oauth_state_match st ''google'' (Some ''v'') = Inr ())"
proof -
  have "unpack_option (pack_option (Some ''u'')) = Some ''u''"
    "unpack_option (pack_option (Some ''google'')) = Some ''google''" by (rule unpack_pack_option)+
  then have j: "parse_json ref_lib (show_json ref_lib (oauth_state_value Google (Some ''u''))) =
      Some (oauth_state_value Google (Some ''u''))"
    by (simp add: ref_lib_def ref_parse_json_def ref_show_json_def oauth_state_value_def del: unpack_pack_option)
  from oauth_state_binds_session [OF j, of Google "Some ''v''"] j show ?thesis
    by (simp add: parse_stored_oauth_state_def oauth_state_value_def)
qed

end
