(* ===== verification/Auth_Routes.thy ===== *)
theory Auth_Routes
  imports Client_Ip OAuth
begin

text \<open>
  The handlers of the authentication routes (\<open>backend/auth/src/routes.rs\<close>). Each is the whole handler:
  its checks, its early returns and every call that changes state, in the order of the code. The
  metrics counters and the log are not modelled.
\<close>

section \<open>State, requests and responses\<close>

record 'o auth_state =
  st_auth :: auth_service
  st_oauth :: oauth_service
  st_web :: "'o web"

abbreviation cfg :: "'o auth_state \<Rightarrow> auth_config" where
  "cfg A \<equiv> config (st_auth A)"

record register_request =
  rr_email :: string
  rr_password :: string
  rr_name :: "string option"

record login_request =
  lr_email :: string
  lr_password :: string

record user_info =
  ui_id :: string
  ui_email :: string
  ui_name :: "string option"
  ui_provider :: string

record token_response =
  tr_access_token :: string
  tr_token_type :: string
  tr_expires_in :: u64
  tr_refresh_token :: string
  tr_csrf_token :: string
  tr_user :: user_info

definition internal :: "string \<Rightarrow> sqlx_error \<Rightarrow> api_error" where
  "internal msg e = InternalError msg"

section \<open>Shared steps\<close>

definition check_rate_limit ::
  "('r, 'd, 'o) env \<Rightarrow> string \<Rightarrow> u64 \<Rightarrow> u64 \<Rightarrow> ('r, 'd, 'o, unit) handler" where
  "check_rate_limit E key window max_requests =
     attempt (lift_err api_error_of_cache (rate_limit_check E key window max_requests)) (\<lambda>result.
       if \<not> allowed result then
         bind (os_act E os_now) (\<lambda>clock.
         Ret (Inl (RateLimited (''Rate limit exceeded. Try again after '' @
           show_u64 (saturating_sub (reset_at result) (unix_timestamp_ms clock) div 1000) @ '' seconds.''))))
       else Ret (Inr ()))"

definition validate_registration :: "register_request \<Rightarrow> api_error + unit" where
  "validate_registration b =
     (if rr_email b = [] \<or> CHR ''@'' \<notin> set (rr_email b) then Inl (ValidationError ''Invalid email'')
      else if length (rr_password b) < 8
        then Inl (ValidationError ''Password must be at least 8 characters'')
      else if 1024 < length (rr_password b)
        then Inl (ValidationError ''Password must be at most 1024 characters'')
      else Inr ())"

text \<open>A blocking task: the runtime may fail to run it (\<open>JoinError\<close>), otherwise its result counts.\<close>

definition spawn_blocking ::
  "('r, 'd, 'o) env \<Rightarrow> string \<Rightarrow> ('r, 'd, 'o, 'a) handler \<Rightarrow> ('r, 'd, 'o, 'a) handler" where
  "spawn_blocking E msg task = bind (os_act E os_join) (\<lambda>joined. case joined of
       Some e \<Rightarrow> Ret (Inl (InternalError (msg @ e)))
     | None \<Rightarrow> task)"

text \<open>A new refresh token for a user, stored in Redis.\<close>

definition issue_refresh_token ::
  "('r, 'd, 'o) env \<Rightarrow> 'o auth_state \<Rightarrow> string \<Rightarrow> ('r, 'd, 'o, string) handler" where
  "issue_refresh_token E A uid =
     attempt (map_result (map_err (\<lambda>e. InternalError (''failed to generate refresh token: '' @ e)))
         (os_act E (\<lambda>OS. os_random OS 32))) (\<lambda>bytes.
     let refresh_token = hex_encode bytes in
     attempt (lift_err api_error_of_cache
         (cache_set E (str_codec (e_lib E)) ''refresh'' refresh_token uid (c_refresh_expiry (cfg A)))) (\<lambda>_.
     Ret (Inr refresh_token)))"

text \<open>A new session, created now.\<close>

definition open_session ::
  "('r, 'd, 'o) env \<Rightarrow> 'o auth_state \<Rightarrow> string \<Rightarrow> string \<Rightarrow> string option \<Rightarrow> string \<Rightarrow>
   ('r, 'd, 'o, string) handler" where
  "open_session E A uid mail name prov =
     bind (os_act E os_now) (\<lambda>clock.
     if clock < 0 then Ret (Inl (InternalError ''Time went backwards''))
     else lift_err api_error_of_cache (session_create E
       \<lparr>user_id = uid, email = mail, sname = name, provider = prov, created_at = unix_timestamp_secs clock\<rparr>
       (c_jwt_expiry (cfg A))))"

definition token_response_of ::
  "'o auth_state \<Rightarrow> string \<Rightarrow> string \<Rightarrow> string \<Rightarrow> user_info \<Rightarrow> token_response" where
  "token_response_of A access_token refresh_token csrf_token user =
     \<lparr>tr_access_token = access_token, tr_token_type = ''Bearer'', tr_expires_in = c_jwt_expiry (cfg A),
      tr_refresh_token = refresh_token, tr_csrf_token = csrf_token, tr_user = user\<rparr>"

section \<open>Register and login\<close>

definition register ::
  "('r, 'd, 'o) env \<Rightarrow> 'o auth_state \<Rightarrow> (string \<times> string) list \<Rightarrow> ip_addr option \<Rightarrow> register_request \<Rightarrow>
   ('r, 'd, 'o, nat \<times> cookies \<times> token_response) handler" where
  "register E A hs peer b =
     (let L = e_lib E; c = cfg A; ip = client_ip E hs peer in
      attempt (check_rate_limit E (''register:'' @ ip) (register_window_secs (c_rate_limits c))
        (register_max (c_rate_limits c))) (\<lambda>_.
      attempt (Ret (validate_registration b)) (\<lambda>_.
      attempt (lift_err (internal ''Internal server error'') (db_act E (\<lambda>D. q_user_id_by_email D (rr_email b)))) (\<lambda>existing.
      if existing \<noteq> None then Ret (Inl (Conflict ''Email already registered'')) else
      attempt (spawn_blocking E ''Password hashing task failed: '' (hash_password E (rr_password b))) (\<lambda>password_hash.
      attempt (lift_err (\<lambda>e. case e of
             SqlxDatabase True _ \<Rightarrow> Conflict ''Email already registered''
           | _ \<Rightarrow> InternalError ''Internal server error'')
         (db_act E (\<lambda>D. q_insert_user D (rr_email b) (rr_name b) password_hash))) (\<lambda>uid.
      attempt (create_token E (jwt (st_auth A)) uid (rr_email b) (rr_name b) ''local'') (\<lambda>access_token.
      attempt (issue_refresh_token E A uid) (\<lambda>refresh_token.
      attempt (set_auth_cookies E [] access_token refresh_token None (c_jwt_expiry c) (c_refresh_expiry c)
        (c_cookie_secure c)) (\<lambda>(h, csrf_token).
      attempt (open_session E A uid (rr_email b) (rr_name b) ''local'') (\<lambda>session_id.
      attempt (Ret (set_cookie L h ''session'' session_id (c_jwt_expiry c) True (c_cookie_secure c))) (\<lambda>h.
      Ret (Inr (201, h, token_response_of A access_token refresh_token csrf_token
        \<lparr>ui_id = uid, ui_email = rr_email b, ui_name = rr_name b, ui_provider = ''local''\<rparr>)))))))))))))"

text \<open>The answer to a failed login: the failure is counted, as far as Redis can, and hidden.\<close>

definition login_failed :: "('r, 'd, 'o) env \<Rightarrow> string \<Rightarrow> ('r, 'd, 'o, 'a) handler" where
  "login_failed E ip = bind (backoff_increment E ip ''login'') (\<lambda>_.
     Ret (Inl (Unauthorized ''Invalid credentials'')))"

definition login_checks ::
  "('r, 'd, 'o) env \<Rightarrow> 'o auth_state \<Rightarrow> string \<Rightarrow> string \<Rightarrow> ('r, 'd, 'o, unit) handler" where
  "login_checks E A ip mail =
     (let c = c_rate_limits (cfg A) in
      bind (join_all2 E (backoff_check E ip ''login'')
             (join_all2 E
               (check_rate_limit E (''login:email:'' @ mail) (login_email_window_secs c) (login_email_max c))
               (check_rate_limit E (''login:ip:'' @ ip) (login_ip_window_secs c) (login_ip_max c))))
        (\<lambda>(backoff, email_limit, ip_limit). case backoff of
            Inl (BackoffBlocked remaining_secs count label) \<Rightarrow>
              Ret (Inl (RateLimited (''Too many login attempts ('' @ show_u64 count @ '' failures). Try again in ''
                @ show_u64 remaining_secs @ '' seconds ('' @ label @ '' cooldown).'')))
          | Inl e \<Rightarrow> Ret (Inl (InternalError (''Backoff check failed: '' @ cache_error_display e)))
          | Inr _ \<Rightarrow> attempt (Ret email_limit) (\<lambda>_. Ret ip_limit)))"

definition login ::
  "('r, 'd, 'o) env \<Rightarrow> 'o auth_state \<Rightarrow> (string \<times> string) list \<Rightarrow> ip_addr option \<Rightarrow> login_request \<Rightarrow>
   ('r, 'd, 'o, cookies \<times> token_response) handler" where
  "login E A hs peer b =
     (let L = e_lib E; c = cfg A; ip = client_ip E hs peer in
      attempt (login_checks E A ip (lr_email b)) (\<lambda>_.
      attempt (lift_err (internal ''Internal server error'') (db_act E (\<lambda>D. q_user_by_email D (lr_email b)))) (\<lambda>user.
      case user of None \<Rightarrow> login_failed E ip | Some u \<Rightarrow>
      (case u_password_hash u of None \<Rightarrow> login_failed E ip | Some hash \<Rightarrow>
      attempt (spawn_blocking E ''Password verification task failed: ''
        (Ret (verify_password L (lr_password b) hash))) (\<lambda>matches.
      if \<not> matches then login_failed E ip else
      attempt (create_token E (jwt (st_auth A)) (u_id u) (u_email u) (u_name u) (u_provider u)) (\<lambda>access_token.
      attempt (issue_refresh_token E A (u_id u)) (\<lambda>refresh_token.
      attempt (set_auth_cookies E [] access_token refresh_token None (c_jwt_expiry c) (c_refresh_expiry c)
        (c_cookie_secure c)) (\<lambda>(h, csrf_token).
      attempt (open_session E A (u_id u) (u_email u) (u_name u) (u_provider u)) (\<lambda>session_id.
      attempt (Ret (set_cookie L h ''session'' session_id (c_jwt_expiry c) True (c_cookie_secure c))) (\<lambda>h.
      Ret (Inr (h, token_response_of A access_token refresh_token csrf_token
        \<lparr>ui_id = u_id u, ui_email = u_email u, ui_name = u_name u, ui_provider = u_provider u\<rparr>))))))))))))"

section \<open>Logout and account deletion\<close>

definition clear_cookie :: "lib \<Rightarrow> cookies \<Rightarrow> string \<Rightarrow> bool \<Rightarrow> api_error + cookies" where
  "clear_cookie L h name http_only =
     (let cookie = (if http_only then name @ ''=; HttpOnly; Path=/; Max-Age=0; SameSite=Lax''
                    else name @ ''=; Path=/; Max-Age=0; SameSite=Lax'') in
      case header_value_error L cookie of
        Some _ \<Rightarrow> Inl (InternalError ''failed to parse Set-Cookie header'')
      | None \<Rightarrow> Inr (h @ [cookie]))"

text \<open>The body is the refresh token of the request, if it has one (an absent field is the empty text).\<close>

definition logout ::
  "('r, 'd, 'o) env \<Rightarrow> 'o auth_state \<Rightarrow> auth_user \<Rightarrow> string option \<Rightarrow> ('r, 'd, 'o, nat \<times> cookies) handler" where
  "logout E A user b =
     (let L = e_lib E in
      attempt (case b of
          Some t \<Rightarrow> if t = [] then Ret (Inr ())
                    else lift_err api_error_of_cache (cache_delete E ''refresh'' t)
        | None \<Rightarrow> Ret (Inr ())) (\<lambda>_.
      attempt (lift_err api_error_of_cache
        (cache_set E (bool_codec L) ''blacklist'' (au_jti user) True (c_jwt_expiry (cfg A)))) (\<lambda>_.
      bind (case au_session_id user of
          Some sid \<Rightarrow> map_result (\<lambda>_. ()) (session_destroy E sid)
        | None \<Rightarrow> Ret ()) (\<lambda>_.
      attempt (Ret (clear_cookie L [] ''session'' True)) (\<lambda>h.
      attempt (Ret (clear_cookie L h ''access_token'' True)) (\<lambda>h.
      attempt (Ret (clear_cookie L h ''refresh_token'' True)) (\<lambda>h.
      attempt (Ret (clear_cookie L h ''csrf_token'' False)) (\<lambda>h.
      Ret (Inr (204, h))))))))))"

definition delete_account ::
  "('r, 'd, 'o) env \<Rightarrow> 'o auth_state \<Rightarrow> auth_user \<Rightarrow> ('r, 'd, 'o, nat) handler" where
  "delete_account E A user =
     attempt (lift_err api_error_of_cache
       (cache_set E (bool_codec (e_lib E)) ''blacklist'' (au_jti user) True (c_jwt_expiry (cfg A)))) (\<lambda>_.
     bind (case au_session_id user of
         Some sid \<Rightarrow> map_result (\<lambda>_. ()) (session_destroy E sid)
       | None \<Rightarrow> Ret ()) (\<lambda>_.
     attempt (lift_err (internal ''Failed to delete account data'')
       (db_act E (\<lambda>D. q_delete_notes_of D (au_user_id user)))) (\<lambda>_.
     attempt (lift_err (internal ''Failed to delete account'')
       (db_act E (\<lambda>D. q_delete_user D (au_user_id user)))) (\<lambda>rows.
     if rows = 0 then Ret (Inl (NotFound ''User not found'')) else Ret (Inr 204)))))"

section \<open>Password reset\<close>

definition reset_token_ttl_secs :: u64 where
  "reset_token_ttl_secs = 3600"

definition forgot_password ::
  "('r, 'd, 'o) env \<Rightarrow> 'o auth_state \<Rightarrow> (string \<times> string) list \<Rightarrow> ip_addr option \<Rightarrow> string \<Rightarrow>
   ('r, 'd, 'o, nat \<times> json) handler" where
  "forgot_password E A hs peer mail =
     (let c = c_rate_limits (cfg A); ip = client_ip E hs peer in
      attempt (check_rate_limit E (''forgot:'' @ ip) (forgot_window_secs c) (forgot_max c)) (\<lambda>_.
      if mail = [] \<or> CHR ''@'' \<notin> set mail then Ret (Inl (ValidationError ''Invalid email'')) else
      attempt (lift_err (internal ''Internal server error'') (db_act E (\<lambda>D. q_user_id_by_email D mail))) (\<lambda>user.
      attempt (case user of
          Some uid \<Rightarrow> bind (os_act E os_uuid) (\<lambda>reset_token.
            lift_err api_error_of_cache
              (cache_set E (str_codec (e_lib E)) ''reset'' reset_token uid reset_token_ttl_secs))
        | None \<Rightarrow> Ret (Inr ())) (\<lambda>_.
      Ret (Inr (202, JObj [(''message'', JStr ''If the email exists, a reset link has been generated'')]))))))"

definition reset_password ::
  "('r, 'd, 'o) env \<Rightarrow> string \<Rightarrow> string \<Rightarrow> ('r, 'd, 'o, json) handler" where
  "reset_password E token password =
     (if length password < 8 then Ret (Inl (ValidationError ''Password must be at least 8 characters''))
      else if 1024 < length password
        then Ret (Inl (ValidationError ''Password must be at most 1024 characters''))
      else if token = [] then Ret (Inl (ValidationError ''Reset token is required''))
      else
      attempt (lift_err api_error_of_cache (cache_get E (str_codec (e_lib E)) ''reset'' token)) (\<lambda>stored.
      attempt (Ret (ok_or (Unauthorized ''Invalid or expired reset token'') stored)) (\<lambda>uid.
      attempt (spawn_blocking E ''Password hashing task failed: '' (hash_password E password)) (\<lambda>password_hash.
      attempt (lift_err (internal ''Internal server error'')
        (db_act E (\<lambda>D. q_update_password D password_hash uid))) (\<lambda>rows.
      attempt (lift_err api_error_of_cache (cache_delete E ''reset'' token)) (\<lambda>_.
      if rows = 0 then Ret (Inl (Unauthorized ''Cannot reset password for OAuth-linked accounts''))
      else bind (session_destroy_all_for_user E uid) (\<lambda>_.
      Ret (Inr (JObj [(''message'', JStr ''Password updated successfully'')])))))))))"

section \<open>Refresh\<close>

definition refresh_token_of ::
  "lib \<Rightarrow> (string \<times> string) list \<Rightarrow> string option \<Rightarrow> string option" where
  "refresh_token_of L hs b = (case b of
       Some t \<Rightarrow> if t \<noteq> [] then Some t else first_cookie L hs ''refresh_token''
     | None \<Rightarrow> first_cookie L hs ''refresh_token'')"

definition refresh ::
  "('r, 'd, 'o) env \<Rightarrow> 'o auth_state \<Rightarrow> (string \<times> string) list \<Rightarrow> string option \<Rightarrow>
   ('r, 'd, 'o, cookies \<times> token_response) handler" where
  "refresh E A hs b =
     (let c = cfg A in
      attempt (Ret (ok_or (Unauthorized ''Invalid or expired refresh token'') (refresh_token_of (e_lib E) hs b)))
        (\<lambda>token.
      attempt (lift_err api_error_of_cache (refresh_token_rotate E token)) (\<lambda>rotated. case rotated of
        None \<Rightarrow> Ret (Inl (Unauthorized ''Invalid or expired refresh token''))
      | Some uid \<Rightarrow>
      attempt (lift_err (internal ''Internal server error'') (db_act E (\<lambda>D. q_user_by_id D uid))) (\<lambda>user.
      attempt (Ret (ok_or (Unauthorized ''Invalid credentials'') user)) (\<lambda>u.
      attempt (lift_err (\<lambda>_. InternalError ''Failed to create token'')
        (create_token E (jwt (st_auth A)) (u_id u) (u_email u) (u_name u) (u_provider u))) (\<lambda>access_token.
      attempt (issue_refresh_token E A (u_id u)) (\<lambda>new_refresh_token.
      attempt (set_auth_cookies E [] access_token new_refresh_token None (c_jwt_expiry c) (c_refresh_expiry c)
        (c_cookie_secure c)) (\<lambda>(h, csrf_token).
      Ret (Inr (h, token_response_of A access_token new_refresh_token csrf_token
        \<lparr>ui_id = u_id u, ui_email = u_email u, ui_name = u_name u, ui_provider = u_provider u\<rparr>))))))))))"

section \<open>Providers and the current user\<close>

definition list_providers :: "auth_config \<Rightarrow> string list" where
  "list_providers c = (if c_google_client_id c \<noteq> None then [''google''] else [])
     @ (if c_github_client_id c \<noteq> None then [''github''] else [])"

definition providers :: "'o auth_state \<Rightarrow> json" where
  "providers A = JObj [(''providers'', JArr (map JStr (list_providers (cfg A))))]"

definition me :: "auth_user \<Rightarrow> json" where
  "me u = JObj [(''user_id'', JStr (au_user_id u)), (''email'', JStr (au_email u)),
     (''name'', case au_name u of Some n \<Rightarrow> JStr n | None \<Rightarrow> JNull), (''provider'', JStr (au_provider u))]"

section \<open>OAuth\<close>

definition oauth_redirect ::
  "('r, 'd, 'o) env \<Rightarrow> 'o auth_state \<Rightarrow> (string \<times> string) list \<Rightarrow> string \<Rightarrow>
   ('r, 'd, 'o, nat \<times> string) handler" where
  "oauth_redirect E A hs provider_name =
     attempt (Ret (parse_provider provider_name)) (\<lambda>prov.
     if \<not> is_configured (st_oauth A) prov
     then Ret (Inl (ServiceUnavailable (provider_text prov @ '' OAuth not configured'')))
     else
     attempt (Ret (ok_or (InternalError ''OAUTH_REDIRECT_URL not configured'') (c_oauth_redirect_url (cfg A))))
       (\<lambda>redirect_url.
     attempt (get_redirect_url E (st_web A) (st_oauth A) prov redirect_url) (\<lambda>(url, csrf).
     let session_id = first_cookie (e_lib E) hs ''session'';
         csrf_value = show_json (e_lib E) (oauth_state_value prov session_id) in
     attempt (lift_err api_error_of_cache
       (cache_set E (str_codec (e_lib E)) ''oauth_csrf'' csrf csrf_value 600)) (\<lambda>_.
     Ret (Inr (302, url))))))"

text \<open>What follows once the state has been taken out of the store.\<close>

definition oauth_finish ::
  "('r, 'd, 'o) env \<Rightarrow> 'o auth_state \<Rightarrow> (string \<times> string) list \<Rightarrow> oauth_provider \<Rightarrow> string \<Rightarrow> string \<Rightarrow>
   ('r, 'd, 'o, nat \<times> cookies \<times> token_response) handler" where
  "oauth_finish E A hs prov code_text stored =
     (let L = e_lib E; c = cfg A in
      attempt (Ret (parse_stored_oauth_state L stored)) (\<lambda>stored_state.
      attempt (Ret (validate_oauth_state_match stored_state (provider_text prov) (first_cookie L hs ''session'')))
        (\<lambda>_.
      attempt (lift_err (\<lambda>_. Unauthorized ''OAuth authentication failed'')
        (exchange_code E (st_web A) (st_oauth A) prov code_text)) (\<lambda>user_info.
      bind (os_act E os_uuid) (\<lambda>id.
      attempt (lift_err (internal ''Internal server error'')
        (db_act E (\<lambda>D. q_upsert_user D id (oi_email user_info) (oi_name user_info) (provider_text prov)))) (\<lambda>uid.
      attempt (create_token E (jwt (st_auth A)) uid (oi_email user_info) (oi_name user_info) (provider_text prov))
        (\<lambda>access_token.
      attempt (issue_refresh_token E A uid) (\<lambda>refresh_token.
      attempt (open_session E A uid (oi_email user_info) (oi_name user_info) (provider_text prov)) (\<lambda>session_id.
      attempt (set_auth_cookies E [] access_token refresh_token (Some session_id) (c_jwt_expiry c)
        (c_refresh_expiry c) (c_cookie_secure c)) (\<lambda>(h, csrf_token).
      Ret (Inr (200, h, token_response_of A access_token refresh_token csrf_token
        \<lparr>ui_id = uid, ui_email = oi_email user_info, ui_name = oi_name user_info,
         ui_provider = provider_text prov\<rparr>))))))))))))"

definition oauth_callback ::
  "('r, 'd, 'o) env \<Rightarrow> 'o auth_state \<Rightarrow> (string \<times> string) list \<Rightarrow> ip_addr option \<Rightarrow> string \<Rightarrow>
   string \<Rightarrow> string \<Rightarrow> ('r, 'd, 'o, nat \<times> cookies \<times> token_response) handler" where
  "oauth_callback E A hs peer provider_name code_text state_text =
     (let c = c_rate_limits (cfg A) in
      attempt (Ret (parse_provider provider_name)) (\<lambda>prov.
      attempt (check_rate_limit E (''oauth_callback:'' @ client_ip E hs peer) (oauth_callback_window_secs c)
        (oauth_callback_max c)) (\<lambda>_.
      attempt (lift_err api_error_of_cache
        (cache_get_delete E (str_codec (e_lib E)) ''oauth_csrf'' state_text)) (\<lambda>stored. case stored of
        None \<Rightarrow> Ret (Inl (Unauthorized ''Invalid or expired OAuth state''))
      | Some s \<Rightarrow> oauth_finish E A hs prov code_text s))))"

end
