(* ===== verification/Storage.thy ===== *)
theory Storage
  imports Auth_Middleware
begin

text \<open>
  Object storage (\<open>backend/storage/src\<close>): the configuration, the SigV4 signer, the client of the
  S3-compatible service, and the routes. The \<open>url\<close>, \<open>urlencoding\<close>, \<open>sha2\<close>, \<open>chrono\<close>, \<open>quick_xml\<close> and
  \<open>reqwest\<close> crates are the record \<open>s3\<close>.
\<close>

section \<open>The libraries\<close>

text \<open>What the code uses of a \<open>url::Url\<close>: its text, host, path and query.\<close>

record url =
  url_text :: string
  url_host :: "string option"
  url_path :: string
  url_query :: "string option"

record http_request =
  rq_method :: string
  rq_url :: string
  rq_headers :: "(string \<times> string) list"
  rq_body :: string

text \<open>
  A response: its status, its headers as far as they are text, and the result of reading the body.
\<close>

record http_response =
  rs_status :: nat
  rs_status_text :: string
  rs_headers :: "string \<Rightarrow> string option"
  rs_body :: "string + string"

text \<open>
  \<open>s3_stamp\<close> formats milliseconds since the epoch as \<open>%Y%m%dT%H%M%SZ\<close>; \<open>s3_pairs\<close> appends query pairs;
  \<open>s3_decode\<close> is \<open>urlencoding::decode\<close> (\<open>None\<close>: not UTF-8); \<open>s3_escape\<close> is \<open>quick_xml::escape\<close>.
\<close>

record 'o s3 =
  s3_parse :: "string \<Rightarrow> string + url"
  s3_join :: "url \<Rightarrow> string \<Rightarrow> string + url"
  s3_pairs :: "url \<Rightarrow> (string \<times> string) list \<Rightarrow> url"
  s3_decode :: "string \<Rightarrow> string option"
  s3_sha256 :: "string \<Rightarrow> u8 list"
  s3_stamp :: "int \<Rightarrow> string"
  s3_escape :: "string \<Rightarrow> string"
  s3_send :: "http_request \<Rightarrow> 'o \<Rightarrow> (string + http_response) \<times> 'o"

definition is_success :: "http_response \<Rightarrow> bool" where
  "is_success resp \<longleftrightarrow> 200 \<le> rs_status resp \<and> rs_status resp \<le> 299"

section \<open>Configuration\<close>

record storage_config =
  endpoint :: string
  public_endpoint :: string
  access_key :: string
  storage_secret :: string
  bucket :: string
  region :: string
  auto_create_bucket :: bool

definition storage_config_from_env :: "(string \<Rightarrow> string option) \<Rightarrow> storage_config option" where
  "storage_config_from_env vars =
     (case vars ''RUSTFS_ENDPOINT'' of None \<Rightarrow> None | Some ep \<Rightarrow>
     (case vars ''RUSTFS_ACCESS_KEY'' of None \<Rightarrow> None | Some ak \<Rightarrow>
     (case vars ''RUSTFS_SECRET_KEY'' of None \<Rightarrow> None | Some sk \<Rightarrow>
      if ak = ''CHANGE_ME'' \<or> sk = ''CHANGE_ME'' then None
      else Some \<lparr>endpoint = ep,
        public_endpoint = (case vars ''RUSTFS_PUBLIC_ENDPOINT'' of Some p \<Rightarrow> p | None \<Rightarrow> ep),
        access_key = ak, storage_secret = sk,
        bucket = (case vars ''RUSTFS_BUCKET'' of Some b \<Rightarrow> b | None \<Rightarrow> ''fullstackhex''),
        region = (case vars ''RUSTFS_REGION'' of Some r \<Rightarrow> r | None \<Rightarrow> ''us-east-1''),
        auto_create_bucket = (case Option.bind (vars ''RUSTFS_AUTO_CREATE_BUCKET'') parse_bool of
            Some b \<Rightarrow> b | None \<Rightarrow> True)\<rparr>)))"

section \<open>Signing\<close>

definition build_object_url :: "'o s3 \<Rightarrow> string \<Rightarrow> string \<Rightarrow> string \<Rightarrow> string + url" where
  "build_object_url S ep bkt key = (case s3_parse S ep of Inl e \<Rightarrow> Inl e
     | Inr base \<Rightarrow> s3_join S base (if key = [] then ''/'' @ bkt @ ''/'' else ''/'' @ bkt @ ''/'' @ key))"

definition object_url :: "'o s3 \<Rightarrow> string \<Rightarrow> storage_config \<Rightarrow> string \<Rightarrow> api_error + url" where
  "object_url S ep c key =
     map_err (\<lambda>e. InternalError (''Invalid URL: '' @ e)) (build_object_url S ep (bucket c) key)"

definition sha256_hex :: "'o s3 \<Rightarrow> string \<Rightarrow> string" where
  "sha256_hex S d = hex_encode (s3_sha256 S d)"

text \<open>The keys and texts of HMAC are byte strings.\<close>

definition bytes_text :: "u8 list \<Rightarrow> string" where
  "bytes_text bs = map (\<lambda>b. char_of (unat b)) bs"

definition hmac_step :: "lib \<Rightarrow> string \<Rightarrow> string \<Rightarrow> api_error + u8 list" where
  "hmac_step L k d = map_err (\<lambda>e. InternalError (''HMAC key error: '' @ e)) (hmac_sha256 L k d)"

definition signing_signature ::
  "lib \<Rightarrow> storage_config \<Rightarrow> string \<Rightarrow> string \<Rightarrow> api_error + string" where
  "signing_signature L c date_stamp string_to_sign =
     (case hmac_step L (''AWS4'' @ storage_secret c) date_stamp of Inl e \<Rightarrow> Inl e | Inr k_date \<Rightarrow>
     (case hmac_step L (bytes_text k_date) (region c) of Inl e \<Rightarrow> Inl e | Inr k_region \<Rightarrow>
     (case hmac_step L (bytes_text k_region) ''s3'' of Inl e \<Rightarrow> Inl e | Inr k_service \<Rightarrow>
     (case hmac_step L (bytes_text k_service) ''aws4_request'' of Inl e \<Rightarrow> Inl e | Inr k_signing \<Rightarrow>
     (case hmac_step L (bytes_text k_signing) string_to_sign of Inl e \<Rightarrow> Inl e
      | Inr s \<Rightarrow> Inr (hex_encode s))))))"

record signed_request =
  sr_host :: string
  sr_amz_date :: string
  sr_payload_hash :: string
  sr_authorization :: string

definition NL :: string where
  "NL = [CHR 0x0A]"

definition credential_scope_of :: "storage_config \<Rightarrow> string \<Rightarrow> string" where
  "credential_scope_of c date_stamp = date_stamp @ ''/'' @ region c @ ''/s3/aws4_request''"

definition string_to_sign_of :: "'o s3 \<Rightarrow> string \<Rightarrow> string \<Rightarrow> string \<Rightarrow> string" where
  "string_to_sign_of S amz_date scope canonical_request =
     ''AWS4-HMAC-SHA256'' @ NL @ amz_date @ NL @ scope @ NL @ sha256_hex S canonical_request"

definition headers_to_sign :: "string \<Rightarrow> string \<Rightarrow> string \<Rightarrow> string \<Rightarrow> (string \<times> string) list" where
  "headers_to_sign host payload_hash amz_date content_type =
     sort_key fst ([(''host'', host), (''x-amz-content-sha256'', payload_hash), (''x-amz-date'', amz_date)] @
       (if content_type \<noteq> [] then [(''content-type'', content_type)] else []))"

definition canonical_request_of ::
  "string \<Rightarrow> string \<Rightarrow> string \<Rightarrow> (string \<times> string) list \<Rightarrow> string \<Rightarrow> string" where
  "canonical_request_of verb uri query hs payload_hash =
     verb @ NL @ uri @ NL @ query @ NL @
     join NL (map (\<lambda>(k, v). lowercase k @ '':'' @ trim v) hs) @ NL @ NL @
     join '';'' (map (\<lambda>(k, v). lowercase k) hs) @ NL @ payload_hash"

definition sign_request_inner ::
  "lib \<Rightarrow> 'o s3 \<Rightarrow> storage_config \<Rightarrow> string \<Rightarrow> string \<Rightarrow> string \<Rightarrow> string \<Rightarrow> int \<Rightarrow> api_error + signed_request" where
  "sign_request_inner L S c verb link content_type payload_hash now =
     (let amz_date = s3_stamp S now; date_stamp = take 8 amz_date in
      case s3_parse S link of Inl e \<Rightarrow> Inl (InternalError (''Invalid URL: '' @ e)) | Inr parsed \<Rightarrow>
      (let host = (case url_host parsed of Some h \<Rightarrow> h | None \<Rightarrow> ''localhost'');
           query = (case url_query parsed of Some q \<Rightarrow> q | None \<Rightarrow> []);
           hs = headers_to_sign host payload_hash amz_date content_type;
           scope = credential_scope_of c date_stamp;
           creq = canonical_request_of verb (url_path parsed) query hs payload_hash in
       case signing_signature L c date_stamp (string_to_sign_of S amz_date scope creq) of
         Inl e \<Rightarrow> Inl e
       | Inr signature \<Rightarrow> Inr \<lparr>sr_host = host, sr_amz_date = amz_date, sr_payload_hash = payload_hash,
           sr_authorization = ''AWS4-HMAC-SHA256 Credential='' @ access_key c @ ''/'' @ scope @
             '', SignedHeaders='' @ join '';'' (map (\<lambda>(k, v). lowercase k) hs) @ '', Signature='' @ signature\<rparr>))"

definition sign_request ::
  "lib \<Rightarrow> 'o s3 \<Rightarrow> storage_config \<Rightarrow> string \<Rightarrow> string \<Rightarrow> string \<Rightarrow> string \<Rightarrow> int \<Rightarrow> api_error + signed_request" where
  "sign_request L S c verb link content_type bdy now =
     sign_request_inner L S c verb link content_type (sha256_hex S bdy) now"

definition sign_request_unsigned ::
  "lib \<Rightarrow> 'o s3 \<Rightarrow> storage_config \<Rightarrow> string \<Rightarrow> string \<Rightarrow> string \<Rightarrow> int \<Rightarrow> api_error + signed_request" where
  "sign_request_unsigned L S c verb link content_type now =
     sign_request_inner L S c verb link content_type ''UNSIGNED-PAYLOAD'' now"

definition presigned_url ::
  "lib \<Rightarrow> 'o s3 \<Rightarrow> storage_config \<Rightarrow> string \<Rightarrow> string \<Rightarrow> u64 \<Rightarrow> int \<Rightarrow> api_error + string" where
  "presigned_url L S c key verb expiry_secs now =
     (case object_url S (public_endpoint c) c key of Inl e \<Rightarrow> Inl e | Inr u \<Rightarrow>
      (let host = (case url_host u of Some h \<Rightarrow> h | None \<Rightarrow> ''localhost'');
           amz_date = s3_stamp S now; date_stamp = take 8 amz_date;
           scope = credential_scope_of c date_stamp;
           credential = access_key c @ ''/'' @ scope;
           query_params = sort_key fst
             [(''X-Amz-Algorithm'', ''AWS4-HMAC-SHA256''),
              (''X-Amz-Credential'', concat (map (\<lambda>ch. if ch = CHR ''/'' then ''%2F'' else [ch]) credential)),
              (''X-Amz-Date'', amz_date), (''X-Amz-Expires'', show_u64 expiry_secs),
              (''X-Amz-SignedHeaders'', ''host'')];
           canonical_query = join ''&'' (map (\<lambda>(k, v). k @ ''='' @ v) query_params);
           creq = verb @ NL @ url_path u @ NL @ canonical_query @ NL @ ''host:'' @ lowercase host @ NL @ NL @
             ''host'' @ NL @ ''UNSIGNED-PAYLOAD'' in
       case signing_signature L c date_stamp (string_to_sign_of S amz_date scope creq) of
         Inl e \<Rightarrow> Inl e
       | Inr signature \<Rightarrow> Inr (url_text u @ ''?'' @ canonical_query @ ''&X-Amz-Signature='' @ signature)))"

section \<open>The client\<close>

text \<open>The four headers every signed request carries.\<close>

definition sig_headers :: "signed_request \<Rightarrow> (string \<times> string) list" where
  "sig_headers s = [(''Host'', sr_host s), (''X-Amz-Date'', sr_amz_date s),
     (''X-Amz-Content-Sha256'', sr_payload_hash s), (''Authorization'', sr_authorization s)]"

text \<open>Sign at the present time (\<open>None\<close>: with an unsigned payload), then send.\<close>

definition signed_at ::
  "('r, 'd, 'o) env \<Rightarrow> 'o s3 \<Rightarrow> storage_config \<Rightarrow> string \<Rightarrow> string \<Rightarrow> string \<Rightarrow> string option \<Rightarrow>
   ('r, 'd, 'o, signed_request) handler" where
  "signed_at E S c verb link content_type payload =
     bind (os_act E os_now) (\<lambda>now. Ret (case payload of
         Some bdy \<Rightarrow> sign_request (e_lib E) S c verb link content_type bdy now
       | None \<Rightarrow> sign_request_unsigned (e_lib E) S c verb link content_type now))"

definition send_to ::
  "('r, 'd, 'o) env \<Rightarrow> 'o s3 \<Rightarrow> string \<Rightarrow> string \<Rightarrow> string \<Rightarrow> (string \<times> string) list \<Rightarrow> string \<Rightarrow>
   ('r, 'd, 'o, http_response) handler" where
  "send_to E S what verb link hs bdy =
     lift_err (\<lambda>e. ServiceUnavailable (what @ e))
       (os_act E (\<lambda>_. s3_send S \<lparr>rq_method = verb, rq_url = link, rq_headers = hs, rq_body = bdy\<rparr>))"

text \<open>\<open>resp.text().await.unwrap_or_default()\<close>.\<close>

definition text_or_empty :: "http_response \<Rightarrow> string" where
  "text_or_empty resp = (case rs_body resp of Inr t \<Rightarrow> t | Inl _ \<Rightarrow> [])"

definition http_failure :: "string \<Rightarrow> http_response \<Rightarrow> api_error" where
  "http_failure what resp = ServiceUnavailable (what @ '' failed: HTTP '' @ rs_status_text resp)"

definition http_failure_text :: "string \<Rightarrow> http_response \<Rightarrow> api_error" where
  "http_failure_text what resp =
     ServiceUnavailable (what @ '' failed: HTTP '' @ rs_status_text resp @ '': '' @ text_or_empty resp)"

definition client_upload ::
  "('r, 'd, 'o) env \<Rightarrow> 'o s3 \<Rightarrow> storage_config \<Rightarrow> string \<Rightarrow> string \<Rightarrow> string \<Rightarrow> ('r, 'd, 'o, unit) handler" where
  "client_upload E S c key bdy content_type =
     attempt (Ret (object_url S (endpoint c) c key)) (\<lambda>u.
     attempt (signed_at E S c ''PUT'' (url_text u) content_type (Some bdy)) (\<lambda>signed.
     attempt (send_to E S ''Upload failed: '' ''PUT'' (url_text u)
       ((''Content-Type'', content_type) # sig_headers signed) bdy) (\<lambda>resp.
     Ret (if is_success resp then Inr () else Inl (http_failure ''Upload'' resp)))))"

definition client_upload_streaming ::
  "('r, 'd, 'o) env \<Rightarrow> 'o s3 \<Rightarrow> storage_config \<Rightarrow> string \<Rightarrow> string \<Rightarrow> string \<Rightarrow> ('r, 'd, 'o, unit) handler" where
  "client_upload_streaming E S c key content_type bdy =
     attempt (Ret (object_url S (endpoint c) c key)) (\<lambda>u.
     attempt (signed_at E S c ''PUT'' (url_text u) content_type None) (\<lambda>signed.
     attempt (send_to E S ''Upload failed: '' ''PUT'' (url_text u)
       ((''Content-Type'', content_type) # sig_headers signed) bdy) (\<lambda>resp.
     Ret (if is_success resp then Inr () else Inl (http_failure_text ''Upload'' resp)))))"

definition max_download_size :: nat where
  "max_download_size = 104857600"

definition client_download ::
  "('r, 'd, 'o) env \<Rightarrow> 'o s3 \<Rightarrow> storage_config \<Rightarrow> string \<Rightarrow> ('r, 'd, 'o, string) handler" where
  "client_download E S c key =
     attempt (Ret (object_url S (endpoint c) c key)) (\<lambda>u.
     attempt (signed_at E S c ''GET'' (url_text u) [] (Some [])) (\<lambda>signed.
     attempt (send_to E S ''Download failed: '' ''GET'' (url_text u) (sig_headers signed) []) (\<lambda>resp.
     if \<not> is_success resp then Ret (Inl (NotFound (''Object not found: '' @ key)))
     else attempt (Ret (map_err (\<lambda>e. InternalError (''Failed to read response: '' @ e)) (rs_body resp))) (\<lambda>bytes.
     Ret (if max_download_size < length bytes
          then Inl (InternalError ''Download exceeds maximum size (100 MB)'') else Inr bytes)))))"

definition max_streaming_download :: nat where
  "max_streaming_download = 524288000"

definition client_download_streaming ::
  "('r, 'd, 'o) env \<Rightarrow> 'o s3 \<Rightarrow> storage_config \<Rightarrow> string \<Rightarrow> ('r, 'd, 'o, http_response) handler" where
  "client_download_streaming E S c key =
     attempt (Ret (object_url S (endpoint c) c key)) (\<lambda>u.
     attempt (signed_at E S c ''GET'' (url_text u) [] None) (\<lambda>signed.
     attempt (send_to E S ''Download failed: '' ''GET'' (url_text u) (sig_headers signed) []) (\<lambda>resp.
     if \<not> is_success resp then Ret (Inl (NotFound (''Object not found: '' @ key)))
     else (case Option.bind (rs_headers resp ''content-length'') parse_u64 of
         Some len \<Rightarrow> if of_nat max_streaming_download < len
           then Ret (Inl (ValidationError (''Object too large for streaming download: '' @ key @ '' ('' @
             show_u64 len @ '' bytes, max 500MB)'')))
           else Ret (Inr resp)
       | None \<Rightarrow> Ret (Inr resp)))))"

definition client_delete ::
  "('r, 'd, 'o) env \<Rightarrow> 'o s3 \<Rightarrow> storage_config \<Rightarrow> string \<Rightarrow> ('r, 'd, 'o, unit) handler" where
  "client_delete E S c key =
     attempt (Ret (object_url S (endpoint c) c key)) (\<lambda>u.
     attempt (signed_at E S c ''DELETE'' (url_text u) [] (Some [])) (\<lambda>signed.
     attempt (send_to E S ''Delete failed: '' ''DELETE'' (url_text u) (sig_headers signed) []) (\<lambda>resp.
     Ret (if \<not> is_success resp \<and> rs_status resp \<noteq> 204
          then Inl (http_failure ''Delete'' resp) else Inr ()))))"

text \<open>\<open>str::split\<close> at a nonempty text.\<close>

function split_str :: "string \<Rightarrow> string \<Rightarrow> string \<Rightarrow> string list" where
  "split_str p acc s = (if s = [] then [rev acc]
     else if p \<noteq> [] \<and> starts_with s p then rev acc # split_str p [] (drop (length p) s)
     else split_str p (hd s # acc) (tl s))"
  by pat_completeness auto
termination by (relation "measure (\<lambda>(p, acc, s). length s)") auto

declare split_str.simps [simp del]

record object_info =
  ob_key :: string
  ob_size :: u64
  ob_modified :: string

definition listed_objects :: "string \<Rightarrow> object_info list" where
  "listed_objects bdy = map (\<lambda>cap. \<lparr>ob_key = hd (split_str ''</Key>'' [] cap), ob_size = 0, ob_modified = []\<rparr>)
     (tl (split_str ''<Key>'' [] bdy))"

definition client_list ::
  "('r, 'd, 'o) env \<Rightarrow> 'o s3 \<Rightarrow> storage_config \<Rightarrow> string \<Rightarrow> ('r, 'd, 'o, object_info list) handler" where
  "client_list E S c prefix =
     attempt (Ret (object_url S (endpoint c) c [])) (\<lambda>base.
     let u = s3_pairs S base [(''list-type'', ''2''), (''prefix'', prefix)] in
     attempt (signed_at E S c ''GET'' (url_text u) [] (Some [])) (\<lambda>signed.
     attempt (send_to E S ''List failed: '' ''GET'' (url_text u) (sig_headers signed) []) (\<lambda>resp.
     Ret (map_err (\<lambda>e. InternalError (''Failed to read response: '' @ e))
       (case rs_body resp of Inl e \<Rightarrow> Inl e | Inr bdy \<Rightarrow> Inr (listed_objects bdy))))))"

section \<open>Multipart uploads\<close>

record multipart_upload =
  mu_upload_id :: string
  mu_key :: string

record part_info =
  pi_number :: u32
  pi_etag :: string

text \<open>
  The XML reader of \<open>quick_xml\<close> over a text, with its own state: the next event, and the text up to the end of
  the element just opened. The code tells start tags and the end of the text from all other events.
\<close>

datatype xml_event = XStart string | XEof | XOther

record 'x xml_reader =
  xr_open :: "string \<Rightarrow> 'x"
  xr_event :: "'x \<Rightarrow> (string + xml_event) \<times> 'x"
  xr_text :: "string \<Rightarrow> 'x \<Rightarrow> (string + string) \<times> 'x"

text \<open>The loop over the events; \<open>None\<close>: it does not end.\<close>

partial_function (option) read_upload_id ::
  "'x xml_reader \<Rightarrow> string \<Rightarrow> 'x \<Rightarrow> string option \<Rightarrow> (api_error + string option) option" where
  "read_upload_id X bdy x upload_id = (case xr_event X x of (ev, x1) \<Rightarrow> (case ev of
       Inl e \<Rightarrow> Some (Inl (InternalError (''XML parse error: '' @ e @ '' body='' @ bdy)))
     | Inr XEof \<Rightarrow> Some (Inr upload_id)
     | Inr XOther \<Rightarrow> read_upload_id X bdy x1 upload_id
     | Inr (XStart name) \<Rightarrow>
         if name = ''UploadId'' then (case xr_text X name x1 of (t, x2) \<Rightarrow> (case t of
             Inl e \<Rightarrow> Some (Inl (InternalError (''Failed to read UploadId text: '' @ e)))
           | Inr txt \<Rightarrow> read_upload_id X bdy x2 (Some txt)))
         else if name = ''Key'' then read_upload_id X bdy (snd (xr_text X name x1)) upload_id
         else read_upload_id X bdy x1 upload_id))"

declare read_upload_id.simps [simp del]

definition upload_of_body :: "'x xml_reader \<Rightarrow> string \<Rightarrow> string \<Rightarrow> (api_error + multipart_upload) option" where
  "upload_of_body X key bdy = map_option
     (\<lambda>r. case r of Inl e \<Rightarrow> Inl e | Inr upload_id \<Rightarrow>
        map_sum id (\<lambda>i. \<lparr>mu_upload_id = i, mu_key = key\<rparr>)
          (ok_or (InternalError (''Missing UploadId in response: '' @ bdy)) upload_id))
     (read_upload_id X bdy (xr_open X bdy) None)"

text \<open>\<open>None\<close>: the handler does not return.\<close>

definition create_multipart_upload ::
  "('r, 'd, 'o) env \<Rightarrow> 'o s3 \<Rightarrow> 'x xml_reader \<Rightarrow> storage_config \<Rightarrow> string \<Rightarrow> string \<Rightarrow>
   (('r, 'd, 'o) world, (api_error + multipart_upload) option) prog" where
  "create_multipart_upload E S X c key content_type =
     map_result (\<lambda>r. case r of Inl e \<Rightarrow> Some (Inl e) | Inr bdy \<Rightarrow> upload_of_body X key bdy)
    (attempt (Ret (object_url S (endpoint c) c key)) (\<lambda>u.
     let link = url_text u @ ''?uploads'' in
     attempt (signed_at E S c ''POST'' link content_type None) (\<lambda>signed.
     attempt (send_to E S ''Multipart init failed: '' ''POST'' link
       (sig_headers signed @ (if content_type \<noteq> [] then [(''Content-Type'', content_type)] else [])) []) (\<lambda>resp.
     if \<not> is_success resp then Ret (Inl (http_failure_text ''Multipart init'' resp))
     else Ret (map_err (\<lambda>e. InternalError (''Failed to read init response: '' @ e)) (rs_body resp))))))"

text \<open>\<open>trim_matches('"')\<close>.\<close>

definition trim_quotes :: "string \<Rightarrow> string" where
  "trim_quotes s = (let q = (\<lambda>ch. ch = CHR 0x22) in rev (dropWhile q (rev (dropWhile q s))))"

definition part_etag :: "http_response \<Rightarrow> string" where
  "part_etag resp = trim_quotes (case rs_headers resp ''ETag'' of Some v \<Rightarrow> v | None \<Rightarrow> [])"

definition part_link :: "string \<Rightarrow> u32 \<Rightarrow> string \<Rightarrow> string" where
  "part_link base part_number upload_id =
     base @ ''?partNumber='' @ show_nat (unat part_number) @ ''&uploadId='' @ upload_id"

definition client_upload_part ::
  "('r, 'd, 'o) env \<Rightarrow> 'o s3 \<Rightarrow> storage_config \<Rightarrow> string \<Rightarrow> string \<Rightarrow> u32 \<Rightarrow> string \<Rightarrow>
   ('r, 'd, 'o, part_info) handler" where
  "client_upload_part E S c key upload_id part_number bdy =
     attempt (Ret (object_url S (endpoint c) c key)) (\<lambda>u.
     let link = part_link (url_text u) part_number upload_id in
     attempt (signed_at E S c ''PUT'' link [] (Some bdy)) (\<lambda>signed.
     attempt (send_to E S ''Part upload failed: '' ''PUT'' link (sig_headers signed) bdy) (\<lambda>resp.
     Ret (if is_success resp then Inr \<lparr>pi_number = part_number, pi_etag = part_etag resp\<rparr>
          else Inl (http_failure_text ''Part upload'' resp)))))"

definition upload_part_streaming ::
  "('r, 'd, 'o) env \<Rightarrow> 'o s3 \<Rightarrow> storage_config \<Rightarrow> string \<Rightarrow> string \<Rightarrow> u32 \<Rightarrow> string \<Rightarrow>
   ('r, 'd, 'o, part_info) handler" where
  "upload_part_streaming E S c key upload_id part_number bdy =
     attempt (Ret (object_url S (endpoint c) c key)) (\<lambda>u.
     let link = part_link (url_text u) part_number upload_id in
     attempt (signed_at E S c ''PUT'' link [] None) (\<lambda>signed.
     attempt (send_to E S ''Part upload failed: '' ''PUT'' link (sig_headers signed) bdy) (\<lambda>resp.
     Ret (if is_success resp then Inr \<lparr>pi_number = part_number, pi_etag = part_etag resp\<rparr>
          else Inl (http_failure_text ''Part upload'' resp)))))"

definition build_complete_multipart_xml :: "'o s3 \<Rightarrow> part_info list \<Rightarrow> string" where
  "build_complete_multipart_xml S parts =
     ''<CompleteMultipartUpload xmlns='' @ [CHR 0x22] @ ''http://s3.amazonaws.com/doc/2006-03-01/'' @ [CHR 0x22] @ ''>'' @
     concat (map (\<lambda>p. ''<Part><PartNumber>'' @ show_nat (unat (pi_number p)) @ ''</PartNumber><ETag>'' @ [CHR 0x22] @
       s3_escape S (pi_etag p) @ [CHR 0x22] @ ''</ETag></Part>'') parts) @
     ''</CompleteMultipartUpload>''"

definition complete_multipart_upload ::
  "('r, 'd, 'o) env \<Rightarrow> 'o s3 \<Rightarrow> storage_config \<Rightarrow> string \<Rightarrow> string \<Rightarrow> part_info list \<Rightarrow>
   ('r, 'd, 'o, unit) handler" where
  "complete_multipart_upload E S c key upload_id parts =
     attempt (Ret (object_url S (endpoint c) c key)) (\<lambda>u.
     let link = url_text u @ ''?uploadId='' @ upload_id; xml = build_complete_multipart_xml S parts in
     attempt (signed_at E S c ''POST'' link ''application/xml'' (Some xml)) (\<lambda>signed.
     attempt (send_to E S ''Multipart complete failed: '' ''POST'' link
       ((''Content-Type'', ''application/xml'') # sig_headers signed) xml) (\<lambda>resp.
     Ret (if is_success resp then Inr () else Inl (http_failure_text ''Multipart complete'' resp)))))"

definition abort_multipart_upload ::
  "('r, 'd, 'o) env \<Rightarrow> 'o s3 \<Rightarrow> storage_config \<Rightarrow> string \<Rightarrow> string \<Rightarrow> ('r, 'd, 'o, unit) handler" where
  "abort_multipart_upload E S c key upload_id =
     attempt (Ret (object_url S (endpoint c) c key)) (\<lambda>u.
     let link = url_text u @ ''?uploadId='' @ upload_id in
     attempt (signed_at E S c ''DELETE'' link [] None) (\<lambda>signed.
     attempt (send_to E S ''Multipart abort failed: '' ''DELETE'' link (sig_headers signed) []) (\<lambda>resp.
     Ret (if \<not> is_success resp \<and> rs_status resp \<noteq> 204
          then Inl (http_failure_text ''Multipart abort'' resp) else Inr ()))))"

section \<open>The bucket\<close>

definition bucket_request ::
  "('r, 'd, 'o) env \<Rightarrow> 'o s3 \<Rightarrow> storage_config \<Rightarrow> string \<Rightarrow> string \<Rightarrow> ('r, 'd, 'o, http_response) handler" where
  "bucket_request E S c what verb =
     (let link = endpoint c @ ''/'' @ bucket c in
      attempt (signed_at E S c verb link [] (Some [])) (\<lambda>signed.
      send_to E S what verb link (sig_headers signed) []))"

definition bucket_exists :: "('r, 'd, 'o) env \<Rightarrow> 'o s3 \<Rightarrow> storage_config \<Rightarrow> ('r, 'd, 'o, bool) handler" where
  "bucket_exists E S c =
     attempt (bucket_request E S c ''Storage unreachable: '' ''HEAD'') (\<lambda>resp. Ret (Inr (is_success resp)))"

definition ensure_bucket :: "('r, 'd, 'o) env \<Rightarrow> 'o s3 \<Rightarrow> storage_config \<Rightarrow> ('r, 'd, 'o, unit) handler" where
  "ensure_bucket E S c =
     (if \<not> auto_create_bucket c then Ret (Inr ())
      else attempt (bucket_exists E S c) (\<lambda>found.
        if found then Ret (Inr ())
        else attempt (bucket_request E S c ''Failed to create bucket: '' ''PUT'') (\<lambda>resp.
          Ret (if is_success resp then Inr ()
               else Inl (ServiceUnavailable (''Failed to create bucket: HTTP '' @ rs_status_text resp))))))"

section \<open>The routes\<close>

definition invalid_key :: api_error where
  "invalid_key = ValidationError ''Invalid storage key''"

definition validate_storage_key :: "'o s3 \<Rightarrow> string \<Rightarrow> api_error + unit" where
  "validate_storage_key S key =
     (if key = [] then Inl invalid_key
      else case s3_decode S key of
        None \<Rightarrow> Inl (ValidationError ''Invalid storage key encoding'')
      | Some decoded \<Rightarrow>
          if CHR 0x00 \<in> set decoded \<or> CHR 0x5C \<in> set decoded then Inl invalid_key
          else if ''..'' \<in> set (split_on (CHR ''/'') decoded) then Inl invalid_key
          else Inr ())"

definition user_key :: "string \<Rightarrow> string \<Rightarrow> string" where
  "user_key uid key = ''users/'' @ uid @ ''/'' @ key"

definition storage_upload ::
  "('r, 'd, 'o) env \<Rightarrow> 'o s3 \<Rightarrow> storage_config \<Rightarrow> auth_user \<Rightarrow> string \<Rightarrow> string \<Rightarrow> ('r, 'd, 'o, nat) handler" where
  "storage_upload E S c user key bdy =
     attempt (Ret (validate_storage_key S key)) (\<lambda>_.
     attempt (client_upload_streaming E S c (user_key (au_user_id user) key) ''application/octet-stream'' bdy) (\<lambda>_.
     Ret (Inr 201)))"

definition storage_download ::
  "('r, 'd, 'o) env \<Rightarrow> 'o s3 \<Rightarrow> storage_config \<Rightarrow> auth_user \<Rightarrow> string \<Rightarrow>
   ('r, 'd, 'o, string \<times> (string + string)) handler" where
  "storage_download E S c user key =
     attempt (Ret (validate_storage_key S key)) (\<lambda>_.
     attempt (client_download_streaming E S c (user_key (au_user_id user) key)) (\<lambda>resp.
     Ret (Inr (case rs_headers resp ''content-type'' of Some t \<Rightarrow> t | None \<Rightarrow> ''application/octet-stream'',
       rs_body resp))))"

definition storage_delete ::
  "('r, 'd, 'o) env \<Rightarrow> 'o s3 \<Rightarrow> storage_config \<Rightarrow> auth_user \<Rightarrow> string \<Rightarrow> ('r, 'd, 'o, nat) handler" where
  "storage_delete E S c user key =
     attempt (Ret (validate_storage_key S key)) (\<lambda>_.
     attempt (client_delete E S c (user_key (au_user_id user) key)) (\<lambda>_. Ret (Inr 204)))"

definition storage_list ::
  "('r, 'd, 'o) env \<Rightarrow> 'o s3 \<Rightarrow> storage_config \<Rightarrow> auth_user \<Rightarrow> string option \<Rightarrow>
   ('r, 'd, 'o, object_info list) handler" where
  "storage_list E S c user prefix =
     client_list E S c (case prefix of Some p \<Rightarrow> user_key (au_user_id user) p
       | None \<Rightarrow> ''users/'' @ au_user_id user @ ''/'')"

record presign_request =
  pr_key :: string
  pr_method :: "string option"
  pr_expiry_secs :: "u64 option"

record presign_response =
  ps_url :: string
  ps_method :: string
  ps_expires_in :: u64

definition storage_presign ::
  "('r, 'd, 'o) env \<Rightarrow> 'o s3 \<Rightarrow> storage_config \<Rightarrow> auth_user \<Rightarrow> presign_request \<Rightarrow>
   ('r, 'd, 'o, presign_response) handler" where
  "storage_presign E S c user b =
     (let verb = (case pr_method b of Some m \<Rightarrow> uppercase m | None \<Rightarrow> ''GET'');
          expiry_secs = (case pr_expiry_secs b of Some s \<Rightarrow> s | None \<Rightarrow> 3600) in
      if verb \<noteq> ''GET'' \<and> verb \<noteq> ''PUT'' then Ret (Inl (ValidationError ''method must be GET or PUT''))
      else attempt (Ret (validate_storage_key S (pr_key b))) (\<lambda>_.
      attempt (bind (os_act E os_now) (\<lambda>now.
        Ret (presigned_url (e_lib E) S c (user_key (au_user_id user) (pr_key b)) verb expiry_secs now))) (\<lambda>link.
      Ret (Inr \<lparr>ps_url = link, ps_method = verb, ps_expires_in = expiry_secs\<rparr>))))"

definition init_multipart ::
  "('r, 'd, 'o) env \<Rightarrow> 'o s3 \<Rightarrow> 'x xml_reader \<Rightarrow> storage_config \<Rightarrow> auth_user \<Rightarrow> string \<Rightarrow> string option \<Rightarrow>
   (('r, 'd, 'o) world, (api_error + nat \<times> multipart_upload) option) prog" where
  "init_multipart E S X c user key content_type = (case validate_storage_key S key of
       Inl e \<Rightarrow> Ret (Some (Inl e))
     | Inr _ \<Rightarrow> map_result (map_option (map_sum id (\<lambda>up. (201, up))))
         (create_multipart_upload E S X c (user_key (au_user_id user) key)
           (case content_type of Some t \<Rightarrow> t | None \<Rightarrow> ''application/octet-stream'')))"

definition storage_upload_part ::
  "('r, 'd, 'o) env \<Rightarrow> 'o s3 \<Rightarrow> storage_config \<Rightarrow> auth_user \<Rightarrow> string \<Rightarrow> string \<Rightarrow> u32 \<Rightarrow> string \<Rightarrow>
   ('r, 'd, 'o, part_info) handler" where
  "storage_upload_part E S c user key upload_id part_number bdy =
     upload_part_streaming E S c (user_key (au_user_id user) key) upload_id part_number bdy"

definition complete_multipart ::
  "('r, 'd, 'o) env \<Rightarrow> 'o s3 \<Rightarrow> storage_config \<Rightarrow> auth_user \<Rightarrow> string \<Rightarrow> string \<Rightarrow> part_info list \<Rightarrow>
   ('r, 'd, 'o, nat) handler" where
  "complete_multipart E S c user key upload_id parts =
     attempt (complete_multipart_upload E S c (user_key (au_user_id user) key) upload_id parts) (\<lambda>_. Ret (Inr 200))"

definition abort_multipart ::
  "('r, 'd, 'o) env \<Rightarrow> 'o s3 \<Rightarrow> storage_config \<Rightarrow> auth_user \<Rightarrow> string \<Rightarrow> string \<Rightarrow> ('r, 'd, 'o, nat) handler" where
  "abort_multipart E S c user key upload_id =
     attempt (abort_multipart_upload E S c (user_key (au_user_id user) key) upload_id) (\<lambda>_. Ret (Inr 204))"

section \<open>The loop over the XML events ends\<close>

text \<open>What the code relies on: every event before the end of the text consumes some of it.\<close>

definition xml_progress :: "'x xml_reader \<Rightarrow> ('x \<Rightarrow> nat) \<Rightarrow> bool" where
  "xml_progress X unread \<longleftrightarrow>
     (\<forall>x ev x'. xr_event X x = (Inr ev, x') \<longrightarrow> ev = XEof \<or> unread x' < unread x) \<and>
     (\<forall>name x. unread (snd (xr_text X name x)) \<le> unread x)"

lemma read_upload_id_returns:
  assumes "xml_progress X unread"
  shows "\<exists>r. read_upload_id X bdy x upload_id = Some r"
proof (induction "unread x" arbitrary: x upload_id rule: less_induct)
  case less
  obtain ev x1 where ev: "xr_event X x = (ev, x1)" by (cases "xr_event X x")
  have less1: "\<exists>r. read_upload_id X bdy x1 uid = Some r" "\<exists>r. read_upload_id X bdy (snd (xr_text X n x1)) uid = Some r"
    if "ev = Inr v" "v \<noteq> XEof" for v uid n
  proof -
    have "unread x1 < unread x" and "unread (snd (xr_text X n x1)) \<le> unread x1"
      using assms ev that by (auto simp: xml_progress_def)
    then show "\<exists>r. read_upload_id X bdy x1 uid = Some r" "\<exists>r. read_upload_id X bdy (snd (xr_text X n x1)) uid = Some r"
      using less by (metis, metis less_le_trans not_less)
  qed
  show ?case
  proof (cases ev)
    case (Inr v)
    obtain t x2 where t: "xr_text X ''UploadId'' x1 = (t, x2)" by (cases "xr_text X ''UploadId'' x1")
    with less1(2) [OF Inr, of "''UploadId''"] have "v \<noteq> XEof \<Longrightarrow> \<exists>r. read_upload_id X bdy x2 uid = Some r" for uid by simp
    with less1 [OF Inr] show ?thesis
      by (subst read_upload_id.simps) (auto simp: ev Inr t split: xml_event.split sum.split)
  qed (simp add: read_upload_id.simps ev)
qed

text \<open>
  C40. Starting a multipart upload always returns: whatever the service answers, the loop that
  looks for the identifier of the upload in the response ends, because every event it reads consumes some
  of the response.
\<close>

theorem multipart_init_returns:
  assumes "xml_progress X unread"
  shows "\<exists>r. fst (run (init_multipart E S X c user key content_type) w) = Some r"
proof -
  have body: "\<exists>r. upload_of_body X k bdy = Some r" for k bdy
    using read_upload_id_returns [OF assms] by (fastforce simp: upload_of_body_def)
  then have "\<exists>r. (case q of Inl e \<Rightarrow> Some (Inl e) | Inr bdy \<Rightarrow> upload_of_body X k bdy) = Some r" for q k
    by (simp split: sum.split)
  then have "\<exists>r. fst (run (create_multipart_upload E S X c k t) w) = Some r" for k t
    unfolding create_multipart_upload_def by (simp add: run_map_result split: prod.split)
  then show ?thesis
    by (auto simp: init_multipart_def run_map_result run_Ret split: sum.split prod.split) (metis fst_conv)
qed

end
