(* ===== verification/Utf8.thy ===== *)
theory Utf8
  imports Text
begin

text \<open>
  UTF-8 as the standard library checks it (\<open>str::from_utf8\<close>, \<open>String::from_utf8_lossy\<close>), and the line
  and white-space splitters of \<open>str\<close>. A byte string is a list of 8-bit characters.
\<close>

section \<open>One character\<close>

text \<open>
  \<open>Inr n\<close>: the bytes begin with a character of \<open>n\<close> bytes. \<open>Inl n\<close>: they do not, and the longest
  prefix that could have begun one (at least one byte) has length \<open>n\<close>.
\<close>

definition cont :: "nat \<Rightarrow> bool" where
  "cont b \<longleftrightarrow> 128 \<le> b \<and> b \<le> 191"

definition byte_at :: "string \<Rightarrow> nat \<Rightarrow> nat" where
  "byte_at s i = (if i < length s then byte (s ! i) else 0)"

text \<open>The second byte a lead byte of a three- or four-byte character admits.\<close>

definition second3 :: "nat \<Rightarrow> nat \<Rightarrow> bool" where
  "second3 a b \<longleftrightarrow> (a = 224 \<and> 160 \<le> b \<and> b \<le> 191) \<or> (225 \<le> a \<and> a \<le> 236 \<and> cont b) \<or>
     (a = 237 \<and> 128 \<le> b \<and> b \<le> 159) \<or> (238 \<le> a \<and> a \<le> 239 \<and> cont b)"

definition second4 :: "nat \<Rightarrow> nat \<Rightarrow> bool" where
  "second4 a b \<longleftrightarrow> (a = 240 \<and> 144 \<le> b \<and> b \<le> 191) \<or> (241 \<le> a \<and> a \<le> 243 \<and> cont b) \<or>
     (a = 244 \<and> 128 \<le> b \<and> b \<le> 143)"

definition utf8_step :: "string \<Rightarrow> nat + nat" where
  "utf8_step s = (let a = byte_at s 0; b = byte_at s 1; c = byte_at s 2; d = byte_at s 3 in
     if a < 128 then Inr 1
     else if 194 \<le> a \<and> a \<le> 223 then (if cont b then Inr 2 else Inl 1)
     else if 224 \<le> a \<and> a \<le> 239 then (if \<not> second3 a b then Inl 1 else if \<not> cont c then Inl 2 else Inr 3)
     else if 240 \<le> a \<and> a \<le> 244 then
       (if \<not> second4 a b then Inl 1 else if \<not> cont c then Inl 2 else if \<not> cont d then Inl 3 else Inr 4)
     else Inl 1)"

lemma byte_at_cont: "cont (byte_at s i) \<Longrightarrow> i < length s"
  by (auto simp: byte_at_def cont_def split: if_splits)

lemma second_present: "second3 a (byte_at s i) \<or> second4 a (byte_at s i) \<Longrightarrow> i < length s"
  by (auto simp: byte_at_def second3_def second4_def cont_def split: if_splits)

lemma step_bounds:
  fixes n :: nat
  assumes "1 \<le> n" and "b2 \<longrightarrow> 2 \<le> n" and "b3 \<longrightarrow> 2 \<le> n" and "b4 \<longrightarrow> 2 \<le> n"
    and "c \<longrightarrow> 3 \<le> n" and "d \<longrightarrow> 4 \<le> n"
  shows "case (if a1 then Inr 1 else if a2 then (if b2 then Inr 2 else Inl 1)
     else if a3 then (if \<not> b3 then Inl 1 else if \<not> c then Inl 2 else Inr 3)
     else if a4 then (if \<not> b4 then Inl 1 else if \<not> c then Inl 2 else if \<not> d then Inl 3 else Inr 4)
     else Inl 1) of Inl m \<Rightarrow> (0::nat) < m \<and> m \<le> n | Inr m \<Rightarrow> (0::nat) < m \<and> m \<le> n"
  using assms by (cases a1; cases a2; cases a3; cases a4; cases b2; cases b3; cases b4; cases c; cases d) simp_all

lemma utf8_step_length:
  assumes "s \<noteq> []"
  shows "case utf8_step s of Inl n \<Rightarrow> 0 < n \<and> n \<le> length s | Inr n \<Rightarrow> 0 < n \<and> n \<le> length s"
  unfolding utf8_step_def Let_def
proof (rule step_bounds)
  show "1 \<le> length s" using assms by (cases s) simp_all
  show "cont (byte_at s 1) \<longrightarrow> 2 \<le> length s" "cont (byte_at s 2) \<longrightarrow> 3 \<le> length s"
    "cont (byte_at s 3) \<longrightarrow> 4 \<le> length s"
    by (auto dest: byte_at_cont)
  show "second3 (byte_at s 0) (byte_at s 1) \<longrightarrow> 2 \<le> length s"
    "second4 (byte_at s 0) (byte_at s 1) \<longrightarrow> 2 \<le> length s"
    using second_present by fastforce+
qed

lemma utf8_step_Inr: "s \<noteq> [] \<Longrightarrow> utf8_step s = Inr n \<Longrightarrow> 0 < n \<and> n \<le> length s"
  using utf8_step_length by fastforce

lemma utf8_step_Inl: "s \<noteq> [] \<Longrightarrow> utf8_step s = Inl n \<Longrightarrow> 0 < n \<and> n \<le> length s"
  using utf8_step_length by fastforce

section \<open>Validation and repair\<close>

function utf8_valid :: "string \<Rightarrow> bool" where
  "utf8_valid s = (if s = [] then True else case utf8_step s of Inl _ \<Rightarrow> False | Inr n \<Rightarrow> utf8_valid (drop n s))"
  by pat_completeness auto
termination
  by (relation "measure length") (auto dest: utf8_step_Inr)

declare utf8_valid.simps [simp del]

text \<open>\<open>REPLACEMENT CHARACTER\<close> U+FFFD.\<close>

definition replacement :: string where
  "replacement = map char_of [239, 191, 189 :: nat]"

function from_utf8_lossy :: "string \<Rightarrow> string" where
  "from_utf8_lossy s = (if s = [] then [] else case utf8_step s of
       Inl n \<Rightarrow> replacement @ from_utf8_lossy (drop n s)
     | Inr n \<Rightarrow> take n s @ from_utf8_lossy (drop n s))"
  by pat_completeness auto
termination
  by (relation "measure length") (auto dest: utf8_step_Inr utf8_step_Inl)

declare from_utf8_lossy.simps [simp del]

lemma utf8_valid_Nil [simp]: "utf8_valid []"
  by (simp add: utf8_valid.simps)

lemma utf8_valid_ascii: "byte c < 128 \<Longrightarrow> utf8_valid (c # s) = utf8_valid s"
  by (subst utf8_valid.simps) (simp add: utf8_step_def byte_at_def)

lemma ascii_valid: "\<forall>c \<in> set s. byte c < 128 \<Longrightarrow> utf8_valid s"
  by (induction s) (simp_all add: utf8_valid_ascii)

lemma lossy_valid: "utf8_valid s \<Longrightarrow> from_utf8_lossy s = s"
proof (induction s rule: utf8_valid.induct)
  case (1 s)
  from 1(2) have v: "s = [] \<or> (\<exists>n. utf8_step s = Inr n \<and> utf8_valid (drop n s))"
    by (subst (asm) utf8_valid.simps) (auto split: if_splits sum.splits)
  show ?case using v 1(1) by (subst from_utf8_lossy.simps) auto
qed

section \<open>Lines and words\<close>

text \<open>\<open>str::lines\<close> ends a line at a line feed and drops a carriage return before it.\<close>

definition drop_cr :: "string \<Rightarrow> string" where
  "drop_cr l = (if l \<noteq> [] \<and> last l = CHR 0x0D then butlast l else l)"

definition lines :: "string \<Rightarrow> string list" where
  "lines s = (let ps = split_on (CHR 0x0A) s; full = map drop_cr (butlast ps) in
     if last ps = [] then full else full @ [last ps])"

text \<open>\<open>str::split_whitespace\<close>.\<close>

function words_from :: "string \<Rightarrow> string \<Rightarrow> string list" where
  "words_from acc s = (if s = [] then (if acc = [] then [] else [rev acc])
     else if ws_len s = 0 then words_from (hd s # acc) (tl s)
     else (if acc = [] then [] else [rev acc]) @ words_from [] (drop (ws_len s) s))"
  by pat_completeness auto
termination
proof (relation "measure (\<lambda>(acc, s). length s)")
  fix acc s :: string
  assume "s \<noteq> []" and "ws_len s \<noteq> 0"
  with ws_len_le [of s] show "(([], drop (ws_len s) s), acc, s) \<in> measure (\<lambda>(acc, s). length s)" by simp
qed simp_all

declare words_from.simps [simp del]

definition split_whitespace :: "string \<Rightarrow> string list" where
  "split_whitespace s = words_from [] s"

lemma graphic_ws: "graphic c \<Longrightarrow> ws_len (c # s) = 0"
  by (cases "c # s" rule: ws_len.cases) (auto simp: graphic_def ws1_def ws2_def ws3_def)

lemma words_from_graphic: "\<forall>c \<in> set w. graphic c \<Longrightarrow> words_from acc (w @ s) = words_from (rev w @ acc) s"
proof (induction w arbitrary: acc)
  case (Cons c w)
  then have "words_from acc ((c # w) @ s) = words_from (c # acc) (w @ s)"
    by (subst words_from.simps) (simp add: graphic_ws)
  with Cons show ?case by simp
qed simp

lemma ws_len_space: "ws_len (CHR '' '' # s) = 1"
  by (cases "CHR '' '' # s" rule: ws_len.cases) (simp_all add: ws1_def byte_def)

lemma words_from_space: "words_from acc (CHR '' '' # s) = (if acc = [] then [] else [rev acc]) @ words_from [] s"
  by (subst words_from.simps) (simp add: ws_len_space)

lemma split_whitespace_Cons:
  "w \<noteq> [] \<Longrightarrow> \<forall>c \<in> set w. graphic c \<Longrightarrow> split_whitespace (w @ CHR '' '' # s) = w # split_whitespace s"
  by (simp add: split_whitespace_def words_from_graphic words_from_space)

lemma split_whitespace_one: "w \<noteq> [] \<Longrightarrow> \<forall>c \<in> set w. graphic c \<Longrightarrow> split_whitespace w = [w]"
  using words_from_graphic [of w "[]" "[]"] by (simp add: split_whitespace_def words_from.simps)

lemma lines_Cons: "CHR 0x0A \<notin> set l \<Longrightarrow> lines (l @ CHR 0x0A # s) = drop_cr l # lines s"
  by (simp add: lines_def Let_def split_on_append)

end
