(* ===== verification/Sidecar.thy ===== *)
theory Sidecar
  imports Reference Utf8
begin

text \<open>
  The client of the Python sidecar (\<open>backend/py-sidecar/src/lib.rs\<close>): HTTP over a Unix socket, written
  and parsed by hand, with validation of everything that goes into a header, a timeout for each attempt
  and retries with exponential backoff.
\<close>

section \<open>The network and the timers\<close>

text \<open>
  The Unix socket of the operating system and tokio's timers. \<open>nt_elapsed t\<close> is asked before each step
  of a future under a timeout of \<open>t\<close> milliseconds: whether the timeout fires before the step is done.
  \<open>nt_read c n\<close> reads to the end of the stream, at most \<open>n\<close> bytes. \<open>nt_json_error\<close> is the text of
  \<open>serde_json\<close>'s error.
\<close>

record 'o net =
  nt_exists :: "string \<Rightarrow> 'o \<Rightarrow> bool \<times> 'o"
  nt_connect :: "string \<Rightarrow> 'o \<Rightarrow> (string + nat) \<times> 'o"
  nt_write :: "nat \<Rightarrow> string \<Rightarrow> 'o \<Rightarrow> (string + unit) \<times> 'o"
  nt_read :: "nat \<Rightarrow> nat \<Rightarrow> 'o \<Rightarrow> (string + string) \<times> 'o"
  nt_sleep :: "u64 \<Rightarrow> 'o \<Rightarrow> unit \<times> 'o"
  nt_elapsed :: "u64 \<Rightarrow> 'o \<Rightarrow> bool \<times> 'o"
  nt_json_error :: "string \<Rightarrow> string"

definition net_act :: "('r, 'd, 'o) env \<Rightarrow> ('o \<Rightarrow> 'a \<times> 'o) \<Rightarrow> (('r, 'd, 'o) world, 'a) prog" where
  "net_act E f = os_act E (\<lambda>_. f)"

text \<open>\<open>tokio::time::timeout\<close>: the future is dropped between two of its steps when the time is over.\<close>

primrec cut_off :: "('w, bool) prog \<Rightarrow> ('w, 'a) prog \<Rightarrow> ('w, 'a option) prog" where
  "cut_off t (Ret a) = Ret (Some a)"
| "cut_off t (Act f) = bind t (\<lambda>late. if late then Ret None
     else Act (\<lambda>w. map_prod (cut_off t) id (f w)))"

definition with_timeout ::
  "('r, 'd, 'o) env \<Rightarrow> 'o net \<Rightarrow> u64 \<Rightarrow> (('r, 'd, 'o) world, 'a) prog \<Rightarrow> (('r, 'd, 'o) world, 'a option) prog" where
  "with_timeout E N ms p = cut_off (net_act E (nt_elapsed N ms)) p"

section \<open>Types and configuration\<close>

datatype sidecar_error =
    SocketNotFound string
  | SocketFailed string
  | SidecarTimeout u64
  | InvalidResponse string
  | InvalidInput string
  | HttpError nat string

record python_sidecar =
  socket_path :: string
  sc_timeout :: u64
  max_retries :: u32

definition sidecar_from_env :: "(string \<Rightarrow> string option) \<Rightarrow> python_sidecar" where
  "sidecar_from_env vars =
     \<lparr>socket_path = (case vars ''PY_API_SOCKET'' of Some p \<Rightarrow> p
        | None \<Rightarrow> (case vars ''PYTHON_SIDECAR_SOCKET'' of Some p \<Rightarrow> p
        | None \<Rightarrow> ''/tmp/fullstackhex-python.sock'')),
      sc_timeout = (case Option.bind (vars ''PYTHON_SIDECAR_TIMEOUT_MS'') parse_u64 of Some t \<Rightarrow> t | None \<Rightarrow> 5000),
      max_retries = min (case Option.bind (vars ''PYTHON_SIDECAR_MAX_RETRIES'') (parse_unsigned 32) of
          Some n \<Rightarrow> of_nat n | None \<Rightarrow> 3) 10\<rparr>"

section \<open>Backoff\<close>

definition saturating_mul :: "'l::len word \<Rightarrow> 'l word \<Rightarrow> 'l word" where
  "saturating_mul a b = (if unat a * unat b < 2 ^ LENGTH('l) then a * b else - 1)"

definition saturating_pow :: "'l::len word \<Rightarrow> u32 \<Rightarrow> 'l word" where
  "saturating_pow a n = (if unat a ^ unat n < 2 ^ LENGTH('l) then a ^ unat n else - 1)"

definition backoff_base_ms :: u64 where
  "backoff_base_ms = 100"

definition max_backoff_ms :: u64 where
  "max_backoff_ms = 30000"

definition backoff_for_attempt :: "u32 \<Rightarrow> u64" where
  "backoff_for_attempt n =
     min (saturating_mul backoff_base_ms (saturating_pow 2 (saturating_sub n 1))) max_backoff_ms"

section \<open>Validation and the request text\<close>

definition max_header_value_len :: nat where
  "max_header_value_len = 256"

definition CR :: char where "CR = CHR 0x0D"
definition LF :: char where "LF = CHR 0x0A"

definition crlf :: string where
  "crlf = [CR, LF]"

definition validate_header_value :: "string \<Rightarrow> string \<Rightarrow> sidecar_error + unit" where
  "validate_header_value hname v =
     (if CR \<in> set v \<or> LF \<in> set v then Inl (InvalidInput (hname @ '' contains invalid characters''))
      else if max_header_value_len < length v
        then Inl (InvalidInput (hname @ '' exceeds maximum length (256 bytes)''))
      else Inr ())"

text \<open>User id, email, name, timestamp and signature.\<close>

type_synonym auth_headers = "string \<times> string \<times> string \<times> u64 \<times> string"

fun validate_auth_headers :: "auth_headers \<Rightarrow> sidecar_error + unit" where
  "validate_auth_headers (user, mail, name, ts, sig) =
     (case validate_header_value ''X-User-Id'' user of Inl e \<Rightarrow> Inl e | Inr _ \<Rightarrow>
     (case validate_header_value ''X-User-Email'' mail of Inl e \<Rightarrow> Inl e | Inr _ \<Rightarrow>
     (case validate_header_value ''X-User-Name'' name of Inl e \<Rightarrow> Inl e | Inr _ \<Rightarrow>
      validate_header_value ''X-Auth-Signature'' sig)))"

definition request_head :: "string \<Rightarrow> string option \<Rightarrow> string" where
  "request_head p trace_id = ''GET '' @ p @ '' HTTP/1.1'' @ crlf @ ''Host: localhost'' @ crlf @
     ''Connection: close'' @ crlf @
     (case trace_id of Some tid \<Rightarrow> ''x-trace-id: '' @ tid @ crlf | None \<Rightarrow> [])"

fun auth_lines :: "auth_headers \<Rightarrow> string \<Rightarrow> string" where
  "auth_lines (user, mail, name, ts, sig) nonce =
     ''X-User-Id: '' @ user @ crlf @ ''X-User-Email: '' @ mail @ crlf @ ''X-User-Name: '' @ name @ crlf @
     ''X-Timestamp: '' @ show_u64 ts @ crlf @ ''X-Nonce: '' @ nonce @ crlf @
     ''X-Auth-Signature: '' @ sig @ crlf"

section \<open>The response\<close>

definition max_response_size :: nat where
  "max_response_size = 1048576"

fun find_sub :: "string \<Rightarrow> string \<Rightarrow> nat option" where
  "find_sub p [] = (if p = [] then Some 0 else None)"
| "find_sub p (c # s) = (if starts_with (c # s) p then Some 0 else map_option Suc (find_sub p s))"

text \<open>The text of the error of \<open>str::from_utf8\<close>, for an invalid text, from the byte index \<open>i\<close> on.\<close>

function utf8_error_text :: "nat \<Rightarrow> string \<Rightarrow> string" where
  "utf8_error_text i s = (if s = [] then [] else case utf8_step s of
       Inr n \<Rightarrow> utf8_error_text (i + n) (drop n s)
     | Inl n \<Rightarrow> if n = length s \<and> 194 \<le> byte_at s 0 \<and> byte_at s 0 \<le> 244
         then ''incomplete utf-8 byte sequence from index '' @ show_nat i
         else ''invalid utf-8 sequence of '' @ show_nat n @ '' bytes from index '' @ show_nat i)"
  by pat_completeness auto
termination
  by (relation "measure (\<lambda>(i, s). length s)") (auto dest: utf8_step_Inr)

declare utf8_error_text.simps [simp del]

definition status_of :: "string \<Rightarrow> nat" where
  "status_of headers = (case lines headers of
       [] \<Rightarrow> 502
     | status_line # _ \<Rightarrow>
         (let parts = split_whitespace status_line in
          if 2 \<le> length parts then (case parse_unsigned 16 (parts ! 1) of Some n \<Rightarrow> n | None \<Rightarrow> 502)
          else 502))"

definition parse_response :: "string \<Rightarrow> sidecar_error + nat \<times> string" where
  "parse_response response =
     (if max_response_size < length response
      then Inl (InvalidResponse ''response exceeded maximum allowed size'')
      else case find_sub (crlf @ crlf) response of
        None \<Rightarrow> Inl (InvalidResponse ''missing HTTP header separator'')
      | Some p \<Rightarrow>
          (let headers = take (p + 4) response in
           if \<not> utf8_valid headers then Inl (InvalidResponse (utf8_error_text 0 headers))
           else Inr (status_of headers, drop (p + 4) response)))"

section \<open>One request, and the retries\<close>

definition perform_request ::
  "('r, 'd, 'o) env \<Rightarrow> 'o net \<Rightarrow> python_sidecar \<Rightarrow> string \<Rightarrow> string option \<Rightarrow> auth_headers option \<Rightarrow>
   (('r, 'd, 'o) world, sidecar_error + nat \<times> string) prog" where
  "perform_request E N S p trace_id auth_headers =
     attempt (Ret (validate_header_value ''path'' p)) (\<lambda>_.
     attempt (Ret (case trace_id of Some tid \<Rightarrow> validate_header_value ''trace_id'' tid | None \<Rightarrow> Inr ())) (\<lambda>_.
     attempt (Ret (case auth_headers of Some a \<Rightarrow> validate_auth_headers a | None \<Rightarrow> Inr ())) (\<lambda>_.
     attempt (lift_err SocketFailed (net_act E (nt_connect N (socket_path S)))) (\<lambda>stream.
     bind (case auth_headers of
         Some a \<Rightarrow> map_result (\<lambda>nonce. request_head p trace_id @ auth_lines a nonce) (os_act E os_uuid)
       | None \<Rightarrow> Ret (request_head p trace_id)) (\<lambda>request.
     attempt (lift_err SocketFailed (net_act E (nt_write N stream (request @ crlf)))) (\<lambda>_.
     attempt (lift_err SocketFailed (net_act E (nt_read N stream (max_response_size + 1)))) (\<lambda>response.
     Ret (parse_response response))))))))"

fun retryable :: "sidecar_error \<Rightarrow> bool" where
  "retryable (SocketFailed _) = True"
| "retryable (SidecarTimeout _) = True"
| "retryable _ = False"

primrec request_loop ::
  "('r, 'd, 'o) env \<Rightarrow> 'o net \<Rightarrow> python_sidecar \<Rightarrow> string \<Rightarrow> string option \<Rightarrow> auth_headers option \<Rightarrow>
   nat \<Rightarrow> u32 \<Rightarrow> sidecar_error option \<Rightarrow> (('r, 'd, 'o) world, sidecar_error + string) prog" where
  "request_loop E N S p tid au 0 attempts last_error =
     Ret (Inl (case last_error of Some e \<Rightarrow> e | None \<Rightarrow> SidecarTimeout (sc_timeout S)))"
| "request_loop E N S p tid au (Suc k) attempts last_error =
     bind (if 0 < attempts then net_act E (nt_sleep N (backoff_for_attempt attempts)) else Ret ()) (\<lambda>_.
     bind (with_timeout E N (sc_timeout S) (perform_request E N S p tid au)) (\<lambda>outcome. case outcome of
         Some (Inr (status_code, bdy)) \<Rightarrow>
           if 400 \<le> status_code then Ret (Inl (HttpError status_code (from_utf8_lossy bdy))) else Ret (Inr bdy)
       | Some (Inl e) \<Rightarrow>
           if retryable e then request_loop E N S p tid au k (attempts + 1) (Some e) else Ret (Inl e)
       | None \<Rightarrow> request_loop E N S p tid au k (attempts + 1) (Some (SidecarTimeout (sc_timeout S)))))"

definition do_request_inner ::
  "('r, 'd, 'o) env \<Rightarrow> 'o net \<Rightarrow> python_sidecar \<Rightarrow> string \<Rightarrow> string option \<Rightarrow> auth_headers option \<Rightarrow>
   u32 \<Rightarrow> (('r, 'd, 'o) world, sidecar_error + string) prog" where
  "do_request_inner E N S p trace_id auth_headers retries =
     bind (net_act E (nt_exists N (socket_path S))) (\<lambda>is_available.
     if \<not> is_available then Ret (Inl (SocketNotFound (socket_path S)))
     else request_loop E N S p trace_id auth_headers (Suc (unat retries)) 0 None)"

definition do_get ::
  "('r, 'd, 'o) env \<Rightarrow> 'o net \<Rightarrow> python_sidecar \<Rightarrow> string \<Rightarrow> string option \<Rightarrow> auth_headers option \<Rightarrow>
   u32 \<Rightarrow> (('r, 'd, 'o) world, sidecar_error + json) prog" where
  "do_get E N S p trace_id auth_headers retries =
     attempt (do_request_inner E N S p trace_id auth_headers retries) (\<lambda>bdy.
     Ret (case parse_json (e_lib E) bdy of
         Some v \<Rightarrow> Inr v | None \<Rightarrow> Inl (InvalidResponse (nt_json_error N bdy))))"

definition do_get_raw ::
  "('r, 'd, 'o) env \<Rightarrow> 'o net \<Rightarrow> python_sidecar \<Rightarrow> string \<Rightarrow> string option \<Rightarrow> auth_headers option \<Rightarrow>
   u32 \<Rightarrow> (('r, 'd, 'o) world, sidecar_error + string) prog" where
  "do_get_raw E N S p trace_id auth_headers retries =
     do_request_inner E N S p trace_id auth_headers retries"

definition get_with_trace_id where
  "get_with_trace_id E N S p trace_id auth_headers = do_get E N S p (Some trace_id) auth_headers (max_retries S)"

definition sidecar_get where
  "sidecar_get E N S p = bind (os_act E os_uuid) (\<lambda>tid. get_with_trace_id E N S p tid None)"

definition get_with_auth where
  "get_with_auth E N S p auth_headers =
     bind (os_act E os_uuid) (\<lambda>tid. get_with_trace_id E N S p tid (Some auth_headers))"

definition get_raw_with_trace_id where
  "get_raw_with_trace_id E N S p trace_id auth_headers =
     do_get_raw E N S p (Some trace_id) auth_headers (max_retries S)"

definition get_raw where
  "get_raw E N S p = bind (os_act E os_uuid) (\<lambda>tid. get_raw_with_trace_id E N S p tid None)"

definition get_raw_quick where
  "get_raw_quick E N S p = do_get_raw E N S p None None 0"

definition sidecar_health where
  "sidecar_health E N S = bind (os_act E os_uuid) (\<lambda>tid. get_with_trace_id E N S ''/health'' tid None)"

definition health_quick where
  "health_quick E N S = bind (os_act E os_uuid) (\<lambda>tid. do_get E N S ''/health'' (Some tid) None 0)"

section \<open>The backoff schedule\<close>

lemma unat_max_u64: "unat (- 1 :: u64) = 2 ^ 64 - 1"
  by (simp add: unsigned_minus_1_eq_mask mask_eq_exp_minus_1)

lemma unat_power2:
  assumes "k < 64"
  shows "(2::nat) ^ k < 2 ^ 64" and "unat (2 ^ k :: u64) = 2 ^ k"
proof -
  show b: "(2::nat) ^ k < 2 ^ 64" using assms by (rule power_strict_increasing) simp
  have of_nat: "unat (of_nat m :: u64) = m" if "m < 2 ^ 64" for m
    using that by (simp add: unsigned_of_nat take_bit_nat_eq_self)
  show "unat (2 ^ k :: u64) = 2 ^ k" using of_nat [OF b] by (metis of_nat_numeral of_nat_power)
qed

lemma backoff_power_large:
  assumes "9 \<le> unat (saturating_sub n 1)"
  shows "2 ^ 9 \<le> unat (saturating_pow 2 (saturating_sub n 1) :: u64)"
proof -
  let ?k = "unat (saturating_sub n 1)"
  show ?thesis
  proof (cases "?k < 64")
    case True
    have "(2::nat) ^ 9 \<le> 2 ^ ?k" using assms by (intro power_increasing) simp_all
    with True show ?thesis using unat_power2 [of ?k] by (simp add: saturating_pow_def)
  next
    case False
    then have "(2::nat) ^ 64 \<le> 2 ^ ?k" by (intro power_increasing) simp_all
    then have "(saturating_pow 2 (saturating_sub n 1) :: u64) = - 1" by (simp add: saturating_pow_def)
    then show ?thesis by (simp add: unat_max_u64)
  qed
qed

lemma backoff_large:
  assumes "9 \<le> unat (saturating_sub n 1)"
  shows "backoff_for_attempt n = 30000"
proof -
  let ?q = "saturating_pow 2 (saturating_sub n 1) :: u64"
  have "30000 \<le> unat (saturating_mul backoff_base_ms ?q)"
  proof (cases "100 * unat ?q < 2 ^ 64")
    case True
    then have "unat (saturating_mul backoff_base_ms ?q) = 100 * unat ?q"
      by (simp add: saturating_mul_def backoff_base_ms_def unat_word_ariths)
    with backoff_power_large [OF assms] show ?thesis by simp
  next
    case False
    then have "saturating_mul backoff_base_ms ?q = - 1"
      by (simp add: saturating_mul_def backoff_base_ms_def)
    then show ?thesis by (simp add: unat_max_u64)
  qed
  then have "30000 \<le> saturating_mul backoff_base_ms ?q" by (simp add: word_le_nat_alt)
  then show ?thesis unfolding backoff_for_attempt_def max_backoff_ms_def by (rule min.absorb2)
qed

text \<open>
  The pause before the n-th retry is 100 ms doubled n - 1 times, capped at 30 s, for
  every 32-bit n: the saturating arithmetic never wraps around.
\<close>

theorem backoff_schedule:
  "unat (backoff_for_attempt n) = min (100 * 2 ^ (unat n - 1)) 30000"
proof -
  define k where "k = unat n - 1"
  have s: "unat (saturating_sub n 1) = k" by (simp add: k_def unat_saturating_sub)
  show ?thesis
  proof (cases "k < 9")
    case True
    then have "k \<in> {0, 1, 2, 3, 4, 5, 6, 7, 8}" by auto
    then show ?thesis
      unfolding backoff_for_attempt_def saturating_mul_def saturating_pow_def s k_def [symmetric]
      by (auto simp: backoff_base_ms_def max_backoff_ms_def min_def)
  next
    case False
    then have big: "(2::nat) ^ 9 \<le> 2 ^ k" by (intro power_increasing) simp_all
    have "backoff_for_attempt n = 30000" using False s by (intro backoff_large) simp
    with big show ?thesis by (simp add: k_def)
  qed
qed

section \<open>Nothing is injected into a request\<close>

fun crlf_lines :: "string \<Rightarrow> string list" where
  "crlf_lines (c # d # s) = (if c = CR \<and> d = LF then [] # crlf_lines s
     else (case crlf_lines (d # s) of l # ls \<Rightarrow> (c # l) # ls | [] \<Rightarrow> [[c]]))"
| "crlf_lines s = [s]"

definition clean :: "string \<Rightarrow> bool" where
  "clean s \<longleftrightarrow> CR \<notin> set s \<and> LF \<notin> set s"

lemma clean_simps [simp]:
  "clean []" "clean (c # s) \<longleftrightarrow> c \<noteq> CR \<and> c \<noteq> LF \<and> clean s" "clean (s @ t) \<longleftrightarrow> clean s \<and> clean t"
  by (auto simp: clean_def)

lemma crlf_lines_append: "clean l \<Longrightarrow> crlf_lines (l @ crlf @ s) = l # crlf_lines s"
proof (induction l)
  case (Cons c l)
  then show ?case by (cases l) (simp_all add: crlf_def)
qed (simp add: crlf_def)

definition trace_lines :: "string option \<Rightarrow> string list" where
  "trace_lines trace_id = (case trace_id of Some tid \<Rightarrow> [''x-trace-id: '' @ tid] | None \<Rightarrow> [])"

definition identity_lines :: "auth_headers option \<Rightarrow> string \<Rightarrow> string list" where
  "identity_lines au nonce = (case au of
       Some (user, mail, name, ts, sig) \<Rightarrow>
         [''X-User-Id: '' @ user, ''X-User-Email: '' @ mail, ''X-User-Name: '' @ name,
          ''X-Timestamp: '' @ show_u64 ts, ''X-Nonce: '' @ nonce, ''X-Auth-Signature: '' @ sig]
     | None \<Rightarrow> [])"

definition request_lines :: "string \<Rightarrow> string option \<Rightarrow> auth_headers option \<Rightarrow> string \<Rightarrow> string list" where
  "request_lines p tid au nonce =
     [''GET '' @ p @ '' HTTP/1.1'', ''Host: localhost'', ''Connection: close''] @ trace_lines tid @ identity_lines au nonce"

definition request_text :: "string \<Rightarrow> string option \<Rightarrow> auth_headers option \<Rightarrow> string \<Rightarrow> string" where
  "request_text p tid au nonce =
     request_head p tid @ (case au of Some a \<Rightarrow> auth_lines a nonce | None \<Rightarrow> []) @ crlf"

lemma crlf_lines_concat:
  "\<forall>l \<in> set ls. clean l \<Longrightarrow> crlf_lines (concat (map (\<lambda>l. l @ crlf) ls) @ s) = ls @ crlf_lines s"
  by (induction ls) (simp_all add: crlf_lines_append)

lemma request_text_lines:
  "request_text p tid au nonce = concat (map (\<lambda>l. l @ crlf) (request_lines p tid au nonce)) @ crlf"
  by (auto simp: request_text_def request_lines_def request_head_def trace_lines_def identity_lines_def
      split: option.split)

lemma validate_clean: "validate_header_value n v = Inr () \<Longrightarrow> clean v"
  by (auto simp: validate_header_value_def clean_def split: if_splits)

lemma validate_auth_clean:
  "validate_auth_headers (user, mail, name, ts, sig) = Inr () \<Longrightarrow> clean user \<and> clean mail \<and> clean name \<and> clean sig"
  by (auto dest: validate_clean split: sum.splits)

lemma show_u64_clean: "clean (show_u64 n)"
  using show_nat_no_char [of CR "unat n"] show_nat_no_char [of LF "unat n"]
  by (simp add: clean_def show_u64_def CR_def LF_def is_digit_def byte_def)

text \<open>Sending a text (made of a nonce) and reading the response.\<close>

definition send_request ::
  "('r, 'd, 'o) env \<Rightarrow> 'o net \<Rightarrow> python_sidecar \<Rightarrow> bool \<Rightarrow> (string \<Rightarrow> string) \<Rightarrow>
   (('r, 'd, 'o) world, sidecar_error + nat \<times> string) prog" where
  "send_request E N S with_nonce txt =
     attempt (lift_err SocketFailed (net_act E (nt_connect N (socket_path S)))) (\<lambda>stream.
     bind (if with_nonce then os_act E os_uuid else Ret []) (\<lambda>nonce.
     attempt (lift_err SocketFailed (net_act E (nt_write N stream (txt nonce)))) (\<lambda>_.
     attempt (lift_err SocketFailed (net_act E (nt_read N stream (max_response_size + 1)))) (\<lambda>response.
     Ret (parse_response response)))))"

lemma perform_request_valid:
  assumes "validate_header_value ''path'' p = Inr ()"
    and "(case tid of Some t \<Rightarrow> validate_header_value ''trace_id'' t | None \<Rightarrow> Inr ()) = Inr ()"
    and "(case au of Some a \<Rightarrow> validate_auth_headers a | None \<Rightarrow> Inr ()) = Inr ()"
  shows "perform_request E N S p tid au = send_request E N S (au \<noteq> None) (request_text p tid au)"
  unfolding perform_request_def send_request_def request_text_def assms attempt_Inr
  by (cases au) (simp_all add: bind_map_result)

lemma validate_cases: "(\<exists>m. validate_header_value n v = Inl (InvalidInput m)) \<or> validate_header_value n v = Inr ()"
  by (simp add: validate_header_value_def)

lemma validate_auth_cases: "(\<exists>m. validate_auth_headers a = Inl (InvalidInput m)) \<or> validate_auth_headers a = Inr ()"
proof -
  obtain u m n ts sig where a: "a = (u, m, n, ts, sig)" by (cases a)
  have "case validate_header_value h v of Inl e \<Rightarrow> \<exists>m. e = InvalidInput m | Inr _ \<Rightarrow> True" for h v
    by (simp add: validate_header_value_def)
  from this [of "''X-User-Id''" u] this [of "''X-User-Email''" m] this [of "''X-User-Name''" n]
    this [of "''X-Auth-Signature''" sig]
  show ?thesis unfolding a by (auto split: sum.splits)
qed

lemma request_lines_clean:
  assumes "validate_header_value ''path'' p = Inr ()"
    and "(case tid of Some t \<Rightarrow> validate_header_value ''trace_id'' t | None \<Rightarrow> Inr ()) = Inr ()"
    and "(case au of Some a \<Rightarrow> validate_auth_headers a | None \<Rightarrow> Inr ()) = Inr ()"
    and "clean nonce"
  shows "\<forall>l \<in> set (request_lines p tid au nonce). clean l"
proof -
  have "\<forall>l \<in> set (identity_lines au nonce). clean l"
  proof (cases au)
    case (Some a)
    obtain u m n ts sig where a: "a = (u, m, n, ts, sig)" by (cases a) auto
    then have "clean u \<and> clean m \<and> clean n \<and> clean sig"
      using assms(3) Some validate_auth_clean by auto
    then show ?thesis using Some a assms(4) by (simp add: identity_lines_def show_u64_clean CR_def LF_def)
  qed (simp add: identity_lines_def)
  moreover have "\<forall>l \<in> set (trace_lines tid). clean l"
    using assms(2) validate_clean by (auto simp: trace_lines_def CR_def LF_def split: option.split)
  moreover have "clean p" using assms(1) by (rule validate_clean)
  ultimately show ?thesis by (auto simp: request_lines_def CR_def LF_def)
qed

text \<open>
  C27. Whatever path, trace id and identity a caller passes, the client either refuses
  them without touching the socket, or it sends a request whose header lines are exactly the intended
  ones: no value can add a line or end the head early.
\<close>

theorem request_not_injected:
  assumes "clean nonce"
  shows "(\<exists>m. perform_request E N S p tid au = Ret (Inl (InvalidInput m))) \<or>
    perform_request E N S p tid au = send_request E N S (au \<noteq> None) (request_text p tid au) \<and>
    crlf_lines (request_text p tid au nonce) = request_lines p tid au nonce @ [[], []] \<and>
    (\<forall>l \<in> set (request_lines p tid au nonce). clean l)"
proof -
  let ?t = "case tid of Some t \<Rightarrow> validate_header_value ''trace_id'' t | None \<Rightarrow> Inr ()"
  let ?a = "case au of Some a \<Rightarrow> validate_auth_headers a | None \<Rightarrow> Inr ()"
  have t: "(\<exists>m. ?t = Inl (InvalidInput m)) \<or> ?t = Inr ()" using validate_cases by (cases tid) simp_all
  have a: "(\<exists>m. ?a = Inl (InvalidInput m)) \<or> ?a = Inr ()" using validate_auth_cases by (cases au) simp_all
  consider (bad) "\<exists>m. perform_request E N S p tid au = Ret (Inl (InvalidInput m))"
    | (good) "validate_header_value ''path'' p = Inr ()" "?t = Inr ()" "?a = Inr ()"
    unfolding perform_request_def using validate_cases [of "''path''" p] t a by fastforce
  then show ?thesis
  proof cases
    case good
    from request_lines_clean [OF this assms]
    have "crlf_lines (request_text p tid au nonce) = request_lines p tid au nonce @ [[], []]"
      by (simp add: request_text_lines crlf_lines_concat) (simp add: crlf_def)
    with perform_request_valid [OF good, of E N S] request_lines_clean [OF good assms] show ?thesis by blast
  qed blast
qed

text \<open>A machine whose connections are all refused.\<close>

definition refusing_net :: "osstate net" where
  "refusing_net = \<lparr>nt_exists = (\<lambda>_ s. (True, s)),
     nt_connect = (\<lambda>_ s. (Inl ''refused'', s\<lparr>oclock := Suc (oclock s)\<rparr>)),
     nt_write = (\<lambda>_ _ s. (Inr (), s)), nt_read = (\<lambda>_ _ s. (Inr [], s)), nt_sleep = (\<lambda>_ s. ((), s)),
     nt_elapsed = (\<lambda>_ s. (False, s)), nt_json_error = (\<lambda>_. ''not json'')\<rparr>"

theorem request_not_injected_witness:
  "crlf_lines (request_text ''/health'' (Some ''t1'') None []) =
     [''GET /health HTTP/1.1'', ''Host: localhost'', ''Connection: close'', ''x-trace-id: t1'', [], []] \<and>
   (\<exists>m. perform_request (ref_env 0 Map.empty) refusing_net (sidecar_from_env Map.empty) ''/health'' (Some (''t1'' @ crlf @ ''X-User-Id: root'')) None
      = Ret (Inl (InvalidInput m)))"
proof -
  have ok: "perform_request (ref_env 0 Map.empty) refusing_net (sidecar_from_env Map.empty) ''/health'' (Some ''t1'') None \<noteq> Ret (Inl (InvalidInput m))" for m
    by (simp add: perform_request_def validate_header_value_def max_header_value_len_def CR_def LF_def
        net_act_def os_act_def act_def attempt_def lift_err_def map_result_def)
  have "clean []" by simp
  from request_not_injected [OF this, of "ref_env 0 Map.empty" refusing_net "sidecar_from_env Map.empty" "''/health''" "Some ''t1''" None] ok
  have "crlf_lines (request_text ''/health'' (Some ''t1'') None []) =
     request_lines ''/health'' (Some ''t1'') None [] @ [[], []]" by blast
  then have 1: "crlf_lines (request_text ''/health'' (Some ''t1'') None []) =
     [''GET /health HTTP/1.1'', ''Host: localhost'', ''Connection: close'', ''x-trace-id: t1'', [], []]"
    by (simp add: request_lines_def trace_lines_def identity_lines_def)
  have "\<exists>m. perform_request (ref_env 0 Map.empty) refusing_net (sidecar_from_env Map.empty) ''/health'' (Some (''t1'' @ crlf @ ''X-User-Id: root'')) None
      = Ret (Inl (InvalidInput m))"
    by (simp add: perform_request_def validate_header_value_def max_header_value_len_def CR_def LF_def crlf_def)
  with 1 show ?thesis by blast
qed

section \<open>Reading a response\<close>

lemma find_sub_skip: "\<not> starts_with (c # s) p \<Longrightarrow> find_sub p (c # s) = map_option Suc (find_sub p s)"
  by simp

lemma find_sub_clean:
  "clean l \<Longrightarrow> find_sub (crlf @ q) (l @ s) = map_option ((+) (length l)) (find_sub (crlf @ q) s)"
proof (induction l)
  case (Cons c l)
  then have "\<not> starts_with (c # l @ s) (crlf @ q)" by (auto simp: starts_with_def crlf_def)
  with Cons show ?case by (simp add: option.map_comp comp_def del: find_sub.simps add: find_sub_skip)
qed (cases "find_sub (crlf @ q) s"; simp)

definition head_of :: "string list \<Rightarrow> string" where
  "head_of ls = concat (map (\<lambda>l. crlf @ l) ls) @ crlf @ crlf"

text \<open>The first empty line is where the head ends.\<close>

lemma find_head:
  "\<forall>l \<in> set ls. clean l \<and> l \<noteq> [] \<Longrightarrow> find_sub (crlf @ crlf) (head_of ls @ s) = Some (length (head_of ls) - 4)"
proof (induction ls)
  case Nil
  then show ?case by (simp add: head_of_def crlf_def starts_with_def)
next
  case (Cons l ls)
  obtain c t where l: "l = c # t" using Cons.prems by (cases l) auto
  have c: "c \<noteq> CR" "c \<noteq> LF" "clean l" using Cons.prems l by auto
  have len: "4 \<le> length (head_of ls)" by (simp add: head_of_def crlf_def)
  have "find_sub (crlf @ crlf) (l @ head_of ls @ s) = Some (length l + (length (head_of ls) - 4))"
    using Cons c(3) by (simp add: find_sub_clean)
  moreover have "find_sub (crlf @ crlf) (crlf @ l @ head_of ls @ s) =
      map_option (Suc \<circ> Suc) (find_sub (crlf @ crlf) (l @ head_of ls @ s))"
    using c by (simp add: crlf_def l starts_with_def CR_def LF_def option.map_comp comp_assoc)
  moreover have "head_of (l # ls) = crlf @ l @ head_of ls" by (simp add: head_of_def)
  ultimately show ?case using len by (simp add: crlf_def)
qed

lemma drop_cr_snoc: "drop_cr (l @ [CR]) = l"
  by (simp add: drop_cr_def CR_def)

text \<open>A response as a server writes it.\<close>

definition response_text :: "nat \<Rightarrow> string \<Rightarrow> string list \<Rightarrow> string \<Rightarrow> string" where
  "response_text code reason hs bdy =
     ''HTTP/1.1 '' @ show_nat code @ '' '' @ reason @ head_of hs @ bdy"

lemma show_nat_graphic: "\<forall>c \<in> set (show_nat n). graphic c"
  using show_nat_digits [of n] by (auto simp: list_all_iff is_digit_def graphic_def)

lemma show_nat_ascii: "c \<in> set (show_nat n) \<Longrightarrow> byte c < 128"
  using show_nat_graphic [of n] by (auto simp: graphic_def)

lemma show_nat_clean: "clean (show_nat n)"
  using show_nat_graphic [of n] by (auto simp: clean_def graphic_def CR_def LF_def byte_def)

lemma status_of_response:
  assumes "code < 2 ^ 16" and "clean reason"
  shows "status_of (''HTTP/1.1 '' @ show_nat code @ '' '' @ reason @ crlf @ s) = code"
proof -
  let ?l = "''HTTP/1.1'' @ CHR '' '' # (show_nat code @ CHR '' '' # reason)"
  have "clean ?l" using assms(2) show_nat_clean [of code] by (simp add: CR_def LF_def)
  then have "LF \<notin> set (?l @ [CR])" by (simp add: clean_def CR_def LF_def)
  from lines_Cons [OF this [unfolded LF_def], of s]
  have "lines (?l @ crlf @ s) = ?l # lines s" 
    unfolding drop_cr_snoc by (simp add: crlf_def LF_def)
  moreover have g: "\<forall>c \<in> set ''HTTP/1.1''. graphic c" by (simp add: graphic_def byte_def)
  have "split_whitespace ?l = ''HTTP/1.1'' # show_nat code # split_whitespace reason"
    by (simp only: split_whitespace_Cons [OF list.distinct(2) g]
        split_whitespace_Cons [OF show_nat_not_Nil show_nat_graphic])
  ultimately show ?thesis using assms(1) by (simp add: status_of_def)
qed

text \<open>The status line and the header lines, with the empty line that ends them.\<close>

definition response_head :: "nat \<Rightarrow> string \<Rightarrow> string list \<Rightarrow> string" where
  "response_head code reason hs = ''HTTP/1.1 '' @ show_nat code @ '' '' @ reason @ head_of hs"

lemma response_text_head: "response_text code reason hs bdy = response_head code reason hs @ bdy"
  by (simp add: response_text_def response_head_def)

text \<open>
  C28. The client reads what a server writes, a status line, header lines and a body, as the status code of that
  line and the bytes after the first empty line, unchanged, whatever they are; unless the whole is longer than a
  mebibyte, of which it reads one byte more and reports the size, or the head is not UTF-8, which it reports.
\<close>

theorem response_round_trip:
  assumes "code < 2 ^ 16" and "clean reason" and "\<forall>h \<in> set hs. clean h \<and> h \<noteq> []"
  shows "parse_response (take (max_response_size + 1) (response_text code reason hs bdy)) =
    (if max_response_size < length (response_text code reason hs bdy)
     then Inl (InvalidResponse ''response exceeded maximum allowed size'')
     else if \<not> utf8_valid (response_head code reason hs)
     then Inl (InvalidResponse (utf8_error_text 0 (response_head code reason hs)))
     else Inr (code, bdy))"
proof (cases "max_response_size < length (response_text code reason hs bdy)")
  case True
  then show ?thesis by (simp add: parse_response_def)
next
  case False
  obtain l where l: "l = ''HTTP/1.1 '' @ show_nat code @ '' '' @ reason" by blast
  have c: "clean l" using assms(2) show_nat_clean [of code] by (simp add: l CR_def LF_def)
  have h: "response_head code reason hs = l @ head_of hs" by (simp add: response_head_def l)
  have len: "4 \<le> length (head_of hs)" by (simp add: head_of_def crlf_def)
  have p: "find_sub (crlf @ crlf) ((l @ head_of hs) @ bdy) = Some (length (l @ head_of hs) - 4)"
    using find_head [of hs bdy] assms(3) len by (simp add: find_sub_clean [OF c])
  obtain s where "head_of hs = crlf @ s" by (cases hs) (simp_all add: head_of_def)
  then have st: "status_of (l @ head_of hs) = code" using status_of_response [OF assms(1,2)] by (simp add: l)
  have "length (l @ head_of hs) - 4 + 4 = length (l @ head_of hs)" using len by simp
  moreover have tk: "take (length h) (h @ t) = h" "drop (length h) (h @ t) = t" for h t :: string by simp_all
  moreover have "\<not> max_response_size < length ((l @ head_of hs) @ bdy)" using False unfolding response_text_head h .
  moreover have "take (max_response_size + 1) ((l @ head_of hs) @ bdy) = (l @ head_of hs) @ bdy"
    using False unfolding response_text_head h by (intro take_all) simp
  ultimately show ?thesis
    unfolding parse_response_def response_text_head h p Let_def option.case
    by (simp only: if_False not_True_eq_False st tk p option.case)
qed

theorem response_round_trip_witness:
  "parse_response (''HTTP/1.1 200 OK'' @ crlf @ ''A: b'' @ crlf @ crlf @ ''{}'') = Inr (200, ''{}'')"
proof -
  let ?t = "response_text 200 ''OK'' [''A: b''] ''{}''"
  have t: "?t = ''HTTP/1.1 200 OK'' @ crlf @ ''A: b'' @ crlf @ crlf @ ''{}''"
    by (simp add: response_text_def head_of_def digit_def char_of_def bit_Suc_0_iff show_nat.simps)
  have short: "length ?t \<le> max_response_size" unfolding t by (simp add: crlf_def max_response_size_def)
  have "utf8_valid (response_head 200 ''OK'' [''A: b''])"
    by (rule ascii_valid)
      (auto simp: response_head_def head_of_def crlf_def CR_def LF_def byte_def show_nat.simps digit_def char_of_def bit_Suc_0_iff)
  with response_round_trip [of 200 "''OK''" "[''A: b'']" "''{}''"] short
  have "parse_response (take (max_response_size + 1) ?t) = Inr (200, ''{}'')"
    by (simp add: clean_def CR_def LF_def)
  then show ?thesis using short by (simp add: t)
qed

section \<open>How often the sidecar is contacted\<close>

text \<open>\<open>costs v n p\<close>: the steps of \<open>p\<close> raise the counter \<open>v\<close> by at most \<open>n\<close> in all.\<close>

inductive costs :: "('w \<Rightarrow> nat) \<Rightarrow> nat \<Rightarrow> ('w, 'a) prog \<Rightarrow> bool" for v where
  Ret: "costs v n (Ret a)"
| Act: "(\<And>w p' w'. f w = (p', w') \<Longrightarrow> \<exists>m. v w' + m \<le> v w + n \<and> costs v m p') \<Longrightarrow> costs v n (Act f)"

inductive_cases costs_ActE: "costs v n (Act f)"

lemma costs_run: "costs v n p \<Longrightarrow> run p w = (a, w') \<Longrightarrow> v w' \<le> v w + n"
proof (induction arbitrary: w rule: costs.induct)
  case (Act f n)
  obtain p' w1 where f: "f w = (p', w1)" by (cases "f w")
  with Act.prems have r: "run p' w1 = (a, w')" by simp
  from Act.IH [OF f] obtain m where "v w1 + m \<le> v w + n" and "\<And>w. run p' w = (a, w') \<Longrightarrow> v w' \<le> v w + m"
    by blast
  with r show ?case by fastforce
qed simp

lemma costs_mono: "costs v n p \<Longrightarrow> n \<le> m \<Longrightarrow> costs v m p"
proof (induction arbitrary: m rule: costs.induct)
  case (Act f n)
  show ?case
  proof (rule costs.Act)
    fix w p' w' assume "f w = (p', w')"
    from Act.IH [OF this] obtain k where "v w' + k \<le> v w + n" "costs v k p'" by blast
    with Act.prems show "\<exists>k. v w' + k \<le> v w + m \<and> costs v k p'" by (intro exI [of _ k]) simp
  qed
qed (rule costs.Ret)

lemma costs_bind: "costs v n p \<Longrightarrow> (\<And>a. costs v m (h a)) \<Longrightarrow> costs v (n + m) (bind p h)"
proof (induction rule: costs.induct)
  case (Ret n a)
  then show ?case using costs_mono [of v m "h a"] by simp
next
  case (Act f n)
  show ?case
    unfolding bind.simps
  proof (rule costs.Act)
    fix w q w' assume "map_prod (\<lambda>p. bind p h) id (f w) = (q, w')"
    then obtain p' where f: "f w = (p', w')" and q: "q = bind p' h" by (cases "f w") auto
    from Act.IH [OF f] obtain k where "v w' + k \<le> v w + n" "costs v (k + m) (bind p' h)"
      using Act.prems by blast
    then show "\<exists>k. v w' + k \<le> v w + (n + m) \<and> costs v k q"
      unfolding q by (intro exI [of _ "k + m"]) simp
  qed
qed

lemma costs_free: "costs v 0 p \<Longrightarrow> (\<And>a. costs v m (h a)) \<Longrightarrow> costs v m (bind p h)"
  using costs_bind [of v 0 p m h] by simp

lemma costs_act: "(\<And>w. v (snd (g w)) \<le> v w + n) \<Longrightarrow> costs v n (act g)"
  unfolding act_def by (rule costs.Act) (metis add_0_right costs.Ret prod.case_eq_if prod.inject snd_conv)

lemma costs_cut_off: "costs v n p \<Longrightarrow> costs v 0 t \<Longrightarrow> costs v n (cut_off t p)"
proof (induction rule: costs.induct)
  case (Act f n)
  have "costs v n (Act (\<lambda>w. map_prod (cut_off t) id (f w)))"
  proof (rule costs.Act)
    fix w q w' assume "map_prod (cut_off t) id (f w) = (q, w')"
    then obtain p' where f: "f w = (p', w')" and q: "q = cut_off t p'" by (cases "f w") auto
    from Act.IH [OF f] Act.prems show "\<exists>m. v w' + m \<le> v w + n \<and> costs v m q" unfolding q by blast
  qed
  then show ?case by (auto intro!: costs_free [OF Act.prems] costs.Ret)
qed (simp add: costs.Ret)

text \<open>
  A counter of the connections the machine has opened: only a connection attempt raises it, by one.
\<close>

definition counts_connects :: "'o os_ops \<Rightarrow> 'o net \<Rightarrow> ('o \<Rightarrow> nat) \<Rightarrow> bool" where
  "counts_connects OS N v \<longleftrightarrow> (\<forall>s. v (snd (os_uuid OS s)) = v s \<and>
     (\<forall>p. v (snd (nt_exists N p s)) = v s) \<and> (\<forall>p. v (snd (nt_connect N p s)) \<le> v s + 1) \<and>
     (\<forall>c x. v (snd (nt_write N c x s)) = v s) \<and> (\<forall>c n. v (snd (nt_read N c n s)) = v s) \<and>
     (\<forall>t. v (snd (nt_sleep N t s)) = v s) \<and> (\<forall>t. v (snd (nt_elapsed N t s)) = v s))"

lemma costs_net:
  "(\<And>s. v (snd (g s)) \<le> v s + n) \<Longrightarrow> costs (\<lambda>w. v (outside w)) n (net_act E g)"
  unfolding net_act_def os_act_def by (rule costs_act) (simp split: prod.split, metis snd_conv)

lemma costs_os:
  "(\<And>s. v (snd (g (e_os E) s)) \<le> v s) \<Longrightarrow> costs (\<lambda>w. v (outside w)) 0 (os_act E g)"
  unfolding os_act_def by (rule costs_act) (simp split: prod.split, metis snd_conv)

lemma costs_attempt: "costs v n p \<Longrightarrow> (\<And>a. costs v m (h a)) \<Longrightarrow> costs v (n + m) (attempt p h)"
  unfolding attempt_def by (rule costs_bind) (auto intro: costs.Ret split: sum.split)

lemma costs_attempt0: "costs v 0 p \<Longrightarrow> (\<And>a. costs v m (h a)) \<Longrightarrow> costs v m (attempt p h)"
  using costs_attempt [of v 0 p m h] by simp

lemma costs_map: "costs v n p \<Longrightarrow> costs v n (map_result f p)"
  unfolding map_result_def using costs_bind [OF _ costs.Ret, of v n p 0 f] by simp

lemma costs_lift: "costs v n p \<Longrightarrow> costs v n (lift_err f p)"
  unfolding lift_err_def by (rule costs_map)

lemma perform_request_costs:
  assumes "counts_connects (e_os E) N v"
  shows "costs (\<lambda>w. v (outside w)) 1 (perform_request E N S p tid au)"
proof -
  let ?v = "\<lambda>w. v (outside w)"
  have connect: "costs ?v 1 (net_act E (nt_connect N q))" for q
    by (rule costs_net) (use assms in \<open>simp add: counts_connects_def\<close>)
  have free: "costs ?v 0 (net_act E (nt_write N c x))" "costs ?v 0 (net_act E (nt_read N c n))" "costs ?v 0 (os_act E os_uuid)"
    for c x n
    using assms by (simp_all add: costs_net costs_os counts_connects_def)
  have "costs ?v 0 (bind (case au of
         Some a \<Rightarrow> map_result (\<lambda>nonce. request_head p tid @ auth_lines a nonce) (os_act E os_uuid)
       | None \<Rightarrow> Ret (request_head p tid)) (\<lambda>request.
     attempt (lift_err SocketFailed (net_act E (nt_write N c (request @ crlf)))) (\<lambda>_.
     attempt (lift_err SocketFailed (net_act E (nt_read N c (max_response_size + 1)))) (\<lambda>response.
     Ret (parse_response response)))))" for c
    by (intro costs_free costs_attempt0 costs_lift free costs.Ret)
      (auto intro: costs_map free costs.Ret split: option.split)
  note rest = this
  have "costs ?v (1 + 0) (perform_request E N S p tid au)"
    unfolding perform_request_def
    by (rule costs_attempt0 [OF costs.Ret], rule costs_attempt0 [OF costs.Ret], rule costs_attempt0 [OF costs.Ret],
      rule costs_attempt [OF costs_lift [OF connect] rest])
  then show ?thesis by simp
qed

lemma request_loop_costs:
  assumes "counts_connects (e_os E) N v"
  shows "costs (\<lambda>w. v (outside w)) k (request_loop E N S p tid au k attempts last_error)"
proof (induction k arbitrary: attempts last_error)
  case (Suc k)
  let ?v = "\<lambda>w. v (outside w)"
  have e: "costs ?v 0 (net_act E (nt_elapsed N t))" and s: "costs ?v 0 (net_act E (nt_sleep N t))" for t
    using assms by (simp_all add: costs_net counts_connects_def)
  have "costs ?v 1 (with_timeout E N (sc_timeout S) (perform_request E N S p tid au))"
    unfolding with_timeout_def by (rule costs_cut_off [OF perform_request_costs [OF assms] e])
  then have "costs ?v (1 + k) (bind (with_timeout E N (sc_timeout S) (perform_request E N S p tid au))
      (\<lambda>outcome. case outcome of
         Some (Inr (status_code, bdy)) \<Rightarrow>
           if 400 \<le> status_code then Ret (Inl (HttpError status_code (from_utf8_lossy bdy))) else Ret (Inr bdy)
       | Some (Inl e) \<Rightarrow>
           if retryable e then request_loop E N S p tid au k (attempts + 1) (Some e) else Ret (Inl e)
       | None \<Rightarrow> request_loop E N S p tid au k (attempts + 1) (Some (SidecarTimeout (sc_timeout S)))))"
    by (rule costs_bind) (auto intro: costs.Ret Suc split: option.split sum.split)
  then show ?case
    using s by (auto intro!: costs_free costs.Ret)
qed (simp add: costs.Ret)

text \<open>
  C39. One call of the client returns after at most one connection per allowed
  attempt: \<open>max_retries + 1\<close>, and a single one for the quick variants used on request paths.
\<close>

theorem sidecar_contacts_bounded:
  assumes "counts_connects (e_os E) N v" and "run (do_request_inner E N S p tid au retries) w = (r, w')"
  shows "v (outside w') \<le> v (outside w) + unat retries + 1"
proof -
  let ?v = "\<lambda>w. v (outside w)"
  have x: "costs ?v 0 (net_act E (nt_exists N q))" for q
    using assms(1) by (simp add: costs_net counts_connects_def)
  have "costs ?v (Suc (unat retries)) (do_request_inner E N S p tid au retries)"
    unfolding do_request_inner_def
    by (rule costs_free [OF x]) (auto intro: costs.Ret request_loop_costs [OF assms(1)] simp del: request_loop.simps)
  from costs_run [OF this assms(2)] show ?thesis by simp
qed

theorem sidecar_contacts_bounded_witness:
  "\<exists>r w'. run (do_request_inner (ref_env 0 Map.empty) refusing_net (sidecar_from_env Map.empty) ''/health'' None None 2)
       (ref_world empty_rdb \<lparr>users = [], note_rows = []\<rparr>) = (r, w') \<and> oclock (outside w') \<le> 3"
proof -
  let ?w = "ref_world empty_rdb \<lparr>users = [], note_rows = []\<rparr>"
  obtain r w' where r: "run (do_request_inner (ref_env 0 Map.empty) refusing_net (sidecar_from_env Map.empty)
      ''/health'' None None 2) ?w = (r, w')" by (cases "run (do_request_inner (ref_env 0 Map.empty) refusing_net
      (sidecar_from_env Map.empty) ''/health'' None None 2) ?w")
  have "counts_connects (e_os (ref_env 0 Map.empty)) refusing_net oclock"
    by (simp add: counts_connects_def refusing_net_def ref_sel ref_uuid_def split: prod.split)
  from sidecar_contacts_bounded [OF this r] r show ?thesis by (auto simp: ref_world_sel)
qed

end
