(* ===== verification/App_State.thy ===== *)
theory App_State
  imports Auth_Routes Storage Sidecar
begin

text \<open>
  The application state (\<open>backend/api/src/lib.rs\<close>), how it is made from the environment at start-up, and
  the small handlers and middlewares of \<open>middleware.rs\<close>, \<open>fallback.rs\<close> and \<open>metrics.rs\<close>.
\<close>

section \<open>State\<close>

datatype db_status = PoolNotConfigured | Connected | PoolConnectionFailed string

text \<open>The health caches and the gauge task of the code's \<open>HealthState\<close> are in the world.\<close>

record health_state =
  hs_db :: db_status
  hs_redis :: bool
  hs_sidecar :: python_sidecar
  hs_flags :: feature_flags

text \<open>The semaphore and the connection counts of the code's \<open>WebSocketState\<close> are in the world.\<close>

record ws_state =
  ws_idle_timeout :: u64
  ws_per_user_max :: nat

record app_state =
  as_health :: health_state
  as_ws :: ws_state
  as_auth :: "auth_service option"
  as_storage :: "storage_config option"
  as_allowed_origin :: "string option"

definition db_pool :: "app_state \<Rightarrow> api_error + unit" where
  "db_pool A = (case hs_db (as_health A) of
       Connected \<Rightarrow> Inr ()
     | _ \<Rightarrow> Inl (ServiceUnavailable ''database not configured''))"

definition db_err :: "string \<Rightarrow> sqlx_error \<Rightarrow> api_error" where
  "db_err context e = InternalError context"

section \<open>Start-up\<close>

text \<open>\<open>parse_env_or\<close> for a given parser.\<close>

definition parse_env_or :: "(string \<Rightarrow> string option) \<Rightarrow> (string \<Rightarrow> 'a option) \<Rightarrow> string \<Rightarrow> 'a \<Rightarrow> 'a" where
  "parse_env_or vars parse key dflt = (case vars key of
       Some val \<Rightarrow> (case parse val of Some parsed \<Rightarrow> parsed | None \<Rightarrow> dflt)
     | None \<Rightarrow> dflt)"

text \<open>
  What the outside answers at start-up: the connection to the database (by URL and pool size), the
  migrations, and the Redis client. A \<open>usize\<close> has 64 bits.
\<close>

record startup =
  su_connect :: "string \<Rightarrow> nat \<Rightarrow> string + unit"
  su_migrate :: "string + unit"
  su_redis :: "cache_error + unit"

definition run_migrations :: "startup \<Rightarrow> db_error + unit" where
  "run_migrations U = map_err MigrationFailed (su_migrate U)"

definition startup_db :: "(string \<Rightarrow> string option) \<Rightarrow> startup \<Rightarrow> db_error + db_status" where
  "startup_db vars U = (case vars ''DATABASE_URL'' of
       None \<Rightarrow> Inr PoolNotConfigured
     | Some link \<Rightarrow>
        (let n = (case Option.bind (vars ''DB_MAX_CONNECTIONS'') (parse_unsigned 32) of Some n \<Rightarrow> n | None \<Rightarrow> 20) in
         case su_connect U link n of
           Inr _ \<Rightarrow> map_sum id (\<lambda>_. Connected) (run_migrations U)
         | Inl e \<Rightarrow> Inr (PoolConnectionFailed (''connection failed: '' @ e))))"

definition startup_redis :: "startup \<Rightarrow> bool" where
  "startup_redis U = (case su_redis U of Inr _ \<Rightarrow> True | Inl _ \<Rightarrow> False)"

definition app_state_from_env :: "(string \<Rightarrow> string option) \<Rightarrow> startup \<Rightarrow> db_error + app_state" where
  "app_state_from_env vars U = (case startup_db vars U of Inl e \<Rightarrow> Inl e | Inr d \<Rightarrow> Inr
     \<lparr>as_health = \<lparr>hs_db = d, hs_redis = startup_redis U, hs_sidecar = sidecar_from_env vars,
        hs_flags = feature_flags_from_env vars\<rparr>,
      as_ws = \<lparr>ws_idle_timeout = parse_env_or vars parse_u64 ''WS_IDLE_TIMEOUT_SECS'' 300,
        ws_per_user_max = parse_env_or vars (parse_unsigned 64) ''WS_PER_USER_MAX'' 10\<rparr>,
      as_auth = auth_service_from_env vars, as_storage = storage_config_from_env vars,
      as_allowed_origin = (case vars ''ALLOWED_ORIGIN'' of
          Some v \<Rightarrow> if v = [] then None else Some v | None \<Rightarrow> None)\<rparr>)"

definition startup_ws_permits :: "(string \<Rightarrow> string option) \<Rightarrow> nat" where
  "startup_ws_permits vars = parse_env_or vars (parse_unsigned 64) ''WS_MAX_CONNECTIONS'' 100"

section \<open>Middlewares and fallbacks\<close>

text \<open>A request with the extensions of the API crate.\<close>

record api_request = request +
  ext_flags :: "feature_flags option"
  ext_dev :: "string option"

text \<open>A response of these handlers: its status and its text.\<close>

type_synonym plain_response = "nat \<times> string"

definition quote :: "string \<Rightarrow> string" where
  "quote s = [CHR 0x22] @ s @ [CHR 0x22]"

definition is_whitelisted :: "string \<Rightarrow> bool" where
  "is_whitelisted p \<longleftrightarrow> p = ''/health'' \<or> starts_with p ''/health/'' \<or> p = ''/metrics'' \<or> starts_with p ''/metrics/'' \<or>
     p = ''/live'' \<or> p = ''/auth/me''"

text \<open>The answer of the maintenance middleware itself, if it does not go on.\<close>

definition maintenance_middleware :: "api_request \<Rightarrow> plain_response option" where
  "maintenance_middleware req =
     (if \<not> is_whitelisted (path req) then (case ext_flags req of
          Some flags \<Rightarrow> if maintenance_mode flags
            then Some (503, ''{'' @ quote ''error'' @ '':'' @ quote ''maintenance mode'' @ ''}'') else None
        | None \<Rightarrow> None)
      else None)"

definition dev_user_middleware :: "api_request \<Rightarrow> api_request" where
  "dev_user_middleware req = (case ext_dev req of
       Some uid \<Rightarrow> req\<lparr>ext_user := Some \<lparr>au_user_id = uid, au_email = ''dev@local.dev'', au_name = Some ''Dev User'',
          au_provider = ''dev'', au_jti = [], au_session_id = None\<rparr>\<rparr>
     | None \<Rightarrow> req)"

definition auth_me_disabled :: plain_response where
  "auth_me_disabled = (200, ''{'' @ quote ''status'' @ '':'' @ quote ''disabled'' @ ''}'')"

text \<open>The dash of the message is U+2014.\<close>

definition notes_fallback :: response where
  "notes_fallback = \<lparr>status = 503, body = JObj [(''error'',
     JStr (''notes unavailable '' @ map char_of [226, 128, 148 :: nat] @ '' auth or database not configured''))]\<rparr>"

section \<open>Metrics\<close>

definition normalize_route :: "string \<Rightarrow> string" where
  "normalize_route p = (case map_of
     [(''/health'', ''/health''), (''/health/db'', ''/health/db''), (''/health/redis'', ''/health/redis''),
      (''/health/storage'', ''/health/storage''), (''/health/python'', ''/health/python''),
      (''/metrics'', ''/metrics''), (''/metrics/python'', ''/metrics/python''), (''/live'', ''/live''),
      (''/auth/login'', ''/auth/login''), (''/auth/register'', ''/auth/register''),
      (''/auth/logout'', ''/auth/logout''), (''/auth/refresh'', ''/auth/refresh''), (''/auth/me'', ''/auth/me''),
      (''/auth/oauth/{provider}'', ''/auth/oauth''), (''/auth/oauth/{provider}/callback'', ''/auth/oauth/callback''),
      (''/notes'', ''/notes''), (''/notes/{id}'', ''/notes/id''), (''/storage/{key}'', ''/storage/key''),
      (''/storage'', ''/storage''), (''/storage/presign'', ''/storage/presign''),
      (''/storage/multipart/init'', ''/storage/multipart/init''),
      (''/storage/multipart/{key}/{upload_id}'', ''/storage/multipart/id''),
      (''/storage/multipart/{key}/{upload_id}/complete'', ''/storage/multipart/id/complete''),
      (''/storage/multipart/{key}/{upload_id}/part/{part_number}'', ''/storage/multipart/id/part''),
      (''/auth/providers'', ''/auth/providers''), (''/auth/forgot-password'', ''/auth/forgot-password''),
      (''/auth/reset-password'', ''/auth/reset-password'')] p of
       Some r \<Rightarrow> r | None \<Rightarrow> ''unknown'')"

text \<open>\<open>StatusCode::from_u16\<close> accepts 100 to 999. \<open>shown\<close> is the text of the client's error.\<close>

definition metrics_python_proxy ::
  "('r, 'd, 'o) env \<Rightarrow> 'o net \<Rightarrow> (sidecar_error \<Rightarrow> string) \<Rightarrow> app_state \<Rightarrow>
   (('r, 'd, 'o) world, nat \<times> string) prog" where
  "metrics_python_proxy E N shown A =
     map_result (\<lambda>r. case r of
         Inr bdy \<Rightarrow> (200, bdy)
       | Inl (HttpError st bdy) \<Rightarrow>
           (if 100 \<le> st \<and> st \<le> 999 then st else 500, ''# Python metrics error: '' @ bdy)
       | Inl e \<Rightarrow> (503, ''# Python metrics unavailable: '' @ shown e))
     (get_raw_quick E N (hs_sidecar (as_health A)) ''/metrics'')"

end
