(* ===== verification/Single_Use.thy ===== *)
theory Single_Use
  imports Auth_Routes
begin

text \<open>
  Refresh tokens and OAuth states are used at most once, however many requests present one and however
  their steps interleave with each other and with the rest of the server.
\<close>

section \<open>Steps that leave a token alone\<close>

text \<open>The random sources of the machine have produced the text \<open>t\<close>; a world invariant.\<close>

definition has_issued :: "('o \<Rightarrow> string \<Rightarrow> bool) \<Rightarrow> string \<Rightarrow> ('r, 'd, 'o) world \<Rightarrow> bool" where
  "has_issued issued t w \<longleftrightarrow> issued (outside w) t"

lemma has_issued_stable [simp]: "redis_stable (has_issued issued t)"
  by (simp add: redis_stable_def has_issued_def)

lemma ignores_db_act:
  assumes "\<And>w d. good w \<Longrightarrow> good (w\<lparr>db := d\<rparr>)"
  shows "ignores good (key_present f k) (\<lambda>_. True) b (db_act E q)"
  unfolding db_act_def by (rule ignores_act) (auto simp: assms split: prod.splits)

lemma ignores_free_os:
  "ignores (\<lambda>_. True) (key_present f k) (\<lambda>_. True) b (os_act E g)"
  unfolding os_act_def by (rule ignores_act) (auto split: prod.splits)

lemma ignores_os_act:
  fixes E :: "('r, 'd, 'o) env" and g :: "'o os_ops \<Rightarrow> 'o \<Rightarrow> 'a \<times> 'o"
  assumes "\<And>s. keeps_issued issued s (snd (g (e_os E) s))"
    and "\<And>s. issued s t \<Longrightarrow> P (fst (g (e_os E) s))"
  shows "ignores (has_issued issued t) (key_present f k) P b (os_act E g)"
  unfolding os_act_def
proof (rule ignores_act)
  fix w w' :: "('r, 'd, 'o) world" and a
  assume i: "has_issued issued t w"
    and w: "(case g (e_os E) (outside w) of (x, o') \<Rightarrow> (x, w\<lparr>outside := o'\<rparr>)) = (a, w')"
  obtain o' where g: "g (e_os E) (outside w) = (a, o')" and w': "w' = w\<lparr>outside := o'\<rparr>"
    using w by (auto split: prod.splits)
  have "issued o' t" using assms(1) [of "outside w"] i g by (simp add: has_issued_def keeps_issued_def)
  moreover have "P a" using assms(2) [of "outside w"] i g by (simp add: has_issued_def)
  ultimately show "has_issued issued t w' \<and> (key_present f k w' \<longrightarrow> key_present f k w) \<and> P a"
    by (simp add: w' has_issued_def)
qed

lemma ignores_weaken: "ignores good present P b p \<Longrightarrow> ignores good present (\<lambda>_. True) b p"
  by (erule consumes_mono) simp

lemma ignores_any: "ignores good present (\<lambda>_. True) b p \<Longrightarrow> (\<And>a. ignores good present S b (h a)) \<Longrightarrow>
    ignores good present S b (bind p h)"
  by (rule ignores_bind [where P = "\<lambda>_. True"])

lemma ignores_try: "ignores good present (\<lambda>_. True) b p \<Longrightarrow> (\<And>a. ignores good present (\<lambda>_. True) b (h a)) \<Longrightarrow>
    ignores good present (\<lambda>_. True) b (attempt p h)"
  by (rule ignores_attempt [where P = "\<lambda>_. True"]) simp_all

lemma ignores_map: "ignores good present (\<lambda>_. True) b p \<Longrightarrow> ignores good present (\<lambda>_. True) b (map_result h p)"
  by (rule consumes_map_result) simp

lemma ignores_lift: "ignores good present (\<lambda>_. True) b p \<Longrightarrow> ignores good present (\<lambda>_. True) b (lift_err h p)"
  unfolding lift_err_def by (rule ignores_map)

lemma ignores_done: "ignores good present (\<lambda>_. True) b (Ret a)"
  by (rule ignores_Ret) simp

lemma ignores_cases:
  "(\<And>x. o1 = Some x \<Longrightarrow> ignores good present P b (h x)) \<Longrightarrow> ignores good present P b p \<Longrightarrow>
     ignores good present P b (case o1 of None \<Rightarrow> p | Some x \<Rightarrow> h x)"
  "(\<And>e. ignores good present P b (f e)) \<Longrightarrow> (\<And>a. ignores good present P b (g a)) \<Longrightarrow>
     ignores good present P b (case s of Inl e \<Rightarrow> f e | Inr a \<Rightarrow> g a)"
  "(\<And>c d. ignores good present P b (k c d)) \<Longrightarrow> ignores good present P b (case pr of (c, d) \<Rightarrow> k c d)"
  "ignores good present P b p \<Longrightarrow> ignores good present P b q \<Longrightarrow> ignores good present P b (if bb then p else q)"
  "ignores good present P b p \<Longrightarrow> ignores good present P b q \<Longrightarrow>
     ignores good present P b (case prov of Google \<Rightarrow> p | GitHub \<Rightarrow> q)"
  by (simp_all split: option.split sum.split prod.split oauth_provider.split)

lemmas ignoring = ignores_any ignores_try ignores_map ignores_lift ignores_done ignores_cases

context redis_env
begin

lemma ignores_inert:
  assumes "simulates db_of c c'" and "redis_stable good" and "inert k c'"
  shows "ignores good (key_present db_of k) (\<lambda>_. True) b (redis_act E c)"
  by (rule ignores_redis_act [OF assms(1,2)]) (use inert_run [OF assms(3)] in auto)

end

section \<open>Refresh tokens\<close>

text \<open>An environment whose Redis server and operating system keep their laws.\<close>

locale auth_env = redis_env E db_of + os_service "e_os E" issued
  for E :: "('r, 'd, 'o) env" and db_of :: "'r \<Rightarrow> rdb" and issued :: "'o \<Rightarrow> string \<Rightarrow> bool"
begin

abbreviation (input) untouched :: "string \<Rightarrow> bool \<Rightarrow> (('r, 'd, 'o) world, 'a) prog \<Rightarrow> bool" where
  "untouched t b p \<equiv> ignores (has_issued issued t) (key_present db_of (make_key E ''refresh'' t)) (\<lambda>_. True) b p"

lemma os_untouched:
  "untouched t b (os_act E os_now)" "untouched t b (os_act E os_uuid)"
  "untouched t b (os_act E (\<lambda>OS. os_random OS n))"
  by (rule ignores_os_act; simp add: now uuid random)+

lemma create_token_untouched: "untouched t b (create_token E J u m n p)"
  unfolding create_token_def Let_def by (intro ignoring os_untouched)

lemma set_auth_cookies_untouched: "untouched t b (set_auth_cookies E h a r s je re sec)"
  unfolding set_auth_cookies_def generate_csrf_token_def Let_def by (intro ignoring os_untouched)

lemma issue_refresh_untouched: "untouched t b (issue_refresh_token E A uid)"
  unfolding issue_refresh_token_def Let_def
proof (rule ignores_attempt [where P = "\<lambda>r. \<forall>bs. r = Inr bs \<longrightarrow> hex_encode bs \<noteq> t"])
  show "ignores (has_issued issued t) (key_present db_of (make_key E ''refresh'' t))
      (\<lambda>r. \<forall>bs. r = Inr bs \<longrightarrow> hex_encode bs \<noteq> t) b
      (map_result (map_err (\<lambda>e. InternalError (''failed to generate refresh token: '' @ e)))
         (os_act E (\<lambda>OS. os_random OS 32)))"
  proof (rule consumes_map_result, rule consumes_mono)
    show "ignores (has_issued issued t) (key_present db_of (make_key E ''refresh'' t))
        (\<lambda>r. \<forall>bs. r = Inr bs \<longrightarrow> hex_encode bs \<noteq> t) b (os_act E (\<lambda>OS. os_random OS 32))"
    proof (rule ignores_os_act)
      show "\<forall>bs. fst (os_random (e_os E) 32 s) = Inr bs \<longrightarrow> hex_encode bs \<noteq> t" if "issued s t" for s
      proof (intro allI impI)
        fix bs assume "fst (os_random (e_os E) 32 s) = Inr bs"
        then obtain s' where "os_random (e_os E) 32 s = (Inr bs, s')"
          by (cases "os_random (e_os E) 32 s") simp
        from random_fresh [OF this] that show "hex_encode bs \<noteq> t" by auto
      qed
    qed (simp add: random)
  qed simp
next
  fix bs :: "u8 list"
  assume "\<forall>bs'. (Inr bs :: api_error + u8 list) = Inr bs' \<longrightarrow> hex_encode bs' \<noteq> t"
  then have ne: "make_key E ''refresh'' (hex_encode bs) \<noteq> make_key E ''refresh'' t"
    by (simp add: make_key_def)
  show "untouched t b (attempt (lift_err api_error_of_cache (cache_set E (str_codec (e_lib E)) ''refresh''
      (hex_encode bs) uid (c_refresh_expiry (cfg A)))) (\<lambda>_. Ret (Inr (hex_encode bs))))"
    by (intro ignoring cache_set_ignores ne has_issued_stable)
qed simp

text \<open>A refresh request that presents the token \<open>t\<close> succeeds only if it took the token out of the store.\<close>

lemma refresh_takes_token:
  assumes t: "refresh_token_of (e_lib E) hs b = Some t"
  shows "consumes (has_issued issued t) (key_present db_of (make_key E ''refresh'' t))
    (\<lambda>b r. (\<exists>a. r = Inr a) \<longrightarrow> b) False (refresh E A hs b)"
  unfolding refresh_def Let_def t ok_or_simps attempt_Inr
proof (rule token_store.client [OF rotate_takes [OF has_issued_stable]], intro ignoring)
  show "untouched t b' (db_act E q)" for b' and q :: "'d db_ops \<Rightarrow> ('d, user_row option) stmt"
    by (rule ignores_db_act) (simp add: has_issued_def)
qed (rule create_token_untouched issue_refresh_untouched set_auth_cookies_untouched)+

end

text \<open>
  C1. A refresh token buys at most one new pair of tokens: of any number of
  refresh requests that present it, interleaved in any way with each other and with anything else the
  server does, at most one succeeds, as long as nobody stores the token again. The token is one that
  was issued before; no request can be issued it a second time.
\<close>

theorem refresh_token_single_use:
  assumes "redis_env E db_of" and "os_service (e_os E) issued"
    and "\<forall>(A, hs, b) \<in> set reqs. refresh_token_of (e_lib E) hs b = Some t"
    and "issued (outside w) t"
    and "pool_reaches F (w, map (\<lambda>(A, hs, b). refresh E A hs b) reqs) (w', ps')"
    and "\<And>w w'. F w w' \<Longrightarrow> issued (outside w) t \<Longrightarrow> issued (outside w') t \<and>
      (key_present db_of (make_key E ''refresh'' t) w' \<longrightarrow> key_present db_of (make_key E ''refresh'' t) w)"
    and "i < length ps'" "ps' ! i = Ret (Inr x)" and "j < length ps'" "ps' ! j = Ret (Inr y)"
  shows "i = j"
proof -
  have env: "auth_env E db_of issued" using assms(1,2) by (simp add: auth_env_def)
  have start: "consumes (has_issued issued t) (key_present db_of (make_key E ''refresh'' t))
      (\<lambda>b r. (\<exists>a. r = Inr a) \<longrightarrow> b) False p"
    if "p \<in> set (map (\<lambda>(A, hs, b). refresh E A hs b) reqs)" for p
    using that assms(3) auth_env.refresh_takes_token [OF env] by fastforce
  show ?thesis
    by (rule token_store.single_use [OF redis_env.rotate_takes [OF assms(1) has_issued_stable] assms(5) _ start _
          assms(7-10)])
      (use assms(4,6) in \<open>simp_all add: has_issued_def\<close>)
qed

section \<open>OAuth states\<close>

text \<open>
  The clock of the machine reads a time that is at least a window after 1970 and whose milliseconds a
  Redis score holds exactly.
\<close>

definition clock_fits :: "('r, 'd, 'o) env \<Rightarrow> u64 \<Rightarrow> bool" where
  "clock_fits E win \<longleftrightarrow> (\<forall>s. 1000 * int (unat win) \<le> fst (os_now (e_os E) s) \<and> fst (os_now (e_os E) s) \<le> 2 ^ 53)"

lemma clock_fits_bounds:
  assumes "clock_fits E win" and "os_now (e_os E) s = (now, s')"
  shows "uint (unix_epoch_ms now - as_millis win) \<le> 2 ^ 53" and "unat (unix_epoch_ms now) \<le> 2 ^ 53"
proof -
  have b: "1000 * int (unat win) \<le> now" "now \<le> 2 ^ 53"
    using assms by (auto simp: clock_fits_def dest: spec [of _ s])
  have "0 \<le> 1000 * int (unat win)" by (simp del: of_nat_unat)
  then have "0 \<le> now" using b(1) by (rule order_trans)
  then obtain n where n: "now = int n" by (metis zero_le_imp_eq_int)
  have "int (1000 * unat win) \<le> int n" using b(1) by (simp add: n del: of_nat_unat)
  then have n': "1000 * unat win \<le> n" by (simp only: of_nat_le_iff)
  have n'': "n \<le> 2 ^ 53" using b(2) by (simp add: n)
  have ms: "unix_epoch_ms now = of_nat n" by (simp add: unix_epoch_ms_def n)
  show "unat (unix_epoch_ms now) \<le> 2 ^ 53" using n'' by (simp add: ms unat_of_nat_small)
  have "(of_nat n :: u64) - as_millis win = of_nat (n - 1000 * unat win)"
    using n' by (simp add: as_millis_def of_nat_diff)
  then show "uint (unix_epoch_ms now - as_millis win) \<le> 2 ^ 53"
    using n'' by (simp add: ms uint_of_nat_small)
qed

lemma inert_rate_limit_script:
  assumes "k \<noteq> key"
  shows "inert k (rate_limit_script (ref_redis 0) key start now mx m ttl)"
  unfolding rate_limit_script_def ref_ops
  using assms by (auto intro!: inert_rules split: option.split)

lemma inert_create_script:
  assumes "k \<noteq> key" and "k \<noteq> ukey"
  shows "inert k (session_create_script (ref_redis 0) key ukey j sid ttl)"
  unfolding session_create_script_def ref_ops
  by (intro inert_rules assms)

lemma ignores_os_const:
  assumes "\<And>s. P (fst (g (e_os E) s))"
  shows "ignores (\<lambda>_. True) (key_present f k) P b (os_act E g)"
  unfolding os_act_def by (rule ignores_act) (use assms in \<open>auto split: prod.splits, metis fst_conv\<close>)

context redis_env
begin

lemma check_rate_limit_ignores:
  assumes "clock_fits E win" and k: "k \<noteq> make_key E ''ratelimit'' key"
  shows "ignores (\<lambda>_. True) (key_present db_of k) (\<lambda>_. True) b (check_rate_limit E key win mx)"
proof -
  have "ignores (\<lambda>_. True) (key_present db_of k) (\<lambda>_. True) b (rate_limit_check E key win mx)"
    unfolding rate_limit_check_def Let_def
  proof (rule ignores_bind [where P = "\<lambda>now. uint (unix_epoch_ms now - as_millis win) \<le> 2 ^ 53
        \<and> unat (unix_epoch_ms now) \<le> 2 ^ 53"])
    show "ignores (\<lambda>_. True) (key_present db_of k) (\<lambda>now. uint (unix_epoch_ms now - as_millis win) \<le> 2 ^ 53
        \<and> unat (unix_epoch_ms now) \<le> 2 ^ 53) b (os_act E os_now)"
      by (rule ignores_os_const) (use clock_fits_bounds [OF assms(1)] in \<open>metis prod.collapse\<close>)
  next
    fix now
    assume "uint (unix_epoch_ms now - as_millis win) \<le> 2 ^ 53 \<and> unat (unix_epoch_ms now) \<le> 2 ^ 53"
    then show "ignores (\<lambda>_. True) (key_present db_of k) (\<lambda>_. True) b (bind (os_act E os_uuid) (\<lambda>member_id.
        attempt (redis_act E (rate_limit_script (e_redis E) (make_key E ''ratelimit'' key)
          (unix_epoch_ms now - as_millis win) (unix_epoch_ms now) mx member_id (win + 60))) (\<lambda>result.
        Ret (Inr \<lparr>allowed = result ! 0 = 1, remaining = word_of_int (max (result ! 1) 0),
                  reset_at = word_of_int (result ! 2)\<rparr>))))"
      by (intro ignoring ignores_free_os ignores_inert [OF rate_limit_script_sim]
          inert_rate_limit_script k redis_stable_True) simp_all
  qed
  then show ?thesis
    unfolding check_rate_limit_def by (intro ignoring ignores_free_os)
qed

abbreviation (input) state_untouched :: "string \<Rightarrow> bool \<Rightarrow> (('r, 'd, 'o) world, 'a) prog \<Rightarrow> bool" where
  "state_untouched t b p \<equiv>
     ignores (\<lambda>_. True) (key_present db_of (make_key E ''oauth_csrf'' t)) (\<lambda>_. True) b p"

lemma free_parts_untouched:
  "state_untouched t b (create_token E J u m n p)"
  "state_untouched t b (set_auth_cookies E h a r s je re sec)"
  "state_untouched t b (exchange_code E W svc prov c)"
  unfolding create_token_def set_auth_cookies_def generate_csrf_token_def exchange_code_def Let_def
    fetch_google_user_info_def fetch_github_user_info_def fetch_github_primary_email_def
  by (intro ignoring ignores_free_os)+

lemma store_parts_untouched:
  "state_untouched t b (issue_refresh_token E A uid)"
  "state_untouched t b (open_session E A uid m n p)"
proof -
  have "make_key E ''refresh'' x \<noteq> make_key E ''oauth_csrf'' t" for x by (simp add: make_key_inject)
  then show "state_untouched t b (issue_refresh_token E A uid)"
    unfolding issue_refresh_token_def Let_def by (intro ignoring ignores_free_os cache_set_ignores) simp
  have "make_key E ''oauth_csrf'' t \<noteq> make_key E ''session'' x" "make_key E ''oauth_csrf'' t \<noteq> make_key E ''user_sessions'' x" for x
    by (simp_all add: make_key_inject)
  then have "state_untouched t b (session_create E s ttl)" for s ttl
    unfolding session_create_def Let_def
    by (intro ignoring ignores_free_os ignores_inert [OF create_sim] inert_create_script) simp_all
  then show "state_untouched t b (open_session E A uid m n p)"
    unfolding open_session_def by (intro ignoring ignores_free_os)
qed

lemma oauth_finish_untouched: "state_untouched t b (oauth_finish E A hs prov c s)"
  unfolding oauth_finish_def Let_def
  by (intro ignoring ignores_free_os ignores_db_act free_parts_untouched store_parts_untouched) simp_all

lemma oauth_callback_takes:
  assumes "clock_fits E (oauth_callback_window_secs (c_rate_limits (cfg A)))"
  shows "consumes (\<lambda>_. True) (key_present db_of (make_key E ''oauth_csrf'' t)) (\<lambda>b r. (\<exists>a. r = Inr a) \<longrightarrow> b) False
    (oauth_callback E A hs peer p c t)"
proof (cases "parse_provider p")
  case (Inr prov)
  have k: "make_key E ''oauth_csrf'' t \<noteq> make_key E ''ratelimit'' x" for x by (simp add: make_key_inject)
  show ?thesis
    unfolding oauth_callback_def Let_def Inr attempt_Inr
  proof (rule consumes_attempt)
    show "state_untouched t False (check_rate_limit E (''oauth_callback:'' @ client_ip E hs peer)
        (oauth_callback_window_secs (c_rate_limits (cfg A))) (oauth_callback_max (c_rate_limits (cfg A))))"
      by (rule check_rate_limit_ignores [OF assms k])
  next
    show "consumes (\<lambda>_. True) (key_present db_of (make_key E ''oauth_csrf'' t)) (\<lambda>b r. (\<exists>a. r = Inr a) \<longrightarrow> b) b'
        (attempt (lift_err api_error_of_cache (cache_get_delete E (str_codec (e_lib E)) ''oauth_csrf'' t))
          (\<lambda>stored. case stored of None \<Rightarrow> Ret (Inl (Unauthorized ''Invalid or expired OAuth state''))
             | Some s \<Rightarrow> oauth_finish E A hs prov c s))" if "b' = False \<and> True" for b'
      using that by (simp only: simp_thms) (rule getdel.client, rule oauth_finish_untouched)
  qed auto
qed (auto simp: oauth_callback_def Let_def intro: consumes.Ret)

end

text \<open>
  C2. An OAuth state is accepted at most once: of any number of callbacks that
  present it, for any provider, with any code, cookies and addresses, interleaved in any way, at most
  one succeeds, as long as nobody stores the state again.
\<close>

theorem oauth_state_single_use:
  assumes "redis_env E db_of"
    and "\<forall>(A, hs, peer, p, c) \<in> set reqs. clock_fits E (oauth_callback_window_secs (c_rate_limits (cfg A)))"
    and "pool_reaches F (w, map (\<lambda>(A, hs, peer, p, c). oauth_callback E A hs peer p c t) reqs) (w', ps')"
    and "\<And>w w'. F w w' \<Longrightarrow> key_present db_of (make_key E ''oauth_csrf'' t) w' \<Longrightarrow>
      key_present db_of (make_key E ''oauth_csrf'' t) w"
    and "i < length ps'" "ps' ! i = Ret (Inr x)" and "j < length ps'" "ps' ! j = Ret (Inr y)"
  shows "i = j"
proof -
  have start: "consumes (\<lambda>_. True) (key_present db_of (make_key E ''oauth_csrf'' t))
      (\<lambda>b r. (\<exists>a. r = Inr a) \<longrightarrow> b) False p"
    if "p \<in> set (map (\<lambda>(A, hs, peer, p, c). oauth_callback E A hs peer p c t) reqs)" for p
    using that assms(2) redis_env.oauth_callback_takes [OF assms(1)] by fastforce
  show ?thesis
    by (rule token_store.single_use [OF redis_env.get_delete_takes [OF assms(1) redis_stable_True] assms(3) _ start _
          assms(5-8)]) (use assms(4) in simp_all)
qed

section \<open>Examples\<close>

text \<open>A request that runs alone is one way of interleaving.\<close>

lemma pool_run:
  assumes "run p w = (a, w')" and "i < length ps" and "ps ! i = p"
  shows "pool_reaches F (w, ps) (w', ps[i := Ret a])"
  using assms
proof (induction p arbitrary: w ps)
  case (Ret b)
  then show ?case by (metis list_update_id prod.inject rtranclp.rtrancl_refl run.simps(1))
next
  case (Act f)
  obtain p' v where f: "f w = (p', v)" by (cases "f w")
  then have r: "run p' v = (a, w')" using Act.prems(1) by simp
  have "p' \<in> Basic_BNFs.fsts (f w)" by (simp add: f)
  note ih = Act.IH [OF rangeI this r, of "ps[i := p']"]
  have reach: "pool_reaches F (v, ps[i := p']) (w', ps[i := p', i := Ret a])"
    by (rule ih) (use Act.prems in simp_all)
  have "pool_step F (w, ps) (v, ps[i := p'])"
    by (rule pool_step.turn [where f = f]) (use Act.prems f in simp_all)
  from this reach show ?case by (simp add: converse_rtranclp_into_rtranclp)
qed

definition demo_web :: "osstate web" where
  "demo_web = \<lparr>wb_redirect_error = (\<lambda>_. None), wb_authorize = (\<lambda>c u s o'. ((''url'', ''st''), o')),
     wb_token = (\<lambda>c k o'. (Inr ''tok'', o')),
     wb_google_user = (\<lambda>t o'. (Inr \<lparr>rp_success = True, rp_status = ''200 OK'',
        rp_json = Inr \<lparr>goog_id = ''1'', goog_email = ''g@x'', goog_name = None\<rparr>\<rparr>, o')),
     wb_github_user = (\<lambda>t o'. (Inl ''down'', o')), wb_github_emails = (\<lambda>t o'. (Inl ''down'', o'))\<rparr>"

definition demo_state :: "osstate auth_state" where
  "demo_state = \<lparr>st_auth = auth_service_new (demo_config BothMode),
     st_oauth = oauth_service_new (Some ''i'') (Some ''s'') None None, st_web = demo_web\<rparr>"

definition ann_row :: user_row where
  "ann_row = \<lparr>u_id = ''ann'', u_email = ''a@x'', u_name = None, u_provider = ''local'',
     u_password_hash = Some ''h:secret99''\<rparr>"

definition token_world :: "(rdb, pg, osstate) world" where
  "token_world = (ref_world empty_rdb \<lparr>users = [ann_row], note_rows = []\<rparr>)
     \<lparr>redis := put ''app:refresh:t'' (RStr ''qann'', None) empty_rdb, outside := \<lparr>oclock = 0, otexts = [''t'']\<rparr>\<rparr>"

definition demo_refresh :: "((rdb, pg, osstate) world, api_error + cookies \<times> token_response) prog" where
  "demo_refresh = refresh (ref_env 0 Map.empty) demo_state [] (Some ''t'')"

lemma hex_encode_length_ne [simp]:
  "length s \<noteq> 2 * length bs \<Longrightarrow> hex_encode bs \<noteq> s" "length s \<noteq> 2 * length bs \<Longrightarrow> s \<noteq> hex_encode bs"
  by auto

lemma hex_encode_eq [simp]: "hex_encode a = hex_encode b \<longleftrightarrow> a = b"
  using hex_encode_inj by blast

lemma first_refresh: "\<exists>x w1. run demo_refresh token_world = (Inr x, w1)"
  by (simp add: demo_refresh_def refresh_def refresh_token_of_def run_simps cache_defs ref_cmd_defs ref_sel ref_db_sel
      token_world_def demo_state_def ref_str_codec_def internal_def ann_row_def ref_world_sel create_token_def
      ref_uuid_def fresh_text_def issue_refresh_token_def ref_random_def ref_jwt_encode_def Let_def Cons_replicate_eq
      auth_service_new_def demo_config_def
      set_auth_cookies_def generate_csrf_token_def set_cookie_def)


theorem refresh_token_single_use_witness:
  "\<nexists>y. fst (run demo_refresh (snd (run demo_refresh token_world))) = Inr y"
proof
  assume "\<exists>y. fst (run demo_refresh (snd (run demo_refresh token_world))) = Inr y"
  then obtain y w2 where second: "run demo_refresh (snd (run demo_refresh token_world)) = (Inr y, w2)"
    by (metis prod.collapse)
  obtain x w1 where first: "run demo_refresh token_world = (Inr x, w1)" using first_refresh by blast
  let ?E = "ref_env 0 Map.empty :: (rdb, pg, osstate) env"
  let ?reqs = "[(demo_state, [], Some ''t''), (demo_state, [], Some ''t'')]"
  let ?ps = "map (\<lambda>(A, hs, b). refresh ?E A hs b) ?reqs"
  let ?F = "\<lambda>_ _. False"
  have 1: "pool_reaches ?F (token_world, ?ps) (w1, ?ps[0 := Ret (Inr x)])"
    by (rule pool_run [OF first]) (simp_all add: demo_refresh_def)
  have 2: "pool_reaches ?F (w1, ?ps[0 := Ret (Inr x)]) (w2, ?ps[0 := Ret (Inr x), 1 := Ret (Inr y)])"
  proof (rule pool_run)
    show "run demo_refresh w1 = (Inr y, w2)" using second by (simp add: first)
  qed (simp_all add: demo_refresh_def)
  note reach = rtranclp_trans [OF 1 2]
  have "(0 :: nat) = 1"
    by (rule refresh_token_single_use [OF ref_env.redis_env_axioms _ _ _ reach, where t = "''t''" and issued = "\<lambda>s x. x \<in> set (otexts s)"])
      (simp_all add: ref_os.os_service_axioms refresh_token_of_def token_world_def)
  then show False by simp
qed

text \<open>An environment whose clock stands still, and a stored state of a redirect without a session.\<close>

definition still_env :: "(rdb, pg, osstate) env" where
  "still_env = (ref_env 0 Map.empty)\<lparr>e_os := ref_os\<lparr>os_now := (\<lambda>s. (1000000000000, s))\<rparr>\<rparr>"

definition state_world :: "(rdb, pg, osstate) world" where
  "state_world = (ref_world empty_rdb \<lparr>users = [ann_row], note_rows = []\<rparr>)
     \<lparr>redis := put ''app:oauth_csrf:st'' (RStr (CHR ''q'' # show_json ref_lib (oauth_state_value Google None)), None)
        empty_rdb\<rparr>"

definition demo_callback ::
  "((rdb, pg, osstate) world, api_error + nat \<times> cookies \<times> token_response) prog" where
  "demo_callback = oauth_callback still_env demo_state [] None ''google'' ''code'' ''st''"

lemma still_env_sel [simp]:
  "e_redis still_env = ref_redis 0" "e_db still_env = ref_db" "e_lib still_env = ref_lib"
  "e_prefix still_env = ''app''" "e_vars still_env = Map.empty" "e_os still_env = ref_os\<lparr>os_now := (\<lambda>s. (1000000000000, s))\<rparr>"
  by (simp_all add: still_env_def)

lemma parse_google: "parse_provider ''google'' = Inr Google"
proof -
  have "lowercase ''google'' = ''google''" by code_simp
  then show ?thesis by (simp add: parse_provider_def)
qed

lemma demo_state_parse:
  "parse_stored_oauth_state ref_lib (show_json ref_lib (oauth_state_value Google None)) =
     Inr \<lparr>so_provider = ''google'', so_session_id = None\<rparr>"
proof -
  have "unpack_option (pack_option (Some ''google'')) = Some ''google''" "unpack_option (pack_option None) = None"
    by (rule unpack_pack_option)+
  then show ?thesis
    by (simp add: parse_stored_oauth_state_def ref_sel ref_parse_json_def ref_show_json_def oauth_state_value_def
        del: unpack_pack_option)
qed

lemma elapse_0_unexpired [simp]:
  "(\<And>k v e. keys d k = Some (v, Some e) \<Longrightarrow> rclock d \<le> e) \<Longrightarrow> elapse 0 d = d"
  by (cases d) (auto simp: elapse_def live_def fun_eq_iff split: option.split)

lemma first_callback: "\<exists>x w1. run demo_callback state_world = (Inr x, w1)"
  by (simp add: demo_callback_def oauth_callback_def parse_google client_ip_def run_simps cache_defs ref_cmd_defs
      ref_sel ref_db_sel state_world_def ref_world_sel check_rate_limit_def rate_limit_defs ref_uuid_def fresh_text_def
      ref_str_codec_def oauth_finish_def demo_state_parse [unfolded ref_sel] validate_oauth_state_match_def
      demo_state_def auth_service_new_def demo_config_def rate_limit_config_default_def exchange_code_def
      demo_web_def oauth_service_new_def fetch_google_user_info_def ref_upsert_user_def ann_row_def
      create_token_def ref_jwt_encode_def issue_refresh_token_def ref_random_def Cons_replicate_eq open_session_def
      session_defs ref_sadd_def ref_session_codec_def set_auth_cookies_def generate_csrf_token_def set_cookie_def)

theorem oauth_state_single_use_witness:
  "\<nexists>y. fst (run demo_callback (snd (run demo_callback state_world))) = Inr y"
proof
  assume "\<exists>y. fst (run demo_callback (snd (run demo_callback state_world))) = Inr y"
  then obtain y w2 where second: "run demo_callback (snd (run demo_callback state_world)) = (Inr y, w2)"
    by (metis prod.collapse)
  obtain x w1 where first: "run demo_callback state_world = (Inr x, w1)" using first_callback by blast
  let ?q = "(demo_state, [], None, ''google'', ''code'')"
  let ?ps = "map (\<lambda>(A, hs, peer, p, c). oauth_callback still_env A hs peer p c ''st'') [?q, ?q]"
  let ?F = "\<lambda>_ _. False"
  have 1: "pool_reaches ?F (state_world, ?ps) (w1, ?ps[0 := Ret (Inr x)])"
    by (rule pool_run [OF first]) (simp_all add: demo_callback_def)
  have 2: "pool_reaches ?F (w1, ?ps[0 := Ret (Inr x)]) (w2, ?ps[0 := Ret (Inr x), 1 := Ret (Inr y)])"
  proof (rule pool_run)
    show "run demo_callback w1 = (Inr y, w2)" using second by (simp add: first)
  qed (simp_all add: demo_callback_def)
  note reach = rtranclp_trans [OF 1 2]
  have env: "redis_env still_env (\<lambda>d. d)"
    by (simp add: redis_env_def ref.redis_service_axioms)
  have "(0 :: nat) = 1"
    by (rule oauth_state_single_use [OF env _ reach])
      (simp_all add: clock_fits_def demo_state_def auth_service_new_def demo_config_def rate_limit_config_default_def)
  then show False by simp
qed

end
