(* ===== verification/Auth_Flows.thy ===== *)
theory Auth_Flows
  imports Single_Use
begin

text \<open>
  What the authentication handlers do when they succeed: which user signs in, which rows of the
  database change, and what is left of tokens and sessions.
\<close>

section \<open>Taking a successful run apart\<close>

declare run_lift_err_Inr [simp] run_Ret_iff [simp]

lemma spawn_blocking_InrE:
  assumes "run (spawn_blocking E msg task) w = (Inr x, w')"
  obtains w1 where "run (os_act E os_join) w = (None, w1)" and "run task w1 = (Inr x, w')"
  using assms by (auto simp: spawn_blocking_def elim!: bindE split: option.splits)

section \<open>Steps that leave the database alone\<close>

lemma db_update [simp]: "db (w\<lparr>outside := o'\<rparr>) = db w"
  by simp

lemma routes_frame [frame]:
  "keeps db (check_rate_limit E k win mx)" "keeps db (issue_refresh_token E A uid)"
  "keeps db (open_session E A uid m n p)" "keeps db (login_checks E A ip mail)"
  "keeps db (create_token E J u m n p)" "keeps db (set_auth_cookies E h a r s je re sec)"
  "keeps db (exchange_code E W svc prov c)" "keeps db (login_failed E ip :: ('r, 'd, 'o, 'a) handler)"
proof -
  show r: "keeps db (check_rate_limit E k win mx)" for k win mx
    unfolding check_rate_limit_def by (auto intro!: keeps_attempt keeps_bind frame)
  show "keeps db (issue_refresh_token E A uid)"
    unfolding issue_refresh_token_def Let_def by (intro keeps_attempt keeps_map_result keeps_lift_err frame keeps_Ret)
  show "keeps db (open_session E A uid m n p)"
    unfolding open_session_def by (auto intro!: keeps_bind keeps_lift_err frame)
  show "keeps db (login_checks E A ip mail)"
    unfolding login_checks_def Let_def
  proof (intro keeps_bind frame r)
    fix x :: "(cache_error + unit) \<times> (api_error + unit) \<times> (api_error + unit)"
    obtain o1 e i where x: "x = (o1, e, i)" by (cases x)
    have "keeps db (attempt (Ret e) (\<lambda>_. Ret i))" by (intro keeps_attempt keeps_Ret)
    then show "keeps db (case x of (backoff, email_limit, ip_limit) \<Rightarrow> case backoff of
            Inl (BackoffBlocked remaining_secs count label) \<Rightarrow>
              Ret (Inl (RateLimited (''Too many login attempts ('' @ show_u64 count @ '' failures). Try again in ''
                @ show_u64 remaining_secs @ '' seconds ('' @ label @ '' cooldown).'')))
          | Inl e \<Rightarrow> Ret (Inl (InternalError (''Backoff check failed: '' @ cache_error_display e)))
          | Inr _ \<Rightarrow> attempt (Ret email_limit) (\<lambda>_. Ret ip_limit))"
      unfolding x by (cases o1) (simp_all split: cache_error.split)
  qed
  show "keeps db (create_token E J u m n p)" "keeps db (set_auth_cookies E h a r s je re sec)"
    by (rule auth_core_frame; simp)+
  show "keeps db (exchange_code E W svc prov c)" by (rule exchange_code_keeps) simp
  show "keeps db (login_failed E ip :: ('r, 'd, 'o, 'a) handler)"
    unfolding login_failed_def by (intro keeps_bind frame keeps_Ret)
qed

text \<open>After the user is known, signing in issues tokens and a session and leaves the database alone.\<close>

context postgres_service
begin

lemma db_act_Inr:
  assumes "e_db E = D" and "runs_as pg_of sp (q D)" and "run (db_act E q) w = (Inr y, w')"
  shows "sp (pg_of (db w)) y (pg_of (db w'))"
proof -
  obtain d where "q D (db w) = (Inr y, d)" and "db w' = d"
    using assms(1,3) by (cases "q D (db w)") (auto simp: run_db_act)
  with runs_as_Inr [OF assms(2)] show ?thesis by simp
qed

end
section \<open>Login\<close>

text \<open>The row and the answer of a login that succeeds.\<close>

definition signs_in :: "lib \<Rightarrow> login_request \<Rightarrow> user_row \<Rightarrow> bool" where
  "signs_in L b u \<longleftrightarrow> u_email u = lr_email b \<and>
     (\<exists>h. u_password_hash u = Some h \<and> argon2_parse L h = Inr () \<and> argon2_matches L (lr_password b) h)"

definition info_of_row :: "user_row \<Rightarrow> user_info" where
  "info_of_row u = \<lparr>ui_id = u_id u, ui_email = u_email u, ui_name = u_name u, ui_provider = u_provider u\<rparr>"

lemma login_failed_run: "run (login_failed E ip) w \<noteq> (Inr x, w')"
  by (simp add: login_failed_def run_bind run_Ret split: prod.split)

lemma token_user [simp]: "tr_user (token_response_of A a r c u) = u"
  by (simp add: token_response_of_def)

lemma verify_password_True:
  "verify_password L p h = Inr True \<longleftrightarrow> argon2_parse L h = Inr () \<and> argon2_matches L p h"
  by (auto simp: verify_password_def split: sum.split)

lemma keepsD: "keeps db p \<Longrightarrow> run p w = (a, w') \<Longrightarrow> db w' = db w"
  by (rule keeps_run)

text \<open>The part of \<open>login\<close> after the query.\<close>

definition login_tail ::
  "('r, 'd, 'o) env \<Rightarrow> 'o auth_state \<Rightarrow> string \<Rightarrow> login_request \<Rightarrow> user_row option \<Rightarrow>
   ('r, 'd, 'o, cookies \<times> token_response) handler" where
  "login_tail E A ip b user = (let L = e_lib E; c = cfg A in
      case user of None \<Rightarrow> login_failed E ip | Some u \<Rightarrow>
      (case u_password_hash u of None \<Rightarrow> login_failed E ip | Some hash \<Rightarrow>
      attempt (spawn_blocking E ''Password verification task failed: ''
        (Ret (verify_password L (lr_password b) hash))) (\<lambda>matches.
      if \<not> matches then login_failed E ip else
      attempt (create_token E (jwt (st_auth A)) (u_id u) (u_email u) (u_name u) (u_provider u)) (\<lambda>access_token.
      attempt (issue_refresh_token E A (u_id u)) (\<lambda>refresh_token.
      attempt (set_auth_cookies E [] access_token refresh_token None (c_jwt_expiry c) (c_refresh_expiry c)
        (c_cookie_secure c)) (\<lambda>(h, csrf_token).
      attempt (open_session E A (u_id u) (u_email u) (u_name u) (u_provider u)) (\<lambda>session_id.
      attempt (Ret (set_cookie L h ''session'' session_id (c_jwt_expiry c) True (c_cookie_secure c))) (\<lambda>h.
      Ret (Inr (h, token_response_of A access_token refresh_token csrf_token
        \<lparr>ui_id = u_id u, ui_email = u_email u, ui_name = u_name u, ui_provider = u_provider u\<rparr>))))))))))"

lemma login_split:
  "login E A hs peer b = attempt (login_checks E A (client_ip E hs peer) (lr_email b)) (\<lambda>_.
     attempt (lift_err (internal ''Internal server error'') (db_act E (\<lambda>D. q_user_by_email D (lr_email b))))
       (login_tail E A (client_ip E hs peer) b))"
  by (simp add: login_def login_tail_def [abs_def] Let_def)

lemma keeps_cases:
  "(\<And>x. keeps v (h x)) \<Longrightarrow> keeps v p \<Longrightarrow> keeps v (case o1 of None \<Rightarrow> p | Some x \<Rightarrow> h x)"
  "(\<And>e. keeps v (f e)) \<Longrightarrow> (\<And>a. keeps v (g a)) \<Longrightarrow> keeps v (case s of Inl e \<Rightarrow> f e | Inr a \<Rightarrow> g a)"
  "(\<And>c d. keeps v (k c d)) \<Longrightarrow> keeps v (case pr of (c, d) \<Rightarrow> k c d)"
  "keeps v p \<Longrightarrow> keeps v q \<Longrightarrow> keeps v (if bb then p else q)"
  by (simp_all split: option.split sum.split prod.split)

lemma spawn_blocking_frame [frame]: "keeps db task \<Longrightarrow> keeps db (spawn_blocking E msg task)"
  unfolding spawn_blocking_def by (intro keeps_bind keeps_cases frame keeps_Ret)

lemmas keeping = keeps_bind keeps_attempt keeps_map_result keeps_lift_err keeps_Ret keeps_cases

lemma login_tail_frame: "keeps db (login_tail E A ip b user)"
  unfolding login_tail_def Let_def by (intro keeping frame)

lemma login_tail_Inr:
  assumes "run (login_tail E A ip b user) w = (Inr (cks, tr), w')"
  obtains u where "user = Some u" and "u_email u = lr_email b \<longrightarrow> signs_in (e_lib E) b u"
    and "tr_user tr = info_of_row u"
  using assms
  by (auto simp: login_tail_def Let_def login_failed_run signs_in_def info_of_row_def verify_password_True
      elim!: attempt_InrE spawn_blocking_InrE split: option.splits if_splits prod.splits)

context postgres_service
begin

lemma login_run:
  assumes E: "e_db E = D" and run: "run (login E A hs peer b) w = (Inr (cks, tr), w')"
  obtains u where "find (\<lambda>v. u_email v = lr_email b) (users (pg_of (db w))) = Some u"
    and "signs_in (e_lib E) b u" and "tr_user tr = info_of_row u" and "pg_of (db w') = pg_of (db w)"
proof -
  obtain w1 w2 user where c: "run (login_checks E A (client_ip E hs peer) (lr_email b)) w = (Inr (), w1)"
    and q: "run (db_act E (\<lambda>D. q_user_by_email D (lr_email b))) w1 = (Inr user, w2)"
    and t: "run (login_tail E A (client_ip E hs peer) b user) w2 = (Inr (cks, tr), w')"
    using run unfolding login_split by (auto elim!: attempt_InrE)
  obtain u where u: "user = Some u" "u_email u = lr_email b \<longrightarrow> signs_in (e_lib E) b u" "tr_user tr = info_of_row u"
    using t by (rule login_tail_Inr)
  have "db w1 = db w" "db w' = db w2"
    using keepsD [OF routes_frame(4) c] keepsD [OF login_tail_frame t] by simp_all
  moreover from db_act_Inr [OF E user_by_email q]
  have f: "find (\<lambda>v. u_email v = lr_email b) (users (pg_of (db w1))) = Some u" and "pg_of (db w2) = pg_of (db w1)"
    by (simp_all add: user_by_email_spec_def u(1))
  moreover have "u_email u = lr_email b" using f by (auto simp: find_Some_iff)
  ultimately show thesis using u by (intro that) simp_all
qed

end

text \<open>
  C11. Who logs in knows the password: a login that succeeds names an account of the
  database with the request's email whose stored hash the password matches, answers with that account's
  data, and has changed nothing in the database.
\<close>

theorem login_authenticates:
  assumes "postgres_service (e_db E) pg_of canon" and "run (login E A hs peer b) w = (Inr (cks, tr), w')"
  shows "\<exists>u \<in> set (users (pg_of (db w))). signs_in (e_lib E) b u \<and> tr_user tr = info_of_row u
     \<and> pg_of (db w') = pg_of (db w)"
proof -
  obtain u where f: "find (\<lambda>v. u_email v = lr_email b) (users (pg_of (db w))) = Some u"
    and u: "signs_in (e_lib E) b u" "tr_user tr = info_of_row u" "pg_of (db w') = pg_of (db w)"
    by (rule postgres_service.login_run [OF assms(1) refl assms(2)])
  have "u \<in> set (users (pg_of (db w)))" using f by (auto simp: find_Some_iff)
  with u show ?thesis by blast
qed

lemma os_pick_ref: "os_pick_world (ref_env dt vars) = Pair True"
  by (simp add: fun_eq_iff os_pick_world_def ref_sel)

lemmas eval_defs = client_ip_def run_simps cache_defs ref_cmd_defs ref_sel ref_db_sel ref_world_sel
  check_rate_limit_def rate_limit_defs ref_uuid_def fresh_text_def ref_str_codec_def
  demo_state_def auth_service_new_def demo_config_def rate_limit_config_default_def
  create_token_def ref_jwt_encode_def issue_refresh_token_def ref_random_def Cons_replicate_eq open_session_def
  session_defs ref_sadd_def ref_session_codec_def set_auth_cookies_def generate_csrf_token_def set_cookie_def
  spawn_blocking_def join_all2_def run_join2_left os_pick_ref

definition ann_world :: "(rdb, pg, osstate) world" where
  "ann_world = ref_world empty_rdb \<lparr>users = [ann_row], note_rows = []\<rparr>"

definition ann_login :: login_request where
  "ann_login = \<lparr>lr_email = ''a@x'', lr_password = ''secret99''\<rparr>"

lemma ann_login_run:
  "\<exists>cks tr w'. run (login (ref_env 0 Map.empty) demo_state [] None ann_login) ann_world = (Inr (cks, tr), w')"
  by (simp add: login_def login_checks_def eval_defs ann_world_def ann_row_def ann_login_def verify_password_def
      starts_with_def)

theorem login_authenticates_witness:
  "\<exists>cks tr w'. run (login (ref_env 0 Map.empty) demo_state [] None ann_login) ann_world = (Inr (cks, tr), w')
     \<and> tr_user tr = info_of_row ann_row"
proof -
  obtain cks tr w' where r: "run (login (ref_env 0 Map.empty) demo_state [] None ann_login) ann_world = (Inr (cks, tr), w')"
    using ann_login_run by blast
  have "postgres_service (e_db (ref_env 0 Map.empty)) (\<lambda>p. p) Some" by (simp add: ref_db.postgres_service_axioms)
  from login_authenticates [OF this r] r show ?thesis by (auto simp: ann_world_def ref_world_sel)
qed

section \<open>Registration\<close>

text \<open>The part of \<open>register\<close> after the new row.\<close>

definition register_tail ::
  "('r, 'd, 'o) env \<Rightarrow> 'o auth_state \<Rightarrow> register_request \<Rightarrow> string \<Rightarrow>
   ('r, 'd, 'o, nat \<times> cookies \<times> token_response) handler" where
  "register_tail E A b uid = (let L = e_lib E; c = cfg A in
      attempt (create_token E (jwt (st_auth A)) uid (rr_email b) (rr_name b) ''local'') (\<lambda>access_token.
      attempt (issue_refresh_token E A uid) (\<lambda>refresh_token.
      attempt (set_auth_cookies E [] access_token refresh_token None (c_jwt_expiry c) (c_refresh_expiry c)
        (c_cookie_secure c)) (\<lambda>(h, csrf_token).
      attempt (open_session E A uid (rr_email b) (rr_name b) ''local'') (\<lambda>session_id.
      attempt (Ret (set_cookie L h ''session'' session_id (c_jwt_expiry c) True (c_cookie_secure c))) (\<lambda>h.
      Ret (Inr (201, h, token_response_of A access_token refresh_token csrf_token
        \<lparr>ui_id = uid, ui_email = rr_email b, ui_name = rr_name b, ui_provider = ''local''\<rparr>))))))))"

lemma register_split:
  "register E A hs peer b =
     attempt (check_rate_limit E (''register:'' @ client_ip E hs peer) (register_window_secs (c_rate_limits (cfg A)))
        (register_max (c_rate_limits (cfg A)))) (\<lambda>_.
     attempt (Ret (validate_registration b)) (\<lambda>_.
     attempt (lift_err (internal ''Internal server error'') (db_act E (\<lambda>D. q_user_id_by_email D (rr_email b)))) (\<lambda>existing.
     if existing \<noteq> None then Ret (Inl (Conflict ''Email already registered'')) else
     attempt (spawn_blocking E ''Password hashing task failed: '' (hash_password E (rr_password b))) (\<lambda>h.
     attempt (lift_err (\<lambda>e. case e of
             SqlxDatabase True _ \<Rightarrow> Conflict ''Email already registered''
           | _ \<Rightarrow> InternalError ''Internal server error'')
         (db_act E (\<lambda>D. q_insert_user D (rr_email b) (rr_name b) h))) (register_tail E A b)))))"
  unfolding register_def register_tail_def [abs_def] Let_def by (rule refl)

lemma register_tail_frame: "keeps db (register_tail E A b uid)"
  unfolding register_tail_def Let_def by (intro keeping frame)

lemma register_tail_Inr:
  assumes "run (register_tail E A b uid) w = (Inr (n, cks, tr), w')"
  shows "n = 201 \<and> tr_user tr = \<lparr>ui_id = uid, ui_email = rr_email b, ui_name = rr_name b, ui_provider = ''local''\<rparr>"
  using assms by (auto simp: register_tail_def Let_def elim!: attempt_InrE split: prod.splits)

lemma hash_password_Inr:
  "run (hash_password E p) w = (Inr h, w') \<Longrightarrow> fst (os_argon2 (e_os E) p (outside w)) = Inr h \<and> db w' = db w"
  by (auto simp: hash_password_def run_map_result run_os_act split: prod.splits)

text \<open>An account with a password made of the request.\<close>

definition account_of :: "register_request \<Rightarrow> string \<Rightarrow> string \<Rightarrow> user_row" where
  "account_of b uid h = \<lparr>u_id = uid, u_email = rr_email b, u_name = rr_name b, u_provider = ''local'',
     u_password_hash = Some h\<rparr>"

context postgres_service
begin

lemma register_run:
  assumes E: "e_db E = D" and run: "run (register E A hs peer b) w = (Inr (n, cks, tr), w')"
  obtains uid h s where "n = 201" and "validate_registration b = Inr ()"
    and "rr_email b \<notin> u_email ` set (users (pg_of (db w)))" and "uid \<notin> u_id ` set (users (pg_of (db w)))"
    and "fst (os_argon2 (e_os E) (rr_password b) s) = Inr h" and "tr_user tr = info_of_row (account_of b uid h)"
    and "pg_of (db w') = (pg_of (db w))\<lparr>users := users (pg_of (db w)) @ [account_of b uid h]\<rparr>"
proof -
  obtain w1 w2 w3 w4 w5 h uid where
    c: "run (check_rate_limit E (''register:'' @ client_ip E hs peer) (register_window_secs (c_rate_limits (cfg A)))
        (register_max (c_rate_limits (cfg A)))) w = (Inr (), w1)"
    and v: "validate_registration b = Inr ()"
    and q: "run (db_act E (\<lambda>D. q_user_id_by_email D (rr_email b))) w1 = (Inr None, w2)"
    and j: "run (os_act E os_join) w2 = (None, w3)" and h: "run (hash_password E (rr_password b)) w3 = (Inr h, w4)"
    and i: "run (db_act E (\<lambda>D. q_insert_user D (rr_email b) (rr_name b) h)) w4 = (Inr uid, w5)"
    and t: "run (register_tail E A b uid) w5 = (Inr (n, cks, tr), w')"
    using run unfolding register_split
    by (auto elim!: attempt_InrE spawn_blocking_InrE split: if_splits)
  have w: "db w1 = db w" "db w3 = db w2" "db w4 = db w3" "db w' = db w5"
    using keepsD [OF routes_frame(1) c] keepsD [OF keeps_os_act j] hash_password_Inr [OF h]
      keepsD [OF register_tail_frame t] by simp_all
  from db_act_Inr [OF E user_id_by_email q] have "pg_of (db w2) = pg_of (db w1)"
    by (simp add: user_id_by_email_spec_def)
  with db_act_Inr [OF E insert_user i] w
  have "insert_user_spec canon (rr_email b) (rr_name b) h (pg_of (db w)) uid (pg_of (db w'))" by simp
  with v hash_password_Inr [OF h] register_tail_Inr [OF t] show thesis
    by (intro that [of uid "outside w3" h])
      (auto simp: insert_user_spec_def account_of_def info_of_row_def)
qed

end

text \<open>
  C12. A registration that succeeds was valid and its email was not taken; it has
  added exactly one row, with a new identifier, the request's email and name and an Argon2 hash of its
  password, and answers 201 with that account's data.
\<close>

theorem register_creates_account:
  assumes "postgres_service (e_db E) pg_of canon"
    and "run (register E A hs peer b) w = (Inr (n, cks, tr), w')"
  shows "n = 201 \<and> validate_registration b = Inr () \<and> rr_email b \<notin> u_email ` set (users (pg_of (db w))) \<and>
    (\<exists>uid h s. uid \<notin> u_id ` set (users (pg_of (db w))) \<and> fst (os_argon2 (e_os E) (rr_password b) s) = Inr h \<and>
      tr_user tr = info_of_row (account_of b uid h) \<and>
      pg_of (db w') = (pg_of (db w))\<lparr>users := users (pg_of (db w)) @ [account_of b uid h]\<rparr>)"
  by (rule postgres_service.register_run [OF assms(1) refl assms(2)]) blast

definition bob_request :: register_request where
  "bob_request = \<lparr>rr_email = ''b@x'', rr_password = ''password'', rr_name = None\<rparr>"

lemma bob_register_run:
  "\<exists>n cks tr w'. run (register (ref_env 0 Map.empty) demo_state [] None bob_request) ann_world = (Inr (n, cks, tr), w')"
  by (simp add: register_def eval_defs ann_world_def ann_row_def bob_request_def validate_registration_def
      ref_insert_user_def hash_password_def)

theorem register_creates_account_witness:
  "\<exists>w' uid x. run (register (ref_env 0 Map.empty) demo_state [] None bob_request) ann_world = (Inr x, w')
    \<and> db w' = \<lparr>users = [ann_row, account_of bob_request uid ''h:password''], note_rows = []\<rparr>"
proof -
  obtain n cks tr w' where r: "run (register (ref_env 0 Map.empty) demo_state [] None bob_request) ann_world =
      (Inr (n, cks, tr), w')"
    using bob_register_run by blast
  have "postgres_service (e_db (ref_env 0 Map.empty)) (\<lambda>p. p) Some" by (simp add: ref_db.postgres_service_axioms)
  from register_creates_account [OF this r] r show ?thesis
    by (auto simp: ann_world_def ref_world_sel ref_sel bob_request_def)
qed

end
