(* ===== verification/Table_Frames.thy ===== *)
theory Table_Frames
  imports Auth_Flows
begin

text \<open>
  What a handler may do to the tables of the database: every step of it relates the tables before and
  after by a given relation, whatever other requests do in between.
\<close>

abbreviation changes ::
  "('d \<Rightarrow> pg) \<Rightarrow> (pg \<Rightarrow> pg \<Rightarrow> bool) \<Rightarrow> (('r, 'd, 'o) world, 'a) prog \<Rightarrow> bool" where
  "changes pg_of T \<equiv> steps (\<lambda>w w'. T (pg_of (db w)) (pg_of (db w'))) (\<lambda>_. True)"

named_theorems changing "how handlers change the tables"

lemma changes_Ret [changing]: "changes f T (Ret a)"
  by (simp add: steps.Ret)

lemma changes_bind [changing]: "changes f T p \<Longrightarrow> (\<And>a. changes f T (h a)) \<Longrightarrow> changes f T (bind p h)"
  by (rule steps_bind)

lemma changes_attempt [changing]: "changes f T p \<Longrightarrow> (\<And>a. changes f T (h a)) \<Longrightarrow> changes f T (attempt p h)"
  by (rule steps_attempt)

lemma changes_map [changing]: "changes f T p \<Longrightarrow> changes f T (map_result h p)"
  by (rule steps_map_result)

lemma changes_lift [changing]: "changes f T p \<Longrightarrow> changes f T (lift_err h p)"
  unfolding lift_err_def by (rule changes_map)

lemma changes_cases [changing]:
  "(\<And>x. changes f T (h x)) \<Longrightarrow> changes f T p \<Longrightarrow> changes f T (case o1 of None \<Rightarrow> p | Some x \<Rightarrow> h x)"
  "(\<And>e. changes f T (g e)) \<Longrightarrow> (\<And>a. changes f T (k a)) \<Longrightarrow> changes f T (case s of Inl e \<Rightarrow> g e | Inr a \<Rightarrow> k a)"
  "(\<And>c d. changes f T (m c d)) \<Longrightarrow> changes f T (case pr of (c, d) \<Rightarrow> m c d)"
  "changes f T p \<Longrightarrow> changes f T q \<Longrightarrow> changes f T (if bb then p else q)"
  by (simp_all split: option.split sum.split prod.split)

lemma changes_keeps: "reflp T \<Longrightarrow> keeps db p \<Longrightarrow> changes f T p"
  by (erule steps_mono) (simp_all add: reflp_def)

lemma changes_run:
  "changes f T p \<Longrightarrow> reflp T \<Longrightarrow> transp T \<Longrightarrow> run p w = (a, w') \<Longrightarrow> T (f (db w)) (f (db w'))"
proof -
  assume c: "changes f T p" "run p w = (a, w')" and r: "reflp T" and t: "transp T"
  have "reflp (\<lambda>w w'. T (f (db w)) (f (db w')))" using r by (simp add: reflp_def)
  moreover have "transp (\<lambda>w w'. T (f (db w)) (f (db w')))"
    by (rule transpI) (rule transpD [OF t])
  ultimately show "T (f (db w)) (f (db w'))" using steps_run [OF c(1) _ _ c(2)] by blast
qed

context postgres_service
begin

lemma changes_db_act:
  assumes "e_db E = D" and "runs_as pg_of sp (q D)" and "reflp T" and "\<And>p y p'. sp p y p' \<Longrightarrow> T p p'"
  shows "changes pg_of T (db_act E q)"
  unfolding db_act_def
proof (rule steps_act)
  fix w w' x
  assume "(case q (e_db E) (db w) of (x, d) \<Rightarrow> (x, w\<lparr>db := d\<rparr>)) = (x, w')"
  then obtain d where "q D (db w) = (x, d)" and w': "db w' = d"
    using assms(1) by (cases "q D (db w)") auto
  with assms(2) have "pg_of d = pg_of (db w) \<or> (\<exists>y. sp (pg_of (db w)) y (pg_of d))"
    unfolding runs_as_def by (cases x) (auto dest: spec [of _ "db w"])
  with assms(3,4) show "T (pg_of (db w)) (pg_of (db w')) \<and> True" unfolding w' by (auto simp: reflp_def)
qed

end

end
