(* ===== verification/Notes.thy ===== *)
theory Notes
  imports App_State Table_Frames
begin

text \<open>
  The notes of a user (\<open>backend/api/src/notes.rs\<close>): creation, reading, replacement, deletion, and the
  keyset-paginated list with its opaque cursor.
\<close>

section \<open>Inputs and outputs\<close>

record note_input =
  in_title :: string
  in_body :: string

text \<open>\<open>per_page\<close> is an \<open>i64\<close>; timestamps are microseconds since the epoch.\<close>

record pagination_params =
  pp_cursor :: "string option"
  pp_per_page :: int

definition default_per_page :: int where
  "default_per_page = 20"

record paginated_notes =
  pn_items :: "note_row list"
  pn_next_cursor :: "string option"
  pn_has_more :: bool
  pn_per_page :: int

section \<open>The cursor\<close>

definition encode_cursor :: "lib \<Rightarrow> int \<Rightarrow> string \<Rightarrow> string" where
  "encode_cursor L created i = base64_encode L (show_int created @ '':'' @ i)"

definition decode_cursor :: "lib \<Rightarrow> string \<Rightarrow> (int \<times> string) option" where
  "decode_cursor L cur = (case base64_decode L cur of None \<Rightarrow> None | Some raw \<Rightarrow>
     if \<not> utf8_valid raw then None else
     (case split_once (CHR '':'') raw of None \<Rightarrow> None | Some (micros, i) \<Rightarrow>
      (case parse_signed 64 micros of None \<Rightarrow> None | Some m \<Rightarrow> Some (m, i))))"

text \<open>The position a request asks for: garbage is no position.\<close>

definition cursor_of :: "lib \<Rightarrow> string option \<Rightarrow> (int \<times> string) option" where
  "cursor_of L cur = Option.bind (Option.bind cur (decode_cursor L))
     (\<lambda>(micros, i). if micros_ok L micros \<and> is_uuid L i then Some (micros, i) else None)"

section \<open>The handlers\<close>

definition listed_note :: "string \<Rightarrow> string \<times> string \<times> int \<times> int \<Rightarrow> note_row" where
  "listed_note uid r = (case r of (i, title, created, updated) \<Rightarrow>
     \<lparr>n_id = i, n_user_id = uid, n_title = title, n_body = [], n_created_at = created, n_updated_at = updated\<rparr>)"

definition page_of ::
  "lib \<Rightarrow> string \<Rightarrow> int \<Rightarrow> (string \<times> string \<times> int \<times> int) list \<Rightarrow> paginated_notes" where
  "page_of L uid limit rows =
     (let has_more = nat limit < length rows;
          items = map (listed_note uid) (take (nat limit) rows) in
      \<lparr>pn_items = items,
       pn_next_cursor = (if has_more \<and> items \<noteq> []
         then Some (encode_cursor L (n_created_at (last items)) (n_id (last items))) else None),
       pn_has_more = has_more, pn_per_page = limit\<rparr>)"

definition clamp :: "int \<Rightarrow> int \<Rightarrow> int \<Rightarrow> int" where
  "clamp x lo hi = (if x < lo then lo else if hi < x then hi else x)"

definition list_notes ::
  "('r, 'd, 'o) env \<Rightarrow> app_state \<Rightarrow> auth_user \<Rightarrow> pagination_params \<Rightarrow> ('r, 'd, 'o, nat \<times> paginated_notes) handler" where
  "list_notes E A auth params =
     attempt (Ret (db_pool A)) (\<lambda>_.
     let limit = clamp (pp_per_page params) 1 100; cursor = cursor_of (e_lib E) (pp_cursor params) in
     attempt (lift_err (db_err ''failed to list notes'')
       (db_act E (\<lambda>D. q_notes D (au_user_id auth) cursor (limit + 1)))) (\<lambda>rows.
     Ret (Inr (200, page_of (e_lib E) (au_user_id auth) limit rows))))"

definition validate_note :: "note_input \<Rightarrow> api_error + unit" where
  "validate_note input =
     (if trim (in_title input) = [] then Inl (ValidationError ''title is required'')
      else if 255 < length (in_title input) then Inl (ValidationError ''title must be 255 characters or fewer'')
      else if 100000 < length (in_body input) then Inl (ValidationError ''body must be 100KB or fewer'')
      else Inr ())"

definition check_note_id :: "lib \<Rightarrow> string \<Rightarrow> api_error + unit" where
  "check_note_id L i = (if is_uuid L i then Inr () else Inl (ValidationError ''invalid note id''))"

definition create_note ::
  "('r, 'd, 'o) env \<Rightarrow> app_state \<Rightarrow> auth_user \<Rightarrow> note_input \<Rightarrow> ('r, 'd, 'o, nat \<times> note_row) handler" where
  "create_note E A auth input =
     attempt (Ret (db_pool A)) (\<lambda>_.
     attempt (Ret (validate_note input)) (\<lambda>_.
     attempt (lift_err (db_err ''failed to create note'')
       (db_act E (\<lambda>D. q_insert_note D (au_user_id auth) (in_title input) (in_body input)))) (\<lambda>note.
     Ret (Inr (201, note)))))"

definition get_note ::
  "('r, 'd, 'o) env \<Rightarrow> app_state \<Rightarrow> auth_user \<Rightarrow> string \<Rightarrow> ('r, 'd, 'o, nat \<times> note_row) handler" where
  "get_note E A auth i =
     attempt (Ret (check_note_id (e_lib E) i)) (\<lambda>_.
     attempt (Ret (db_pool A)) (\<lambda>_.
     attempt (lift_err (db_err ''failed to get note'') (db_act E (\<lambda>D. q_note D i (au_user_id auth)))) (\<lambda>row.
     attempt (Ret (ok_or (NotFound ''note not found'') row)) (\<lambda>note.
     Ret (Inr (200, note))))))"

definition update_note ::
  "('r, 'd, 'o) env \<Rightarrow> app_state \<Rightarrow> auth_user \<Rightarrow> string \<Rightarrow> note_input \<Rightarrow> ('r, 'd, 'o, nat \<times> note_row) handler" where
  "update_note E A auth i input =
     attempt (Ret (check_note_id (e_lib E) i)) (\<lambda>_.
     attempt (Ret (db_pool A)) (\<lambda>_.
     attempt (Ret (validate_note input)) (\<lambda>_.
     attempt (lift_err (db_err ''failed to update note'')
       (db_act E (\<lambda>D. q_update_note D (in_title input) (in_body input) i (au_user_id auth)))) (\<lambda>row.
     attempt (Ret (ok_or (NotFound ''note not found'') row)) (\<lambda>note.
     Ret (Inr (200, note)))))))"

definition delete_note ::
  "('r, 'd, 'o) env \<Rightarrow> app_state \<Rightarrow> auth_user \<Rightarrow> string \<Rightarrow> ('r, 'd, 'o, nat) handler" where
  "delete_note E A auth i =
     attempt (Ret (check_note_id (e_lib E) i)) (\<lambda>_.
     attempt (Ret (db_pool A)) (\<lambda>_.
     attempt (lift_err (db_err ''failed to delete note'') (db_act E (\<lambda>D. q_delete_note D i (au_user_id auth)))) (\<lambda>rows.
     Ret (if 0 < rows then Inr 204 else Inl (NotFound ''note not found'')))))"

section \<open>The cursor is read back\<close>

text \<open>What the code relies on from the base64 engine.\<close>

definition base64_ok :: "lib \<Rightarrow> bool" where
  "base64_ok L \<longleftrightarrow> (\<forall>s. base64_decode L (base64_encode L s) = Some s)"

definition ascii :: "string \<Rightarrow> bool" where
  "ascii s \<longleftrightarrow> (\<forall>c \<in> set s. byte c < 128)"

lemma show_int_ascii: "c \<in> set (show_int i) \<Longrightarrow> byte c < 128"
  by (auto simp: show_int_def byte_def dest: show_nat_ascii [unfolded byte_def] split: if_splits)

lemma cursor_round_trip_aux:
  assumes "base64_ok L" and "- (2 ^ 63) \<le> created" and "created < 2 ^ 63" and "ascii i"
  shows "decode_cursor L (encode_cursor L created i) = Some (created, i)"
proof -
  let ?raw = "show_int created @ '':'' @ i"
  have "utf8_valid ?raw"
    by (rule ascii_valid) (use assms(4) show_int_ascii in \<open>auto simp: ascii_def byte_def\<close>)
  moreover have "split_once (CHR '':'') (show_int created @ CHR '':'' # i) = Some (show_int created, i)"
    by (rule split_once_append [OF show_int_no_colon])
  moreover have "parse_signed 64 (show_int created) = Some created"
    using assms(2,3) by (intro parse_signed_show_int) simp_all
  ultimately show ?thesis
    using assms(1) by (simp add: decode_cursor_def encode_cursor_def base64_ok_def)
qed

text \<open>
  The cursor of a note with any 64-bit timestamp decodes to that note's timestamp
  and identifier.
\<close>

theorem cursor_round_trip:
  assumes "base64_ok L" and "- (2 ^ 63) \<le> created" and "created < 2 ^ 63" and "ascii i"
  shows "decode_cursor L (encode_cursor L created i) = Some (created, i)"
  using assms by (rule cursor_round_trip_aux)

section \<open>Following the cursor\<close>

text \<open>A list in strictly descending order: the elements below the k-th are those after it.\<close>

lemma filter_below:
  fixes f :: "'a \<Rightarrow> 'b::linorder"
  assumes "sorted_wrt (\<lambda>x y. f y < f x) xs" and "k < length xs"
  shows "filter (\<lambda>x. f x < f (xs ! k)) xs = drop (Suc k) xs"
proof -
  let ?P = "\<lambda>x. f x < f (xs ! k)"
  have "filter ?P (take (Suc k) xs) = []"
  proof -
    have "\<not> ?P x" if "x \<in> set (take (Suc k) xs)" for x
    proof -
      from that obtain i where i: "i \<le> k" "x = xs ! i" by (auto simp: in_set_conv_nth less_Suc_eq_le)
      then show ?thesis
        using sorted_wrt_nth_less [OF assms(1), of i k] assms(2) by (cases "i = k") auto
    qed
    then show ?thesis by simp
  qed
  moreover have "filter ?P (drop (Suc k) xs) = drop (Suc k) xs"
  proof (rule filter_True, rule ballI)
    fix x assume "x \<in> set (drop (Suc k) xs)"
    then obtain i where i: "i < length xs - Suc k" "x = xs ! (Suc k + i)" by (auto simp: in_set_conv_nth)
    then have "Suc k + i < length xs" by simp
    then show "?P x" using sorted_wrt_nth_less [OF assms(1), of k "Suc k + i"] i(2) by simp
  qed
  ultimately have "filter ?P (take (Suc k) xs @ drop (Suc k) xs) = drop (Suc k) xs"
    by (simp only: filter_append append_Nil)
  then show ?thesis by (simp only: append_take_drop_id)
qed

lemma newest_first_desc:
  assumes "distinct (map n_id ns)"
  shows "sorted_wrt (\<lambda>x y. note_key y < note_key x) (newest_first ns)"
proof -
  let ?s = "sort_key note_key ns"
  have "inj_on note_key (set ns)"
    using assms by (auto simp: distinct_map inj_on_def note_key_def)
  then have "distinct (map note_key ?s)"
    using assms by (simp add: distinct_map)
  moreover have "sorted (map note_key ?s)" by simp
  ultimately have "sorted_wrt (<) (map note_key ?s)" by (simp add: strict_sorted_iff)
  then show ?thesis by (simp add: newest_first_def sorted_wrt_rev sorted_wrt_map)
qed

text \<open>The notes whose cursors the code can read back, as they come from the database.\<close>

definition cursor_safe :: "lib \<Rightarrow> note_row \<Rightarrow> bool" where
  "cursor_safe L n \<longleftrightarrow> - (2 ^ 63) \<le> n_created_at n \<and> n_created_at n < 2 ^ 63 \<and> ascii (n_id n) \<and>
     micros_ok L (n_created_at n) \<and> is_uuid L (n_id n)"

lemma cursor_of_note:
  assumes "base64_ok L" and "cursor_safe L n"
  shows "cursor_of L (Some (encode_cursor L (n_created_at n) (n_id n))) = Some (n_created_at n, n_id n)"
  using assms cursor_round_trip_aux [of L "n_created_at n" "n_id n"] by (simp add: cursor_of_def cursor_safe_def)

text \<open>A note as the list shows it: without its body.\<close>

definition shown_note :: "string \<Rightarrow> note_row \<Rightarrow> note_row" where
  "shown_note uid n = listed_note uid (note_head n)"

text \<open>A client that follows the cursor, for at most \<open>n\<close> requests; \<open>None\<close> if it is not done then or a request fails.\<close>

primrec walk ::
  "('r, 'd, 'o) env \<Rightarrow> app_state \<Rightarrow> auth_user \<Rightarrow> int \<Rightarrow> nat \<Rightarrow> string option \<Rightarrow> ('r, 'd, 'o) world \<Rightarrow>
   note_row list option" where
  "walk E A auth per 0 cur w = None"
| "walk E A auth per (Suc n) cur w =
     (case run (list_notes E A auth \<lparr>pp_cursor = cur, pp_per_page = per\<rparr>) w of
        (Inl e, w') \<Rightarrow> None
      | (Inr (st, p), w') \<Rightarrow> (case pn_next_cursor p of
            None \<Rightarrow> Some (pn_items p)
          | Some c \<Rightarrow> map_option ((@) (pn_items p)) (walk E A auth per n (Some c) w')))"

definition lists_answered :: "'d db_ops \<Rightarrow> string \<Rightarrow> bool" where
  "lists_answered D uid \<longleftrightarrow> (\<forall>cur lim d. 0 \<le> lim \<longrightarrow> (\<exists>y d'. q_notes D uid cur lim d = (Inr y, d')))"

context postgres_service
begin

lemma list_notes_run:
  assumes "e_db E = D" and "hs_db (as_health A) = Connected" and "lists_answered D (au_user_id auth)"
  obtains w' where "run (list_notes E A auth \<lparr>pp_cursor = cur, pp_per_page = per\<rparr>) w = (Inr (200,
      page_of (e_lib E) (au_user_id auth) (clamp per 1 100)
        (map note_head (take (nat (clamp per 1 100 + 1))
          (filter (before_cursor canon (cursor_of (e_lib E) cur)) (notes_of canon (au_user_id auth) (pg_of (db w))))))), w')"
    and "pg_of (db w') = pg_of (db w)"
proof -
  let ?lim = "clamp per 1 100 + 1"
  let ?c = "cursor_of (e_lib E) cur"
  have "0 \<le> ?lim" by (simp add: clamp_def)
  then obtain y d where q: "q_notes D (au_user_id auth) ?c ?lim (db w) = (Inr y, d)"
    using assms(3) unfolding lists_answered_def by blast
  have s: "notes_spec canon (au_user_id auth) ?c ?lim (pg_of (db w)) y (pg_of d)"
    by (rule runs_as_Inr [OF notes_page q])
  have "run (list_notes E A auth \<lparr>pp_cursor = cur, pp_per_page = per\<rparr>) w =
      (Inr (200, page_of (e_lib E) (au_user_id auth) (clamp per 1 100) y), w\<lparr>db := d\<rparr>)"
    using assms(1,2) q by (simp add: list_notes_def Let_def db_pool_def run_attempt run_lift_err run_db_act run_Ret)
  with s show thesis by (intro that [of "w\<lparr>db := d\<rparr>"]) (simp_all add: notes_spec_def)
qed

lemma walk_from:
  assumes E: "e_db E = D" and A: "hs_db (as_health A) = Connected" and ans: "lists_answered D (au_user_id auth)"
    and b64: "base64_ok (e_lib E)"
    and safe: "\<And>n. n \<in> set ns \<Longrightarrow> cursor_safe (e_lib E) n \<and> canon (n_id n) = Some (n_id n)"
    and desc: "sorted_wrt (\<lambda>x y. note_key y < note_key x) ns"
  shows "ns = notes_of canon (au_user_id auth) (pg_of (db w)) \<Longrightarrow> length ns - k < fuel \<Longrightarrow> k \<le> length ns \<Longrightarrow>
    cur = (if k = 0 then None else Some (encode_cursor (e_lib E) (n_created_at (ns ! (k - 1))) (n_id (ns ! (k - 1))))) \<Longrightarrow>
    walk E A auth per fuel cur w = Some (map (shown_note (au_user_id auth)) (drop k ns))"
proof (induction fuel arbitrary: k cur w)
  case (Suc fuel)
  let ?lim = "clamp per 1 100" and ?u = "au_user_id auth"
  let ?l = "nat ?lim"
  have l: "1 \<le> ?l" "nat (?lim + 1) = Suc ?l" "\<not> ?lim \<le> 0" by (auto simp: clamp_def)
  have f: "filter (before_cursor canon (cursor_of (e_lib E) cur)) ns = drop k ns"
  proof (cases k)
    case 0
    then show ?thesis using Suc.prems(4) by (simp add: cursor_of_def before_cursor_def)
  next
    case (Suc j)
    with Suc.prems(3) have "j < length ns" by simp
    moreover from this have s: "cursor_safe (e_lib E) (ns ! j)" "canon (n_id (ns ! j)) = Some (n_id (ns ! j))"
      using safe by simp_all
    moreover have "cursor_of (e_lib E) cur = Some (n_created_at (ns ! j), n_id (ns ! j))"
      using Suc Suc.prems(4) cursor_of_note [OF b64 s(1)] by simp
    then have "before_cursor canon (cursor_of (e_lib E) cur) = (\<lambda>n. note_key n < note_key (ns ! j))"
      using s(2) by (simp add: fun_eq_iff before_cursor_def note_key_def)
    ultimately show ?thesis using filter_below [OF desc] Suc by simp
  qed
  obtain w' where r: "run (list_notes E A auth \<lparr>pp_cursor = cur, pp_per_page = per\<rparr>) w =
      (Inr (200, page_of (e_lib E) ?u ?lim (map note_head (take (Suc ?l) (drop k ns)))), w')"
    and w': "pg_of (db w') = pg_of (db w)"
    using list_notes_run [OF E A ans, of cur per w] Suc.prems(1) f l(2) by metis
  let ?page = "page_of (e_lib E) ?u ?lim (map note_head (take (Suc ?l) (drop k ns)))"
  have items: "pn_items ?page = map (shown_note ?u) (take ?l (drop k ns))"
    by (simp add: page_of_def Let_def take_map shown_note_def comp_def min_def)
  show ?case
  proof (cases "k + ?l < length ns")
    case True
    let ?k = "k + ?l"
    have last: "last (pn_items ?page) = shown_note ?u (ns ! (?k - 1))"
      using True l(1) unfolding items by (simp add: last_map last_conv_nth)
    have ne: "pn_items ?page \<noteq> []" using True l(1) unfolding items by simp
    have "pn_next_cursor ?page = Some (encode_cursor (e_lib E) (n_created_at (last (pn_items ?page))) (n_id (last (pn_items ?page))))"
      using True ne by (simp add: page_of_def Let_def)
    then have c: "pn_next_cursor ?page =
        Some (encode_cursor (e_lib E) (n_created_at (ns ! (?k - 1))) (n_id (ns ! (?k - 1))))"
      unfolding last by (simp add: shown_note_def listed_note_def note_head_def)
    have "walk E A auth per fuel (pn_next_cursor ?page) w' = Some (map (shown_note ?u) (drop ?k ns))"
      using Suc.prems True l(1,3) c w' by (intro Suc.IH) simp_all
    then show ?thesis
      using r c items by (simp add: map_append [symmetric] add.commute [of k] drop_drop [symmetric] del: map_append drop_drop)
  next
    case False
    then have "length ns - k \<le> ?l" by simp
    then have "pn_next_cursor ?page = None" by (simp add: page_of_def Let_def not_less)
    moreover have "take ?l (drop k ns) = drop k ns" using False by simp
    ultimately show ?thesis using r items by simp
  qed
qed simp

end

lemma notes_of_set: "set (notes_of canon i p) \<subseteq> set (note_rows p)"
  by (auto simp: notes_of_def newest_first_def)

text \<open>
  C17. A client that follows the cursor from the first page, with any page size, sees every
  note of the user exactly once, newest first, and is done after at most one request per note and one
  more, provided the database answers and the notes stay as they are.
\<close>

theorem pagination_complete:
  assumes "postgres_service (e_db E) pg_of canon" and "hs_db (as_health A) = Connected"
    and "lists_answered (e_db E) (au_user_id auth)" and "base64_ok (e_lib E)"
    and "pg_ok canon (pg_of (db w))" and "\<forall>n \<in> set (note_rows (pg_of (db w))). cursor_safe (e_lib E) n"
  shows "walk E A auth per (Suc (length (notes_of canon (au_user_id auth) (pg_of (db w))))) None w =
    Some (map (shown_note (au_user_id auth)) (notes_of canon (au_user_id auth) (pg_of (db w))))"
proof -
  let ?ns = "notes_of canon (au_user_id auth) (pg_of (db w))"
  have safe: "cursor_safe (e_lib E) n \<and> canon (n_id n) = Some (n_id n)" if "n \<in> set ?ns" for n
    using that notes_of_set assms(5,6) by (fastforce simp: pg_ok_def)
  have "distinct (map n_id (filter Q (note_rows (pg_of (db w)))))" for Q
    using assms(5) by (simp add: pg_ok_def distinct_map_filter)
  then have "sorted_wrt (\<lambda>x y. note_key y < note_key x) ?ns"
    unfolding notes_of_def by (rule newest_first_desc)
  note desc = this
  have "walk E A auth per (Suc (length ?ns)) None w = Some (map (shown_note (au_user_id auth)) (drop 0 ?ns))"
    by (rule postgres_service.walk_from [OF assms(1) refl assms(2,3,4) safe desc refl]) (simp_all del: walk.simps)
  then show ?thesis by (simp del: walk.simps)
qed

definition two_notes :: "(rdb, pg, osstate) world" where
  "two_notes = ref_world empty_rdb \<lparr>users = [ann_row],
     note_rows = [\<lparr>n_id = ''n1'', n_user_id = u_id ann_row, n_title = ''a'', n_body = ''x'', n_created_at = 5, n_updated_at = 5\<rparr>,
       \<lparr>n_id = ''n2'', n_user_id = u_id ann_row, n_title = ''b'', n_body = ''y'', n_created_at = 7, n_updated_at = 7\<rparr>]\<rparr>"

definition demo_app :: app_state where
  "demo_app = \<lparr>as_health = \<lparr>hs_db = Connected, hs_redis = True, hs_sidecar = sidecar_from_env Map.empty,
      hs_flags = \<lparr>maintenance_mode = False\<rparr>\<rparr>,
     as_ws = \<lparr>ws_idle_timeout = 300, ws_per_user_max = 10\<rparr>,
     as_auth = Some (auth_service_new (demo_config BothMode)), as_storage = None, as_allowed_origin = None\<rparr>"

definition user_ann :: auth_user where
  "user_ann = \<lparr>au_user_id = u_id ann_row, au_email = ''a@x'', au_name = None, au_provider = ''local'',
     au_jti = ''j'', au_session_id = None\<rparr>"

theorem pagination_complete_witness:
  "map_option (map n_id) (walk (ref_env 0 Map.empty) demo_app user_ann 1 3 None two_notes) = Some [''n2'', ''n1'']"
proof -
  let ?E = "ref_env 0 Map.empty"
  have 1: "postgres_service (e_db ?E) (\<lambda>p. p) Some" by (simp add: ref_db.postgres_service_axioms)
  have 2: "hs_db (as_health demo_app) = Connected" by (simp add: demo_app_def)
  have 3: "lists_answered (e_db ?E) (au_user_id user_ann)" by (simp add: lists_answered_def ref_db_def)
  have 4: "base64_ok (e_lib ?E)" by (simp add: base64_ok_def ref_sel)
  have 5: "pg_ok Some (db two_notes)" by (simp add: pg_ok_def two_notes_def ref_world_sel)
  have 6: "\<forall>n \<in> set (note_rows (db two_notes)). cursor_safe (e_lib ?E) n"
    by (simp add: two_notes_def ref_world_sel cursor_safe_def ref_sel ascii_def byte_def)
  have n: "notes_of Some (au_user_id user_ann) (db two_notes) = rev (note_rows (db two_notes))"
    by (simp add: notes_of_def newest_first_def two_notes_def ref_world_sel user_ann_def note_key_def)
  have "length (note_rows (db two_notes)) = 2" by (simp add: two_notes_def ref_world_sel)
  then have "walk ?E demo_app user_ann 1 3 None two_notes =
      Some (map (shown_note (au_user_id user_ann)) (rev (note_rows (db two_notes))))"
    using pagination_complete [OF 1 2 3 4 5 6, of 1] by (simp add: n eval_nat_numeral)
  then show ?thesis
    by (simp add: two_notes_def ref_world_sel shown_note_def listed_note_def note_head_def)
qed

theorem cursor_round_trip_witness:
  "decode_cursor ref_lib (encode_cursor ref_lib 1767261600123456 ''550e8400'') = Some (1767261600123456, ''550e8400'')"
proof (rule cursor_round_trip)
  show "base64_ok ref_lib" by (simp add: base64_ok_def ref_sel)
  show "ascii ''550e8400''" by (simp add: ascii_def byte_def)
qed simp_all

section \<open>The routes of the notes\<close>

datatype note_call = ListNotes pagination_params | CreateNote note_input | GetNote string
  | UpdateNote string note_input | DeleteNote string

text \<open>Which handler a call reaches; the answer as its status and the notes it shows.\<close>

definition map_ok :: "('a \<Rightarrow> 'b) \<Rightarrow> ('w, 'e + 'a) prog \<Rightarrow> ('w, 'e + 'b) prog" where
  "map_ok f p = map_result (map_sum id f) p"

definition serve_note ::
  "('r, 'd, 'o) env \<Rightarrow> app_state \<Rightarrow> auth_user \<Rightarrow> note_call \<Rightarrow> ('r, 'd, 'o, nat \<times> note_row list) handler" where
  "serve_note E A auth call = (case call of
       ListNotes params \<Rightarrow> map_ok (\<lambda>(st, p). (st, pn_items p)) (list_notes E A auth params)
     | CreateNote input \<Rightarrow> map_ok (\<lambda>(st, n). (st, [n])) (create_note E A auth input)
     | GetNote i \<Rightarrow> map_ok (\<lambda>(st, n). (st, [n])) (get_note E A auth i)
     | UpdateNote i input \<Rightarrow> map_ok (\<lambda>(st, n). (st, [n])) (update_note E A auth i input)
     | DeleteNote i \<Rightarrow> map_ok (\<lambda>st. (st, [])) (delete_note E A auth i))"

lemma map_sum_Inr [simp]: "map_sum f g r = Inr y \<longleftrightarrow> (\<exists>x. r = Inr x \<and> y = g x)"
  by (cases r) auto

lemma run_map_ok: "run (map_ok f p) w = (case run p w of (r, w') \<Rightarrow> (map_sum id f r, w'))"
  by (simp add: map_ok_def run_map_result)

text \<open>
  What one statement on behalf of a user may do to the tables, and what it may show: the tables stay the
  same but for the user's own notes, and what is shown is the user's.
\<close>

definition own_note :: "canon \<Rightarrow> string \<Rightarrow> note_row \<Rightarrow> bool" where
  "own_note canon uid n \<longleftrightarrow> Some (n_user_id n) = canon uid"

definition touches_own :: "canon \<Rightarrow> string \<Rightarrow> pg \<Rightarrow> pg \<Rightarrow> bool" where
  "touches_own canon uid p p' \<longleftrightarrow> users p' = users p \<and>
     filter (\<lambda>n. \<not> own_note canon uid n) (note_rows p') = filter (\<lambda>n. \<not> own_note canon uid n) (note_rows p)"

definition shows_own :: "canon \<Rightarrow> string \<Rightarrow> pg \<Rightarrow> note_row list \<Rightarrow> bool" where
  "shows_own canon uid p ns \<longleftrightarrow>
     (\<forall>n \<in> set ns. \<exists>m \<in> set (note_rows p). own_note canon uid m \<and> n_id m = n_id n \<and> n_title m = n_title n)"

lemma touches_own_refl [simp]: "touches_own canon uid p p"
  by (simp add: touches_own_def)

lemma spec_touches_own:
  "notes_spec canon uid cur lim p y p' \<Longrightarrow> touches_own canon uid p p'"
  "note_spec canon i uid p y1 p' \<Longrightarrow> touches_own canon uid p p'"
  "insert_note_spec canon uid t b p y2 p' \<Longrightarrow> touches_own canon uid p p'"
  "update_note_spec canon t b i uid p y1 p' \<Longrightarrow> touches_own canon uid p p'"
  "delete_note_spec canon i uid p y3 p' \<Longrightarrow> touches_own canon uid p p'"
proof -
  show "notes_spec canon uid cur lim p y p' \<Longrightarrow> touches_own canon uid p p'" by (simp add: notes_spec_def)
  show "note_spec canon i uid p y1 p' \<Longrightarrow> touches_own canon uid p p'" by (simp add: note_spec_def)
  show "insert_note_spec canon uid t b p y2 p' \<Longrightarrow> touches_own canon uid p p'"
    by (auto simp: insert_note_spec_def touches_own_def own_note_def)
  show "delete_note_spec canon i uid p y3 p' \<Longrightarrow> touches_own canon uid p p'"
    by (auto simp: delete_note_spec_def touches_own_def own_note_def owned_def intro!: filter_cong)
  assume u: "update_note_spec canon t b i uid p y1 p'"
  then obtain now where "p' = p\<lparr>note_rows := map (\<lambda>n. if owned canon i uid n
      then n\<lparr>n_title := t, n_body := b, n_updated_at := now\<rparr> else n) (note_rows p)\<rparr>"
    by (auto simp: update_note_spec_def Let_def)
  moreover have "filter (\<lambda>n. \<not> own_note canon uid n) (map (\<lambda>n. if owned canon i uid n
      then n\<lparr>n_title := t, n_body := b, n_updated_at := now\<rparr> else n) ns) = filter (\<lambda>n. \<not> own_note canon uid n) ns" for ns
    by (induction ns) (auto simp: own_note_def owned_def)
  ultimately show "touches_own canon uid p p'" by (simp add: touches_own_def)
qed

lemma touches_own_trans: "transp (touches_own canon uid)"
  by (simp add: transp_def touches_own_def)

lemma touches_own_reflp: "reflp (touches_own canon uid)"
  by (simp add: reflp_def)

context postgres_service
begin

lemma serve_note_touches:
  assumes "e_db E = D"
  shows "changes pg_of (touches_own canon (au_user_id auth)) (serve_note E A auth call)"
proof -
  let ?u = "au_user_id auth"
  note db = changes_db_act [OF assms _ touches_own_reflp]
  have "changes pg_of (touches_own canon ?u) (db_act E (\<lambda>D. q_notes D ?u cur lim))" for cur lim
    by (rule db, rule notes_page, erule spec_touches_own)
  moreover have "changes pg_of (touches_own canon ?u) (db_act E (\<lambda>D. q_note D i ?u))" for i
    by (rule db, rule note_by_id, erule spec_touches_own)
  moreover have "changes pg_of (touches_own canon ?u) (db_act E (\<lambda>D. q_insert_note D ?u t b))" for t b
    by (rule db, rule insert_note, erule spec_touches_own)
  moreover have "changes pg_of (touches_own canon ?u) (db_act E (\<lambda>D. q_update_note D t b i ?u))" for t b i
    by (rule db, rule update_note, erule spec_touches_own)
  moreover have "changes pg_of (touches_own canon ?u) (db_act E (\<lambda>D. q_delete_note D i ?u))" for i
    by (rule db, rule delete_note, erule spec_touches_own)
  ultimately show ?thesis
    unfolding serve_note_def map_ok_def list_notes_def create_note_def get_note_def update_note_def
      delete_note_def Let_def
    by (cases call; simp only: note_call.case; intro changing; blast)
qed

lemma serve_note_shows:
  assumes "e_db E = D" and "run (serve_note E A auth call) w = (Inr (st, ns), w')"
  shows "shows_own canon (au_user_id auth) (pg_of (db w')) ns"
proof (cases call)
  case (ListNotes params)
  obtain p where l: "run (list_notes E A auth params) w = (Inr (st, p), w')" and ns: "ns = pn_items p"
    using assms(2) ListNotes by (auto simp: serve_note_def run_map_ok split: prod.splits)
  let ?lim = "clamp (pp_per_page params) 1 100"
  obtain rows where q: "run (db_act E (\<lambda>D. q_notes D (au_user_id auth) (cursor_of (e_lib E) (pp_cursor params)) (?lim + 1))) w = (Inr rows, w')"
    and p: "p = page_of (e_lib E) (au_user_id auth) ?lim rows"
    using l by (auto simp: list_notes_def Let_def elim!: attempt_InrE)
  from db_act_Inr [OF assms(1) notes_page q]
  have rows: "rows = map note_head (take (nat (?lim + 1)) (filter (before_cursor canon (cursor_of (e_lib E) (pp_cursor params)))
      (notes_of canon (au_user_id auth) (pg_of (db w)))))" and same: "pg_of (db w') = pg_of (db w)"
    by (simp_all add: notes_spec_def)
  show ?thesis
    unfolding shows_own_def
  proof
    fix n assume "n \<in> set ns"
    then obtain r where "r \<in> set rows" and n: "n = listed_note (au_user_id auth) r"
      unfolding ns p by (auto simp: page_of_def Let_def dest: in_set_takeD)
    then obtain m where m: "m \<in> set (notes_of canon (au_user_id auth) (pg_of (db w)))" "r = note_head m"
      unfolding rows by (auto dest!: in_set_takeD)
    then have "m \<in> set (note_rows (pg_of (db w)))" "own_note canon (au_user_id auth) m"
      by (auto simp: notes_of_def newest_first_def own_note_def)
    then show "\<exists>m \<in> set (note_rows (pg_of (db w'))). own_note canon (au_user_id auth) m \<and> n_id m = n_id n \<and> n_title m = n_title n"
      unfolding same by (intro bexI [of _ m]) (simp_all add: n m(2) note_head_def listed_note_def)
  qed
next
  case (CreateNote input)
  then obtain y where ns: "ns = [y]"
    and "run (db_act E (\<lambda>D. q_insert_note D (au_user_id auth) (in_title input) (in_body input))) w = (Inr y, w')"
    using assms(2) by (auto simp: serve_note_def run_map_ok create_note_def split: prod.splits sum.splits
      elim!: attempt_InrE)
  from db_act_Inr [OF assms(1) insert_note this(2)] show ?thesis
    by (auto simp: ns shows_own_def insert_note_spec_def own_note_def)
next
  case (GetNote i)
  then obtain y where ns: "ns = [y]" and "run (db_act E (\<lambda>D. q_note D i (au_user_id auth))) w = (Inr (Some y), w')"
    using assms(2) by (auto simp: serve_note_def run_map_ok get_note_def ok_or_def split: prod.splits sum.splits option.splits
      elim!: attempt_InrE)
  from db_act_Inr [OF assms(1) note_by_id this(2)]
  have same: "pg_of (db w') = pg_of (db w)"
    and "find (owned canon i (au_user_id auth)) (note_rows (pg_of (db w))) = Some y"
    by (simp_all add: note_spec_def)
  then have "y \<in> set (note_rows (pg_of (db w)))" "owned canon i (au_user_id auth) y" by (auto simp: find_Some_iff)
  then show ?thesis unfolding shows_own_def ns same by (auto simp: own_note_def owned_def)
next
  case (UpdateNote i input)
  then obtain y where ns: "ns = [y]"
    and "run (db_act E (\<lambda>D. q_update_note D (in_title input) (in_body input) i (au_user_id auth))) w = (Inr (Some y), w')"
    using assms(2) by (auto simp: serve_note_def run_map_ok update_note_def ok_or_def split: prod.splits sum.splits option.splits
      elim!: attempt_InrE)
  from db_act_Inr [OF assms(1) update_note this(2)]
  obtain now where "Some y = map_option (\<lambda>n. n\<lparr>n_title := in_title input, n_body := in_body input, n_updated_at := now\<rparr>)
      (find (owned canon i (au_user_id auth)) (note_rows (pg_of (db w))))"
    and rows: "note_rows (pg_of (db w')) = map (\<lambda>n. if owned canon i (au_user_id auth) n
      then n\<lparr>n_title := in_title input, n_body := in_body input, n_updated_at := now\<rparr> else n) (note_rows (pg_of (db w)))"
    unfolding update_note_spec_def Let_def by auto
  from this(1) obtain n where f: "find (owned canon i (au_user_id auth)) (note_rows (pg_of (db w))) = Some n"
    and y: "y = n\<lparr>n_title := in_title input, n_body := in_body input, n_updated_at := now\<rparr>"
    by (metis (no_types, lifting) map_option_eq_Some)
  have "n \<in> set (note_rows (pg_of (db w)))" and o: "owned canon i (au_user_id auth) n"
    using f by (auto simp: find_Some_iff)
  then have "y \<in> set (note_rows (pg_of (db w')))" unfolding rows y by (auto intro!: image_eqI [of _ _ n])
  moreover have "own_note canon (au_user_id auth) y" using o by (simp add: y own_note_def owned_def)
  ultimately show ?thesis by (auto simp: ns shows_own_def)
next
  case (DeleteNote i)
  then have "ns = []" using assms(2)
    by (auto simp: serve_note_def run_map_ok split: prod.splits)
  then show ?thesis by (simp add: shows_own_def)
qed

end

text \<open>
  C21. Whatever a user asks of the notes API and however it ends, the accounts and the notes of
  every other user stay as they were, and every note it shows is one of the user's own.
\<close>

theorem notes_isolated:
  assumes "postgres_service (e_db E) pg_of canon" and "run (serve_note E A auth call) w = (r, w')"
  shows "touches_own canon (au_user_id auth) (pg_of (db w)) (pg_of (db w')) \<and>
    (case r of Inl _ \<Rightarrow> True | Inr (st, ns) \<Rightarrow> shows_own canon (au_user_id auth) (pg_of (db w')) ns)"
proof
  show "touches_own canon (au_user_id auth) (pg_of (db w)) (pg_of (db w'))"
    using postgres_service.serve_note_touches [OF assms(1) refl] touches_own_reflp touches_own_trans assms(2)
    by (rule changes_run)
  show "case r of Inl _ \<Rightarrow> True | Inr (st, ns) \<Rightarrow> shows_own canon (au_user_id auth) (pg_of (db w')) ns"
    using postgres_service.serve_note_shows [OF assms(1) refl] assms(2) by (auto split: sum.split)
qed

theorem notes_isolated_witness:
  "\<exists>r w'. run (serve_note (ref_env 0 Map.empty) demo_app (user_ann\<lparr>au_user_id := ''eve''\<rparr>) (DeleteNote ''n1'')) two_notes = (r, w')
     \<and> note_rows (db w') = note_rows (db two_notes)"
proof -
  obtain r w' where r: "run (serve_note (ref_env 0 Map.empty) demo_app (user_ann\<lparr>au_user_id := ''eve''\<rparr>) (DeleteNote ''n1'')) two_notes = (r, w')"
    by (cases "run (serve_note (ref_env 0 Map.empty) demo_app (user_ann\<lparr>au_user_id := ''eve''\<rparr>) (DeleteNote ''n1'')) two_notes")
  have "postgres_service (e_db (ref_env 0 Map.empty)) (\<lambda>p. p) Some" by (simp add: ref_db.postgres_service_axioms)
  from notes_isolated [OF this r]
  have "filter (\<lambda>n. n_user_id n \<noteq> ''eve'') (note_rows (db w')) = note_rows (db two_notes)"
    by (simp add: touches_own_def own_note_def two_notes_def ref_world_sel ann_row_def)
  moreover have "note_rows (db w') = note_rows (db two_notes)"
    using r by (auto simp: serve_note_def run_map_ok delete_note_def check_note_id_def db_pool_def demo_app_def ref_sel
        run_simps ref_db_def owned_def two_notes_def ref_world_sel ann_row_def split: prod.splits)
  ultimately show ?thesis using r by blast
qed

end
