(* ===== verification/Note_Store.thy ===== *)
theory Note_Store
  imports Notes
begin

text \<open>
  What the notes API promises, without tables, cursors and statements: every user has a notebook, a map
  from identifiers to titles and bodies, and each call does one thing to the caller's. The handlers
  refine this specification through the abstraction \<open>shelf_of\<close> of the tables.
\<close>

section \<open>The specification\<close>

text \<open>The notebooks of all users: owner, identifier, title and body.\<close>

type_synonym shelf = "string \<Rightarrow> string \<Rightarrow> (string \<times> string) option"

definition file_note :: "string \<Rightarrow> string \<Rightarrow> (string \<times> string) option \<Rightarrow> shelf \<Rightarrow> shelf" where
  "file_note u i tb s = s(u := (s u)(i := tb))"

text \<open>One call of the user \<open>u\<close> that is answered with a status and the notes it shows.\<close>

fun shelf_step :: "canon \<Rightarrow> string \<Rightarrow> note_call \<Rightarrow> shelf \<Rightarrow> nat \<times> note_row list \<Rightarrow> shelf \<Rightarrow> bool" where
  "shelf_step canon u (ListNotes params) s (st, ns) s' \<longleftrightarrow> s' = s \<and> st = 200 \<and>
     length ns \<le> nat (clamp (pp_per_page params) 1 100) \<and> distinct (map n_id ns) \<and>
     (\<forall>n \<in> set ns. \<exists>b. s u (n_id n) = Some (n_title n, b))"
| "shelf_step canon u (CreateNote input) s (st, ns) s' \<longleftrightarrow> (\<exists>n. st = 201 \<and> ns = [n] \<and>
     n_title n = in_title input \<and> n_body n = in_body input \<and> s u (n_id n) = None \<and>
     s' = file_note u (n_id n) (Some (in_title input, in_body input)) s)"
| "shelf_step canon u (GetNote i) s (st, ns) s' \<longleftrightarrow> (\<exists>n. st = 200 \<and> ns = [n] \<and>
     canon i = Some (n_id n) \<and> s u (n_id n) = Some (n_title n, n_body n) \<and> s' = s)"
| "shelf_step canon u (UpdateNote i input) s (st, ns) s' \<longleftrightarrow> (\<exists>n. st = 200 \<and> ns = [n] \<and>
     canon i = Some (n_id n) \<and> n_title n = in_title input \<and> n_body n = in_body input \<and> s u (n_id n) \<noteq> None \<and>
     s' = file_note u (n_id n) (Some (in_title input, in_body input)) s)"
| "shelf_step canon u (DeleteNote i) s (st, ns) s' \<longleftrightarrow> (\<exists>c. st = 204 \<and> ns = [] \<and>
     canon i = Some c \<and> s u c \<noteq> None \<and> s' = file_note u c None s)"

text \<open>The note a call names is not in the caller's notebook.\<close>

fun missing :: "canon \<Rightarrow> string \<Rightarrow> note_call \<Rightarrow> shelf \<Rightarrow> bool" where
  "missing canon u (GetNote i) s \<longleftrightarrow> Option.bind (canon i) (s u) = None"
| "missing canon u (UpdateNote i input) s \<longleftrightarrow> Option.bind (canon i) (s u) = None"
| "missing canon u (DeleteNote i) s \<longleftrightarrow> Option.bind (canon i) (s u) = None"
| "missing canon u _ s \<longleftrightarrow> False"

text \<open>
  How a call may end: done as specified; refused for a missing note; failed inside, in which case it was
  done or not; refused before it did anything.
\<close>

definition shelf_outcome ::
  "canon \<Rightarrow> string \<Rightarrow> note_call \<Rightarrow> shelf \<Rightarrow> api_error + nat \<times> note_row list \<Rightarrow> shelf \<Rightarrow> bool" where
  "shelf_outcome canon u call s r s' \<longleftrightarrow> (case r of
       Inr ans \<Rightarrow> shelf_step canon u call s ans s'
     | Inl (NotFound _) \<Rightarrow> s' = s \<and> missing canon u call s
     | Inl (InternalError _) \<Rightarrow> s' = s \<or> (\<exists>ans. shelf_step canon u call s ans s')
     | Inl _ \<Rightarrow> s' = s)"

section \<open>The abstraction\<close>

definition shelf_of :: "pg \<Rightarrow> shelf" where
  "shelf_of p u i = map_option (\<lambda>n. (n_title n, n_body n)) (find (\<lambda>n. n_user_id n = u \<and> n_id n = i) (note_rows p))"

lemma find_map: "find P (map f xs) = map_option f (find (\<lambda>x. P (f x)) xs)"
  by (induction xs) simp_all

lemma find_filter: "find P (filter Q xs) = find (\<lambda>x. Q x \<and> P x) xs"
  by (induction xs) simp_all

lemma find_holds: "find P xs = Some x \<Longrightarrow> P x"
  by (auto simp: find_Some_iff)

lemma find_append: "find P (xs @ ys) = (case find P xs of Some x \<Rightarrow> Some x | None \<Rightarrow> find P ys)"
  by (induction xs) simp_all

lemma find_None: "find P xs = None \<longleftrightarrow> filter P xs = []"
  by (induction xs) simp_all

lemma owned_eq: "canon uid = Some u \<Longrightarrow> canon i = Some c \<Longrightarrow> owned canon i uid = (\<lambda>n. n_user_id n = u \<and> n_id n = c)"
  by (auto simp: owned_def fun_eq_iff)

lemma find_owned:
  "canon uid = Some u \<Longrightarrow> canon i = Some c \<Longrightarrow>
    map_option (\<lambda>n. (n_title n, n_body n)) (find (owned canon i uid) (note_rows p)) = shelf_of p u c"
  by (simp add: owned_eq shelf_of_def)

lemma shelf_insert:
  assumes user: "canon uid = Some u" and "insert_note_spec canon uid t b p y p'"
  shows "shelf_of p u (n_id y) = None" and "shelf_of p' = file_note u (n_id y) (Some (t, b)) (shelf_of p)"
proof -
  have y: "n_user_id y = u" "n_title y = t" "n_body y = b" "n_id y \<notin> n_id ` set (note_rows p)"
    and p': "p' = p\<lparr>note_rows := note_rows p @ [y]\<rparr>"
    using assms user by (auto simp: insert_note_spec_def)
  show none: "shelf_of p u (n_id y) = None"
    using y(4) by (auto simp: shelf_of_def find_None_iff image_iff)
  show "shelf_of p' = file_note u (n_id y) (Some (t, b)) (shelf_of p)"
    using y none unfolding p' by (auto simp: shelf_of_def file_note_def find_append fun_eq_iff split: option.split)
qed

lemma shelf_update:
  assumes user: "canon uid = Some u" and "update_note_spec canon t b i uid p y p'"
  shows "(\<exists>n. y = Some n \<and> canon i = Some (n_id n) \<and> n_title n = t \<and> n_body n = b \<and> shelf_of p u (n_id n) \<noteq> None \<and>
            shelf_of p' = file_note u (n_id n) (Some (t, b)) (shelf_of p)) \<or>
         y = None \<and> Option.bind (canon i) (shelf_of p u) = None \<and> shelf_of p' = shelf_of p"
proof -
  obtain c where c: "canon i = Some c" using assms(2) by (auto simp: update_note_spec_def)
  obtain now where y: "y = map_option (\<lambda>n. n\<lparr>n_title := t, n_body := b, n_updated_at := now\<rparr>) (find (owned canon i uid) (note_rows p))"
    and p': "p' = p\<lparr>note_rows := map (\<lambda>n. if owned canon i uid n
      then n\<lparr>n_title := t, n_body := b, n_updated_at := now\<rparr> else n) (note_rows p)\<rparr>"
    using assms by (auto simp: update_note_spec_def Let_def)
  let ?f = "\<lambda>n. if owned canon i uid n then n\<lparr>n_title := t, n_body := b, n_updated_at := now\<rparr> else n"
  have s: "shelf_of p' u' i' = (if u' = u \<and> i' = c then map_option (\<lambda>_. (t, b)) (shelf_of p u' i') else shelf_of p u' i')" for u' i'
  proof -
    let ?P = "\<lambda>n. n_user_id n = u' \<and> n_id n = i'"
    have rows: "note_rows p' = map ?f (note_rows p)" by (simp add: p')
    have same: "?P (?f n) \<longleftrightarrow> ?P n" for n by simp
    have "shelf_of p' u' i' = map_option (\<lambda>n. (n_title n, n_body n)) (map_option ?f (find ?P (note_rows p)))"
      unfolding shelf_of_def rows by (simp only: find_map same)
    then show ?thesis
      by (cases "find ?P (note_rows p)") (auto simp: shelf_of_def owned_eq [OF user c] dest: find_holds)
  qed
  show ?thesis
  proof (cases "find (owned canon i uid) (note_rows p)")
    case None
    with find_owned [OF user c, of p] have "shelf_of p u c = None" by simp
    with s None y c show ?thesis by (auto simp: fun_eq_iff)
  next
    case (Some n)
    with find_owned [OF user c, of p] have n: "shelf_of p u c \<noteq> None" by (metis option.map_disc_iff option.distinct(1))
    moreover have "n_id n = c" using Some by (auto simp: owned_eq [OF user c] find_Some_iff)
    moreover have "shelf_of p' = file_note u c (Some (t, b)) (shelf_of p)"
      using s n by (auto simp: fun_eq_iff file_note_def)
    ultimately show ?thesis using y Some c by simp
  qed
qed

lemma shelf_delete:
  assumes user: "canon uid = Some u" and "delete_note_spec canon i uid p y p'"
  obtains c where "canon i = Some c" and "shelf_of p' = file_note u c None (shelf_of p)"
    and "0 < y \<and> shelf_of p u c \<noteq> None \<or> y = 0 \<and> shelf_of p u c = None \<and> shelf_of p' = shelf_of p"
proof -
  obtain c where c: "canon i = Some c" using assms by (auto simp: delete_note_spec_def)
  have y: "y = length (filter (owned canon i uid) (note_rows p))"
    and p': "p' = p\<lparr>note_rows := filter (\<lambda>n. \<not> owned canon i uid n) (note_rows p)\<rparr>"
    using assms by (auto simp: delete_note_spec_def)
  have "shelf_of p' = file_note u c None (shelf_of p)"
  proof (intro ext)
    fix u' i'
    have "(\<lambda>n. \<not> owned canon i uid n \<and> n_user_id n = u' \<and> n_id n = i') =
        (if u' = u \<and> i' = c then (\<lambda>_. False) else (\<lambda>n. n_user_id n = u' \<and> n_id n = i'))"
      by (auto simp: owned_eq [OF user c])
    then show "shelf_of p' u' i' = file_note u c None (shelf_of p) u' i'"
      unfolding p' shelf_of_def file_note_def by (auto simp: find_filter find_None)
  qed
  moreover have "0 < y \<longleftrightarrow> shelf_of p u c \<noteq> None"
    unfolding y shelf_of_def owned_eq [OF user c] by (simp add: find_None)
  moreover have "shelf_of p u c = None \<Longrightarrow> file_note u c None (shelf_of p) = shelf_of p"
    by (simp add: file_note_def fun_eq_iff)
  ultimately show thesis using that [OF c] by (cases "shelf_of p u c"; simp)
qed

lemma shelf_get:
  assumes user: "canon uid = Some u" and "note_spec canon i uid p y p'"
  shows "p' = p" and "y = Some n \<Longrightarrow> canon i = Some (n_id n) \<and> shelf_of p u (n_id n) = Some (n_title n, n_body n)"
    and "y = None \<Longrightarrow> Option.bind (canon i) (shelf_of p u) = None"
proof -
  obtain c where c: "canon i = Some c" and y: "y = find (owned canon i uid) (note_rows p)" and "p' = p"
    using assms by (auto simp: note_spec_def)
  then show "p' = p" by simp
  show "y = Some n \<Longrightarrow> canon i = Some (n_id n) \<and> shelf_of p u (n_id n) = Some (n_title n, n_body n)"
    using y by (auto simp: owned_eq [OF user c] c shelf_of_def find_Some_iff)
  show "y = None \<Longrightarrow> Option.bind (canon i) (shelf_of p u) = None"
    using find_owned [OF user c, of p] y c by simp
qed

lemma find_unique:
  assumes "x \<in> set xs" and "P x" and "\<And>y. y \<in> set xs \<Longrightarrow> P y \<Longrightarrow> y = x"
  shows "find P xs = Some x"
proof (cases "find P xs")
  case None
  then show ?thesis using assms(1,2) by (simp add: find_None_iff)
next
  case (Some y)
  then obtain i where "i < length xs" "P (xs ! i)" "y = xs ! i" by (auto simp: find_Some_iff)
  with assms(3) [of y] Some show ?thesis by simp
qed

lemma shelf_row:
  assumes "distinct (map n_id (note_rows p))" and "n \<in> set (note_rows p)" and "n_user_id n = u"
  shows "shelf_of p u (n_id n) = Some (n_title n, n_body n)"
proof -
  have "find (\<lambda>m. n_user_id m = u \<and> n_id m = n_id n) (note_rows p) = Some n"
    by (rule find_unique) (use assms in \<open>auto simp: distinct_map dest: inj_onD\<close>)
  then show ?thesis by (simp add: shelf_of_def)
qed

lemma shelf_list:
  assumes user: "canon uid = Some u" and "notes_spec canon uid cur lim p y p'" and "distinct (map n_id (note_rows p))"
  shows "p' = p" and "distinct (map fst y)" and "r \<in> set y \<Longrightarrow> \<exists>b. shelf_of p u (fst r) = Some (fst (snd r), b)"
proof -
  let ?ns = "take (nat lim) (filter (before_cursor canon cur) (notes_of canon uid p))"
  have y: "y = map note_head ?ns" and "p' = p" using assms(2) by (auto simp: notes_spec_def)
  then show "p' = p" by simp
  have sub: "n \<in> set (note_rows p) \<and> n_user_id n = u" if "n \<in> set ?ns" for n
    using in_set_takeD [OF that] user by (auto simp: notes_of_def newest_first_def)
  have "distinct (map n_id (sort_key note_key (filter (\<lambda>n. Some (n_user_id n) = canon uid) (note_rows p))))"
    using assms(3) by (simp add: distinct_map distinct_map_filter inj_on_def)
  then have "distinct (map n_id (notes_of canon uid p))"
    by (simp add: notes_of_def newest_first_def rev_map [symmetric])
  then have "distinct (map n_id ?ns)"
    by (simp add: distinct_map_filter take_map [symmetric] distinct_take)
  moreover have "map fst y = map n_id ?ns" by (simp add: y note_head_def)
  ultimately show "distinct (map fst y)" by simp
  assume "r \<in> set y"
  then obtain n where "n \<in> set ?ns" and "r = note_head n" by (auto simp: y)
  with sub [of n] shelf_row [OF assms(3), of n u] show "\<exists>b. shelf_of p u (fst r) = Some (fst (snd r), b)"
    by (simp add: note_head_def)
qed

section \<open>The handlers\<close>

context postgres_service
begin

text \<open>A statement, however it ends.\<close>

lemma db_act_ends:
  assumes "e_db E = D" and "runs_as pg_of sp (q D)" and "run (db_act E q) w = (x, w')"
  shows "case x of Inr y \<Rightarrow> sp (pg_of (db w)) y (pg_of (db w'))
    | Inl e \<Rightarrow> pg_of (db w') = pg_of (db w) \<or> (\<exists>y. sp (pg_of (db w)) y (pg_of (db w')))"
proof -
  obtain d where "q D (db w) = (x, d)" and "db w' = d"
    using assms(1,3) by (cases "q D (db w)") (auto simp: run_db_act)
  with assms(2) show ?thesis unfolding runs_as_def by (auto dest!: spec [of _ "db w"] split: sum.splits)
qed

text \<open>
  The shape of every handler of the notes: checks that do not touch the world, then one statement, whose
  answer decides.
\<close>

lemma outcome_of_statement:
  assumes "run (attempt (lift_err (db_err msg) (db_act E q)) (\<lambda>y. Ret (h y))) w = (r, w')"
    and "e_db E = D" and "runs_as pg_of sp (q D)"
    and "\<And>p y p'. pg_ok canon p \<Longrightarrow> sp p y p' \<Longrightarrow> shelf_outcome canon u call (shelf_of p) (g (h y)) (shelf_of p')"
    and "\<And>e. g (Inl e) = Inl e" and "\<And>y e. h y = Inl e \<Longrightarrow> \<exists>m. e = NotFound m" and "\<And>a. \<exists>b. g (Inr a) = Inr b"
    and "pg_ok canon (pg_of (db w))"
  shows "shelf_outcome canon u call (shelf_of (pg_of (db w))) (g r) (shelf_of (pg_of (db w')))"
proof -
  obtain x w1 where x: "run (db_act E q) w = (x, w1)" by (cases "run (db_act E q) w")
  note ends = db_act_ends [OF assms(2,3) x]
  show ?thesis
  proof (cases x)
    case (Inr y)
    with ends assms(1) x have "r = h y" "w' = w1" "sp (pg_of (db w)) y (pg_of (db w'))"
      by (auto simp: run_attempt run_lift_err run_Ret)
    with assms(4,8) show ?thesis by simp
  next
    case (Inl e)
    with assms(1) x have r: "r = Inl (InternalError msg)" "w' = w1"
      by (auto simp: run_attempt run_lift_err run_Ret db_err_def)
    have "shelf_of (pg_of (db w1)) = shelf_of (pg_of (db w)) \<or>
        (\<exists>ans. shelf_step canon u call (shelf_of (pg_of (db w))) ans (shelf_of (pg_of (db w1))))"
    proof -
      have "\<exists>ans. shelf_step canon u call (shelf_of (pg_of (db w))) ans (shelf_of (pg_of (db w1)))"
        if sp: "sp (pg_of (db w)) y (pg_of (db w1))" and n: "shelf_of (pg_of (db w1)) \<noteq> shelf_of (pg_of (db w))" for y
      proof (cases "h y")
        case (Inl e)
        with assms(6) assms(5) assms(4) [OF assms(8) sp] n show ?thesis by (fastforce simp: shelf_outcome_def)
      next
        case (Inr a)
        obtain b where b: "g (Inr a) = Inr b" using assms(7) by blast
        from assms(4) [OF assms(8) sp] have "shelf_step canon u call (shelf_of (pg_of (db w))) b (shelf_of (pg_of (db w1)))"
          by (simp add: Inr b shelf_outcome_def)
        then show ?thesis by blast
      qed
      with ends Inl show ?thesis by auto
    qed
    then show ?thesis by (simp add: r assms(5) shelf_outcome_def)
  qed
qed

text \<open>A check that fails refuses the call.\<close>

lemma outcome_of_check:
  assumes "run (attempt (Ret c) h) w = (r, w')"
    and "\<And>e. c = Inl e \<Longrightarrow> shelf_outcome canon u call (shelf_of (pg_of (db w))) (g (Inl e)) (shelf_of (pg_of (db w)))"
    and "\<And>a. c = Inr a \<Longrightarrow> run (h a) w = (r, w') \<Longrightarrow>
      shelf_outcome canon u call (shelf_of (pg_of (db w))) (g r) (shelf_of (pg_of (db w')))"
  shows "shelf_outcome canon u call (shelf_of (pg_of (db w))) (g r) (shelf_of (pg_of (db w')))"
  using assms by (cases c) (auto simp: run_attempt run_Ret)

lemma refused:
  "db_pool A = Inl e \<Longrightarrow> shelf_outcome canon u call s (map_sum id f (Inl e)) s"
  "validate_note input = Inl e \<Longrightarrow> shelf_outcome canon u call s (map_sum id f (Inl e)) s"
  "check_note_id L i = Inl e \<Longrightarrow> shelf_outcome canon u call s (map_sum id f (Inl e)) s"
  by (auto simp: shelf_outcome_def db_pool_def validate_note_def check_note_id_def split: if_splits db_status.splits)

lemma found_or:
  "attempt (Ret (ok_or e o1)) (\<lambda>n. Ret (Inr (st, n))) = Ret (case o1 of None \<Rightarrow> Inl e | Some n \<Rightarrow> Inr (st, n))"
  by (cases o1) (simp_all add: attempt_def ok_or_def)

lemma pg_ok_ids: "pg_ok canon p \<Longrightarrow> distinct (map n_id (note_rows p))"
  by (simp add: pg_ok_def)

lemma serve_note_refines:
  assumes "e_db E = D" and user: "canon (au_user_id auth) = Some u" and "pg_ok canon (pg_of (db w))"
    and run: "run (serve_note E A auth call) w = (r, w')"
  shows "shelf_outcome canon u call (shelf_of (pg_of (db w))) r (shelf_of (pg_of (db w')))"
proof (cases call)
  case (ListNotes params)
  obtain r0 where r0: "run (list_notes E A auth params) w = (r0, w')" "r = map_sum id (\<lambda>(st, p). (st, pn_items p)) r0"
    using run ListNotes by (auto simp: serve_note_def run_map_ok split: prod.splits)
  let ?lim = "clamp (pp_per_page params) 1 100"
  show ?thesis
    unfolding r0(2) ListNotes
  proof (rule outcome_of_check [where g = "map_sum id (\<lambda>(st, p). (st, pn_items p))", OF r0(1) [unfolded list_notes_def Let_def]], erule refused,
      rule outcome_of_statement [where g = "map_sum id (\<lambda>(st, p). (st, pn_items p))"], assumption, rule assms(1), rule notes_page)
    fix p p' and y :: "(string \<times> string \<times> int \<times> int) list"
    assume "pg_ok canon p" and sp: "notes_spec canon (au_user_id auth) (cursor_of (e_lib E) (pp_cursor params)) (?lim + 1) p y p'"
    note list = shelf_list [where canon = canon and uid = "au_user_id auth", OF user sp pg_ok_ids [OF \<open>pg_ok canon p\<close>]]
    have "distinct (map fst (take (nat ?lim) y))" using list(2) by (simp add: take_map [symmetric])
    then show "shelf_outcome canon u (ListNotes params) (shelf_of p)
        (map_sum id (\<lambda>(st, p). (st, pn_items p)) (Inr (200, page_of (e_lib E) (au_user_id auth) ?lim y))) (shelf_of p')"
      using list(1,3)
      by (auto simp: shelf_outcome_def page_of_def Let_def listed_note_def comp_def case_prod_beta dest!: in_set_takeD)
  qed (use assms(3) in auto)
next
  case (CreateNote input)
  obtain r0 where r0: "run (create_note E A auth input) w = (r0, w')" "r = map_sum id (\<lambda>(st, n). (st, [n])) r0"
    using run CreateNote by (auto simp: serve_note_def run_map_ok split: prod.splits)
  show ?thesis
    unfolding r0(2) CreateNote
    by (rule outcome_of_check [where g = "map_sum id (\<lambda>(st, n). (st, [n]))", OF r0(1) [unfolded create_note_def]], erule refused,
      rule outcome_of_check [where g = "map_sum id (\<lambda>(st, n). (st, [n]))"], assumption, erule refused,
      rule outcome_of_statement [where g = "map_sum id (\<lambda>(st, n). (st, [n]))"], assumption, rule assms(1), rule insert_note)
      (use assms(3) shelf_insert [where canon = canon and uid = "au_user_id auth", OF user] in \<open>auto simp: shelf_outcome_def insert_note_spec_def\<close>)
next
  case (GetNote i)
  obtain r0 where r0: "run (get_note E A auth i) w = (r0, w')" "r = map_sum id (\<lambda>(st, n). (st, [n])) r0"
    using run GetNote by (auto simp: serve_note_def run_map_ok split: prod.splits)
  show ?thesis
    unfolding r0(2) GetNote
    by (rule outcome_of_check [where g = "map_sum id (\<lambda>(st, n). (st, [n]))", OF r0(1) [unfolded get_note_def found_or]], erule refused,
      rule outcome_of_check [where g = "map_sum id (\<lambda>(st, n). (st, [n]))"], assumption, erule refused,
      rule outcome_of_statement [where g = "map_sum id (\<lambda>(st, n). (st, [n]))"], assumption, rule assms(1), rule note_by_id)
      (use assms(3) shelf_get [where canon = canon and uid = "au_user_id auth", OF user] in \<open>auto simp: shelf_outcome_def split: option.splits\<close>)
next
  case (UpdateNote i input)
  obtain r0 where r0: "run (update_note E A auth i input) w = (r0, w')" "r = map_sum id (\<lambda>(st, n). (st, [n])) r0"
    using run UpdateNote by (auto simp: serve_note_def run_map_ok split: prod.splits)
  show ?thesis
    unfolding r0(2) UpdateNote
    by (rule outcome_of_check [where g = "map_sum id (\<lambda>(st, n). (st, [n]))", OF r0(1) [unfolded update_note_def found_or]], erule refused,
      rule outcome_of_check [where g = "map_sum id (\<lambda>(st, n). (st, [n]))"], assumption, erule refused,
      rule outcome_of_check [where g = "map_sum id (\<lambda>(st, n). (st, [n]))"], assumption, erule refused,
      rule outcome_of_statement [where g = "map_sum id (\<lambda>(st, n). (st, [n]))"], assumption, rule assms(1), rule update_note)
      (use assms(3) in \<open>auto simp: shelf_outcome_def split: option.splits dest!: shelf_update [where canon = canon and uid = "au_user_id auth", OF user]\<close>)
next
  case (DeleteNote i)
  obtain r0 where r0: "run (delete_note E A auth i) w = (r0, w')" "r = map_sum id (\<lambda>st. (st, [])) r0"
    using run DeleteNote by (auto simp: serve_note_def run_map_ok split: prod.splits)
  show ?thesis
    unfolding r0(2) DeleteNote
    by (rule outcome_of_check [where g = "map_sum id (\<lambda>st. (st, []))", OF r0(1) [unfolded delete_note_def]], erule refused,
      rule outcome_of_check [where g = "map_sum id (\<lambda>st. (st, []))"], assumption, erule refused,
      rule outcome_of_statement [where g = "map_sum id (\<lambda>st. (st, []))"], assumption, rule assms(1), rule delete_note)
      (use assms(3) in \<open>auto simp: shelf_outcome_def split: if_splits elim!: shelf_delete [where canon = canon and uid = "au_user_id auth", OF user]\<close>)
qed

end

text \<open>
  C20. The notes API is a set of notebooks, one per user: an answered call does to the caller's
  notebook exactly what it says and nothing to any other; a call answered with 404 names no note of the
  caller and changes nothing; one that fails inside happened in full or not at all; any other refusal
  changes nothing.
\<close>

theorem notes_refine_notebooks:
  assumes "postgres_service (e_db E) pg_of canon" and "canon (au_user_id auth) = Some u"
    and "pg_ok canon (pg_of (db w))" and "run (serve_note E A auth call) w = (r, w')"
  shows "shelf_outcome canon u call (shelf_of (pg_of (db w))) r (shelf_of (pg_of (db w')))"
  by (rule postgres_service.serve_note_refines [OF assms(1) refl assms(2-4)])

theorem notes_refine_notebooks_witness:
  "\<exists>w'. run (serve_note (ref_env 0 Map.empty) demo_app user_ann (DeleteNote ''n1'')) two_notes = (Inr (204, []), w')
     \<and> shelf_of (db w') = file_note (u_id ann_row) ''n1'' None (shelf_of (db two_notes))
     \<and> shelf_of (db two_notes) (u_id ann_row) ''n1'' \<noteq> None"
proof -
  let ?p = "serve_note (ref_env 0 Map.empty) demo_app user_ann (DeleteNote ''n1'')"
  obtain w' where r: "run ?p two_notes = (Inr (204, []), w')"
    by (simp add: serve_note_def run_map_ok delete_note_def check_note_id_def db_pool_def demo_app_def ref_sel
        run_simps ref_db_def owned_def two_notes_def ref_world_sel ann_row_def user_ann_def)
  have "postgres_service (e_db (ref_env 0 Map.empty)) (\<lambda>p. p) Some" by (simp add: ref_db.postgres_service_axioms)
  from notes_refine_notebooks [OF this _ _ r, of "u_id ann_row"] r show ?thesis
    by (simp add: shelf_outcome_def pg_ok_def two_notes_def ref_world_sel user_ann_def)
qed

end
