(* ===== verification/Storage_Keys.thy ===== *)
theory Storage_Keys
  imports Storage Utf8
begin

text \<open>
  Where an object key leads: the documented behaviour of the \<open>urlencoding\<close> and \<open>url\<close> crates (percent
  decoding, and the path resolution of the WHATWG URL standard) as the locale \<open>url_service\<close>, and which
  keys stay inside their owner's part of the bucket.
\<close>

section \<open>Percent decoding\<close>

definition hex_val :: "char \<Rightarrow> nat option" where
  "hex_val c = (if is_digit c then Some (byte c - 48)
     else if 97 \<le> byte c \<and> byte c \<le> 102 then Some (byte c - 87)
     else if 65 \<le> byte c \<and> byte c \<le> 70 then Some (byte c - 55) else None)"

text \<open>A percent sign without two hexadecimal digits stays.\<close>

fun percent_decode :: "string \<Rightarrow> string" where
  "percent_decode (p # a # b # s) = (if p = CHR ''%'' then
       (case (hex_val a, hex_val b) of
          (Some x, Some y) \<Rightarrow> char_of (16 * x + y) # percent_decode s
        | _ \<Rightarrow> p # percent_decode (a # b # s))
     else p # percent_decode (a # b # s))"
| "percent_decode s = s"

lemma hex_val_slash [simp]: "hex_val (CHR ''/'') = None"
  by (simp add: hex_val_def is_digit_def byte_def)

lemma decode_other: "c \<noteq> CHR ''%'' \<Longrightarrow> percent_decode (c # s) = c # percent_decode s"
  by (cases s rule: percent_decode.cases) auto

lemma decode_slash: "percent_decode (a @ CHR ''/'' # b) = percent_decode a @ CHR ''/'' # percent_decode b"
proof (induction a rule: percent_decode.induct, goal_cases)
  case 1
  then show ?case by (auto split: option.split)
next
  case 2
  then show ?case by (simp add: decode_other)
next
  case 3
  show ?case by (cases b) (simp_all add: decode_other)
next
  case (4 v va)
  show ?case
    by (cases "v = CHR ''%''"; cases "va = CHR ''%''"; cases b)
      (simp_all add: decode_other split: option.split)
qed

lemma split_on_decode:
  "split_on (CHR ''/'') (percent_decode s) =
     concat (map (\<lambda>x. split_on (CHR ''/'') (percent_decode x)) (split_on (CHR ''/'') s))"
proof -
  have "split_on (CHR ''/'') (percent_decode (join ''/'' ps)) =
      concat (map (\<lambda>x. split_on (CHR ''/'') (percent_decode x)) ps)" if "ps \<noteq> []" for ps
    using that
  proof (induction ps rule: list_nonempty_induct)
    case (cons x xs)
    have split: "split_on (CHR ''/'') (a @ CHR ''/'' # b) = split_on (CHR ''/'') a @ split_on (CHR ''/'') b" for a b
      by (induction a) (auto split: list.split)
    have "join ''/'' (x # xs) = x @ CHR ''/'' # join ''/'' xs" using cons by (cases xs) simp_all
    with cons show ?case by (simp add: decode_slash split)
  qed simp
  from this [of "split_on (CHR ''/'') s"] show ?thesis by (simp add: join_split_on)
qed

lemma decode_keeps: "c \<in> set s \<Longrightarrow> c \<noteq> CHR ''%'' \<Longrightarrow> hex_val c = None \<Longrightarrow> c \<in> set (percent_decode s)"
proof (induction "length s" arbitrary: s rule: less_induct)
  case less
  show ?case
  proof (cases s rule: percent_decode.cases)
    case (1 p a b t)
    have "c \<in> set t \<Longrightarrow> c \<in> set (percent_decode t)"
      and "c \<in> set (a # b # t) \<Longrightarrow> c \<in> set (percent_decode (a # b # t))"
      using less 1 by auto
    then show ?thesis using less.prems unfolding 1 by (auto split: option.split)
  qed (use less.prems in auto)
qed

section \<open>Percent encoding\<close>

definition upper_hex :: "nat \<Rightarrow> char" where
  "upper_hex n = (if n < 10 then char_of (48 + n) else char_of (55 + n))"

definition percent_encode :: "char \<Rightarrow> string" where
  "percent_encode c = [CHR ''%'', upper_hex (byte c div 16), upper_hex (byte c mod 16)]"

lemma upper_hex_code: "n < 16 \<Longrightarrow> byte (upper_hex n) = (if n < 10 then 48 + n else 55 + n)"
  by (simp add: upper_hex_def byte_def)

lemma hex_val_upper: "n < 16 \<Longrightarrow> hex_val (upper_hex n) = Some n"
  by (simp add: hex_val_def is_digit_def upper_hex_code)

lemma byte_less: "byte c < 256"
  by (simp add: byte_def)

lemma decode_percent_encode: "percent_decode (percent_encode c @ s) = c # percent_decode s"
proof -
  have "byte c div 16 < 16" using byte_less [of c] by simp
  moreover have "char_of (16 * (byte c div 16) + byte c mod 16) = c" by (simp add: byte_def)
  ultimately show ?thesis by (simp add: percent_encode_def hex_val_upper)
qed

text \<open>
  The encoding of form data, which the \<open>url\<close> crate gives the pairs of a query: letters, digits and \<open>* - . _\<close> stay
  and a space becomes a plus sign.
\<close>

definition plain_char :: "char \<Rightarrow> bool" where
  "plain_char c \<longleftrightarrow> is_digit c \<or> (97 \<le> byte c \<and> byte c \<le> 122) \<or> (65 \<le> byte c \<and> byte c \<le> 90) \<or>
     c \<in> {CHR ''-'', CHR ''_''}"

definition form_char :: "char \<Rightarrow> string" where
  "form_char c = (if plain_char c \<or> c \<in> {CHR ''*'', CHR ''.''} then [c]
     else if c = CHR '' '' then ''+'' else percent_encode c)"

definition form_encode :: "string \<Rightarrow> string" where
  "form_encode s = concat (map form_char s)"

definition form_query :: "(string \<times> string) list \<Rightarrow> string" where
  "form_query ps = join ''&'' (map (\<lambda>(k, v). form_encode k @ ''='' @ form_encode v) ps)"

section \<open>Path resolution\<close>

definition url_input :: "string \<Rightarrow> string" where
  "url_input s = (let c0 = (\<lambda>c. byte c \<le> 32) in
     filter (\<lambda>c. byte c \<notin> {9, 10, 13}) (rev (dropWhile c0 (rev (dropWhile c0 s)))))"

definition path_part :: "string \<Rightarrow> string" where
  "path_part s = takeWhile (\<lambda>c. c \<noteq> CHR ''?'' \<and> c \<noteq> CHR ''#'') s"

definition slash :: "char \<Rightarrow> bool" where
  "slash c \<longleftrightarrow> c = CHR ''/'' \<or> c = CHR 0x5C"

definition segments :: "string \<Rightarrow> string list" where
  "segments s = split_on (CHR ''/'') (map (\<lambda>c. if slash c then CHR ''/'' else c) s)"

definition double_dot :: "string \<Rightarrow> bool" where
  "double_dot s \<longleftrightarrow> lowercase s \<in> {''..'', ''.%2e'', ''%2e.'', ''%2e%2e''}"

definition single_dot :: "string \<Rightarrow> bool" where
  "single_dot s \<longleftrightarrow> lowercase s \<in> {''.'', ''%2e''}"

text \<open>The segments seen so far are kept in reverse.\<close>

fun resolve :: "string list \<Rightarrow> string list \<Rightarrow> string list" where
  "resolve st [] = rev st"
| "resolve st (s # ss) =
     (if double_dot s then resolve ((if ss = [] then [[]] else []) @ tl st) ss
      else if single_dot s then resolve ((if ss = [] then [[]] else []) @ st) ss
      else resolve (s # st) ss)"

definition plain :: "string \<Rightarrow> bool" where
  "plain s \<longleftrightarrow> s \<noteq> [] \<and> (\<forall>c \<in> set s. plain_char c)"

definition path_of :: "(string \<Rightarrow> string) \<Rightarrow> string \<Rightarrow> string" where
  "path_of esc q = concat (map (\<lambda>s. ''/'' @ esc s) (resolve [] (segments (path_part q))))"

text \<open>
  The documented behaviour: an absolute path replaces the path of an http URL; \<open>esc\<close> is the
  percent-encoding of a segment, which leaves letters, digits, hyphens and underscores alone.
\<close>

locale url_service =
  fixes S :: "'o s3" and esc :: "string \<Rightarrow> string"
  assumes join: "s3_join S base (CHR ''/'' # p) = Inr u \<Longrightarrow> url_input (CHR ''/'' # p) = CHR ''/'' # q \<Longrightarrow>
      q \<noteq> [] \<and> \<not> slash (hd q) \<Longrightarrow> url_path u = path_of esc q"
    and esc_plain: "plain s \<Longrightarrow> esc s = s"
    and decode: "s3_decode S s = (if utf8_valid (percent_decode s) then Some (percent_decode s) else None)"

lemma resolve_append:
  "(\<And>s. s \<in> set as \<Longrightarrow> \<not> double_dot s \<and> \<not> single_dot s) \<Longrightarrow> resolve st (as @ ss) = resolve (rev as @ st) ss"
  by (induction as arbitrary: st) auto

lemma resolve_confined:
  "(\<And>s. s \<in> set ss \<Longrightarrow> \<not> double_dot s) \<Longrightarrow> ss \<noteq> [] \<Longrightarrow> \<exists>r. r \<noteq> [] \<and> resolve st ss = rev st @ r"
proof (induction ss arbitrary: st)
  case (Cons s ss)
  show ?case
  proof (cases "ss = []")
    case False
    with Cons have ih: "\<exists>r. r \<noteq> [] \<and> resolve st ss = rev st @ r" for st by simp
    have "resolve st (s # ss) = resolve st ss \<or> resolve st (s # ss) = resolve (s # st) ss"
      using Cons.prems False by auto
    then show ?thesis using ih [of st] ih [of "s # st"] by auto
  qed (use Cons.prems in auto)
qed simp

lemma plain_char_bytes:
  "plain_char c \<Longrightarrow> 32 < byte c \<and> byte c < 127 \<and> c \<noteq> CHR ''/'' \<and> c \<noteq> CHR ''?'' \<and> c \<noteq> CHR ''#'' \<and> c \<noteq> CHR ''%'' \<and>
     c \<noteq> CHR ''.'' \<and> c \<noteq> CHR 0x5C \<and> c \<noteq> CHR 0x09"
  by (auto simp: plain_char_def is_digit_def byte_def)

lemma lower_Cons:
  assumes "lowercase s = d # r" and "\<not> (97 \<le> byte d \<and> byte d \<le> 122)"
  shows "\<exists>t. s = d # t \<and> lowercase t = r"
proof (cases s)
  case (Cons c t)
  then have d: "ascii_lower c = d" "lowercase t = r" using assms(1) by (simp_all add: lowercase_def)
  have "\<not> (65 \<le> byte c \<and> byte c \<le> 90)"
  proof
    assume "65 \<le> byte c \<and> byte c \<le> 90"
    with d have "d = char_of (byte c + 32)" by (simp add: ascii_lower_def)
    with \<open>65 \<le> byte c \<and> byte c \<le> 90\<close> assms(2) show False by simp
  qed
  with d Cons show ?thesis by (simp add: ascii_lower_def)
qed (use assms(1) in \<open>simp add: lowercase_def\<close>)

lemma lower_e: "lowercase s = CHR ''e'' # r \<Longrightarrow> \<exists>c t. s = c # t \<and> hex_val c = Some 14 \<and> lowercase t = r"
proof (cases s)
  case (Cons c t)
  assume "lowercase s = CHR ''e'' # r"
  with Cons have d: "ascii_lower c = CHR ''e''" and t: "lowercase t = r" by (simp_all add: lowercase_def)
  have "byte c = 69 \<or> byte c = 101"
  proof (cases "65 \<le> byte c \<and> byte c \<le> 90")
    case True
    with d have "byte (char_of (byte c + 32)) = byte (CHR ''e'')" by (simp add: ascii_lower_def)
    with True show ?thesis by (simp add: byte_def)
  next
    case False
    with d have "c = CHR ''e''" unfolding ascii_lower_def by (simp only: if_False)
    then show ?thesis by (simp add: byte_def)
  qed
  with Cons t show ?thesis by (auto simp: hex_val_def is_digit_def)
qed (simp add: lowercase_def)

lemma lower_Nil [simp]: "lowercase s = [] \<longleftrightarrow> s = []"
  by (simp add: lowercase_def)

text \<open>A double-dot segment is one that decodes to two dots.\<close>

lemma double_dot_decoded: "double_dot s \<Longrightarrow> percent_decode s = ''..''"
proof -
  have b: "\<not> (97 \<le> byte (CHR ''.'') \<and> byte (CHR ''.'') \<le> 122)" "\<not> (97 \<le> byte (CHR ''%'') \<and> byte (CHR ''%'') \<le> 122)"
    "\<not> (97 \<le> byte (CHR ''2'') \<and> byte (CHR ''2'') \<le> 122)"
    by (simp_all add: byte_def)
  have v: "hex_val (CHR ''2'') = Some 2" by (simp add: hex_val_def is_digit_def byte_def)
  have d: "char_of (46 :: nat) = CHR ''.''" by (simp add: char_of_def bit_Suc_0_iff)
  assume "double_dot s"
  then consider "lowercase s = ''..''" | "lowercase s = ''.%2e''" | "lowercase s = ''%2e.''" | "lowercase s = ''%2e%2e''"
    by (auto simp: double_dot_def)
  then show ?thesis
    by cases (auto simp: v d decode_other dest!: lower_Cons [OF _ b(1)] lower_Cons [OF _ b(2)] lower_Cons [OF _ b(3)] lower_e)
qed

section \<open>Confined keys\<close>

text \<open>Keys without control characters, spaces, question marks and hash signs.\<close>

definition printable :: "string \<Rightarrow> bool" where
  "printable s \<longleftrightarrow> (\<forall>c \<in> set s. 32 < byte c \<and> c \<noteq> CHR ''?'' \<and> c \<noteq> CHR ''#'')"

lemma printable_simps [simp]:
  "printable []" "printable (c # s) \<longleftrightarrow> 32 < byte c \<and> c \<noteq> CHR ''?'' \<and> c \<noteq> CHR ''#'' \<and> printable s"
  "printable (s @ t) \<longleftrightarrow> printable s \<and> printable t"
  by (auto simp: printable_def)

lemma byte_lits [simp]:
  "byte (CHR ''.'') = 46" "byte (CHR ''/'') = 47" "byte (CHR 0x09) = 9" "byte (CHR ''u'') = 117"
  "byte (CHR ''s'') = 115" "byte (CHR ''e'') = 101" "byte (CHR ''r'') = 114"
  by (simp_all add: byte_def)

lemma plain_printable: "plain s \<Longrightarrow> printable s"
  by (auto simp: plain_def printable_def dest: plain_char_bytes)

lemma printable_input: "printable s \<Longrightarrow> url_input s = s"
proof -
  assume p: "printable s"
  then have c: "c \<in> set s \<Longrightarrow> \<not> byte c \<le> 32" for c by (simp add: printable_def not_le)
  have d: "dropWhile (\<lambda>c. byte c \<le> 32) t = t" if "set t \<subseteq> set s" for t
    using that c by (cases t) simp_all
  have "c \<in> set s \<Longrightarrow> byte c \<notin> {9, 10, 13}" for c using c [of c] by auto
  then have "filter (\<lambda>c. byte c \<notin> {9, 10, 13}) s = s" by (intro filter_True) blast
  with d [of s] d [of "rev s"] show ?thesis by (simp add: url_input_def)
qed

lemma printable_path: "printable s \<Longrightarrow> path_part s = s"
  unfolding path_part_def by (rule takeWhile_eq_all_conv [THEN iffD2]) (auto simp: printable_def)

lemma segments_append:
  "segments (a @ CHR ''/'' # b) = segments a @ segments b"
proof -
  have "split_on c (x @ c # y) = split_on c x @ split_on c y" for c :: char and x y
    by (induction x) (auto split: list.split)
  then show ?thesis by (simp add: segments_def slash_def)
qed

lemma segments_plain: "plain s \<Longrightarrow> segments s = [s]"
proof -
  assume p: "plain s"
  then have n: "\<forall>c \<in> set s. \<not> slash c" by (auto simp: plain_def slash_def dest: plain_char_bytes)
  then have "map (\<lambda>c. if slash c then CHR ''/'' else c) s = s" by (simp add: map_idI)
  moreover have "CHR ''/'' \<notin> set s" using n by (auto simp: slash_def)
  ultimately show ?thesis by (simp add: segments_def split_on_id)
qed

lemma plain_no_dot: "plain s \<Longrightarrow> \<not> double_dot s \<and> \<not> single_dot s"
proof -
  assume p: "plain s"
  obtain c t where s: "s = c # t" and c: "plain_char c" using p by (cases s) (auto simp: plain_def)
  have b: "\<not> (97 \<le> byte (CHR ''.'') \<and> byte (CHR ''.'') \<le> 122)" "\<not> (97 \<le> byte (CHR ''%'') \<and> byte (CHR ''%'') \<le> 122)"
    by (simp_all add: byte_def)
  have "lowercase s \<noteq> CHR ''.'' # r" "lowercase s \<noteq> CHR ''%'' # r" for r
    using lower_Cons [OF _ b(1)] lower_Cons [OF _ b(2)] plain_char_bytes [OF c] s by blast+
  then show ?thesis by (auto simp: double_dot_def single_dot_def)
qed

lemma users_plain [simp]: "plain ''users''"
  by (simp add: plain_def plain_char_def byte_def)

text \<open>The segments of a key that passes validation.\<close>

lemma validated_segments:
  assumes "\<And>s. s3_decode S s = (if utf8_valid (percent_decode s) then Some (percent_decode s) else None)"
    and "validate_storage_key S key = Inr ()"
  shows "\<forall>s \<in> set (segments key). \<not> double_dot s"
proof
  fix s assume s: "s \<in> set (segments key)"
  have v: "CHR 0x5C \<notin> set (percent_decode key)" "''..'' \<notin> set (split_on (CHR ''/'') (percent_decode key))"
    using assms by (auto simp: validate_storage_key_def split: if_splits)
  have "CHR 0x5C \<notin> set key"
    using v(1) decode_keeps [of "CHR 0x5C" key] by (auto simp: hex_val_def is_digit_def byte_def)
  then have "map (\<lambda>c. if slash c then CHR ''/'' else c) key = key" by (intro map_idI) (auto simp: slash_def)
  then have "s \<in> set (split_on (CHR ''/'') key)" using s by (simp add: segments_def)
  then have "set (split_on (CHR ''/'') (percent_decode s)) \<subseteq> set (split_on (CHR ''/'') (percent_decode key))"
    by (subst (2) split_on_decode) auto
  with v(2) show "\<not> double_dot s" using double_dot_decoded [of s] by (auto simp: split_on_id)
qed

context url_service
begin

lemma object_path:
  assumes "plain bkt" and "plain uid"
    and "build_object_url S ep bkt (user_key uid key) = Inr u"
    and "url_input (''/'' @ bkt @ ''/users/'' @ uid @ ''/'' @ key) = ''/'' @ bkt @ ''/users/'' @ uid @ ''/'' @ key'"
  shows "url_path u = concat (map (\<lambda>s. ''/'' @ esc s) (resolve [uid, ''users'', bkt] (segments (path_part key'))))"
proof -
  let ?q = "bkt @ ''/users/'' @ uid @ ''/'' @ key'"
  obtain base where "s3_join S base (CHR ''/'' # bkt @ ''/users/'' @ uid @ ''/'' @ key) = Inr u"
    using assms(3) by (auto simp: build_object_url_def user_key_def split: sum.splits)
  moreover have "url_input (CHR ''/'' # bkt @ ''/users/'' @ uid @ ''/'' @ key) = CHR ''/'' # ?q" using assms(4) by simp
  moreover have "?q \<noteq> [] \<and> \<not> slash (hd ?q)"
    using assms(1) by (cases bkt) (auto simp: plain_def slash_def dest: plain_char_bytes)
  ultimately have "url_path u = path_of esc ?q" by (rule join)
  moreover have "path_part ?q = bkt @ ''/users/'' @ uid @ ''/'' @ path_part key'"
    using plain_printable [OF assms(1)] plain_printable [OF assms(2)]
    by (auto simp: path_part_def takeWhile_append printable_def)
  moreover have "segments (bkt @ CHR ''/'' # ''users'' @ CHR ''/'' # uid @ CHR ''/'' # path_part key') =
      [bkt, ''users'', uid] @ segments (path_part key')"
    unfolding segments_append segments_plain [OF assms(1)] segments_plain [OF assms(2)] segments_plain [OF users_plain]
    by simp
  moreover have "resolve [] ([bkt, ''users'', uid] @ segments (path_part key')) =
      resolve (rev [bkt, ''users'', uid] @ []) (segments (path_part key'))"
    using plain_no_dot [OF assms(1)] plain_no_dot [OF assms(2)] plain_no_dot [OF users_plain]
    by (intro resolve_append) auto
  ultimately show ?thesis by (simp add: path_of_def)
qed

end

text \<open>
  C22. An object key that passes validation and has no control characters, spaces,
  question marks or hash signs names an object under its user's own prefix, whatever dots, slashes and
  percent-encodings it holds.
\<close>

theorem storage_key_confined:
  assumes "url_service S esc" and "plain bkt" and "plain uid"
    and "validate_storage_key S key = Inr ()" and "printable key"
    and "build_object_url S ep bkt (user_key uid key) = Inr u"
  shows "\<exists>p. url_path u = ''/'' @ bkt @ ''/users/'' @ uid @ ''/'' @ p"
proof -
  have "printable (''/'' @ bkt @ ''/users/'' @ uid @ ''/'' @ key)"
    using plain_printable [OF assms(2)] plain_printable [OF assms(3)] assms(5) by simp
  then have path: "url_path u = concat (map (\<lambda>s. ''/'' @ esc s) (resolve [uid, ''users'', bkt] (segments key)))"
    using url_service.object_path [OF assms(1-3,6) printable_input] by (simp add: printable_path [OF assms(5)])
  have "segments key \<noteq> []" by (simp add: segments_def)
  with validated_segments [OF url_service.decode [OF assms(1)] assms(4)]
  obtain r where "r \<noteq> []" "resolve [uid, ''users'', bkt] (segments key) = rev [uid, ''users'', bkt] @ r"
    using resolve_confined [of "segments key" "[uid, ''users'', bkt]"] by blast
  then show ?thesis
    unfolding path using url_service.esc_plain [OF assms(1)] assms(2,3) users_plain
    by (cases r) simp_all
qed

lemma plain_absent:
  assumes "plain s"
  shows "CHR ''%'' \<notin> set s" "CHR ''/'' \<notin> set s" "CHR 0x5C \<notin> set s" "CHR ''.'' \<notin> set s" "CHR 0x00 \<notin> set s"
proof -
  have "\<not> plain_char (CHR ''%'')" "\<not> plain_char (CHR ''/'')" "\<not> plain_char (CHR 0x5C)" "\<not> plain_char (CHR ''.'')"
    "\<not> plain_char (CHR 0x00)"
    by (simp_all add: plain_char_def is_digit_def byte_def)
  then show "CHR ''%'' \<notin> set s" "CHR ''/'' \<notin> set s" "CHR 0x5C \<notin> set s" "CHR ''.'' \<notin> set s" "CHR 0x00 \<notin> set s"
    using assms unfolding plain_def by metis+
qed

lemma plain_ascii: "plain s \<Longrightarrow> c \<in> set s \<Longrightarrow> 32 < byte c \<and> byte c < 128"
  using plain_char_bytes [of c] by (simp add: plain_def)

text \<open>The key that escapes, and the two halves of why: it is accepted, and the URL parser drops its tab.\<close>

definition escaping_key :: "string \<Rightarrow> string \<Rightarrow> string" where
  "escaping_key victim f = [CHR ''.'', CHR 0x09] @ ''./'' @ victim @ ''/'' @ f"

lemma escaping_key_valid:
  assumes "url_service S esc" and "plain victim" and "plain f"
  shows "validate_storage_key S (escaping_key victim f) = Inr ()"
proof -
  let ?key = "escaping_key victim f"
  note v = plain_absent [OF assms(2)] plain_absent [OF assms(3)]
  have dec: "percent_decode s = s" if "CHR ''%'' \<notin> set s" for s
    using that by (induction s rule: percent_decode.induct) auto
  have d: "percent_decode ?key = ?key" by (rule dec) (simp add: v escaping_key_def)
  have "utf8_valid ?key"
    by (rule ascii_valid) (use plain_ascii [OF assms(2)] plain_ascii [OF assms(3)] in \<open>simp add: ball_Un escaping_key_def\<close>)
  moreover have "split_on (CHR ''/'') ([CHR ''.'', CHR 0x09, CHR ''.''] @ CHR ''/'' # victim @ CHR ''/'' # f) =
      [[CHR ''.'', CHR 0x09, CHR ''.''], victim, f]"
    by (subst split_on_append, simp, subst split_on_append) (simp_all add: split_on_id v)
  then have "split_on (CHR ''/'') ?key = [[CHR ''.'', CHR 0x09, CHR ''.''], victim, f]"
    by (simp add: escaping_key_def)
  moreover have "victim \<noteq> ''..''" "f \<noteq> ''..''" using v by auto
  moreover have "CHR 0x00 \<notin> set ?key" "CHR 0x5C \<notin> set ?key" by (simp_all add: v escaping_key_def)
  ultimately show ?thesis
    unfolding validate_storage_key_def url_service.decode [OF assms(1)] d by (simp add: escaping_key_def)
qed

lemma escaping_key_input:
  assumes "plain bkt" and "plain uid" and "plain victim" and "plain f"
  shows "url_input ((''/'' @ bkt @ ''/users/'' @ uid @ ''/'') @ escaping_key victim f) =
    (''/'' @ bkt @ ''/users/'' @ uid @ ''/'') @ ''../'' @ victim @ ''/'' @ f"
proof -
  let ?pre = "''/'' @ bkt @ ''/users/'' @ uid @ ''/''" and ?key = "escaping_key victim f"
  let ?c0 = "\<lambda>c. byte c \<le> 32"
  have pre: "printable ?pre" and post: "printable (''./'' @ victim @ ''/'' @ f)"
    using assms [THEN plain_printable] by simp_all
  have "\<not> ?c0 (hd (?pre @ ?key))" by simp
  then have 1: "dropWhile ?c0 (?pre @ ?key) = ?pre @ ?key" by simp
  have "f \<noteq> []" using assms(4) by (simp add: plain_def)
  then have "\<not> ?c0 (hd (rev (?pre @ ?key)))"
    using plain_ascii [OF assms(4), of "last f"] by (simp add: hd_rev not_le escaping_key_def)
  then have 2: "dropWhile ?c0 (rev (?pre @ ?key)) = rev (?pre @ ?key)"
    by (cases "rev (?pre @ ?key)") simp_all
  have 3: "filter (\<lambda>c. byte c \<notin> {9, 10, 13}) s = s" if "printable s" for s
    using that by (intro filter_True) (force simp: printable_def)
  have "?pre @ ?key = (?pre @ ''.'') @ [CHR 0x09] @ (''./'' @ victim @ ''/'' @ f)" by (simp add: escaping_key_def)
  moreover have "printable (?pre @ ''.'')" using pre by simp
  ultimately have 4: "filter (\<lambda>c. byte c \<notin> {9, 10, 13}) (?pre @ ?key) = (?pre @ ''.'') @ (''./'' @ victim @ ''/'' @ f)"
    using 3 [of "?pre @ ''.''"] 3 [OF post] by (simp only: filter_append) simp
  show ?thesis unfolding url_input_def Let_def 1 2 rev_rev_ident 4 by simp
qed

text \<open>
  C23. The restriction to printable keys is needed: a tab hides a dot segment from the
  validation, which sees \<open>.\<close>, tab, \<open>.\<close> where the URL library sees \<open>..\<close>. Every user can so name every object of
  every other user.
\<close>

theorem storage_key_escapes:
  assumes "url_service S esc" and "plain bkt" and "plain uid" and "plain victim" and "plain f"
    and "build_object_url S ep bkt (user_key uid (escaping_key victim f)) = Inr u"
  shows "validate_storage_key S (escaping_key victim f) = Inr () \<and>
    url_path u = ''/'' @ bkt @ ''/users/'' @ victim @ ''/'' @ f"
proof -
  have path: "url_path u =
      concat (map (\<lambda>s. ''/'' @ esc s) (resolve [uid, ''users'', bkt] (segments (path_part (''../'' @ victim @ ''/'' @ f)))))"
    using escaping_key_input [OF assms(2-5)] by (intro url_service.object_path [OF assms(1-3,6)]) simp
  have "printable (''../'' @ victim @ ''/'' @ f)"
    using plain_printable [OF assms(4)] plain_printable [OF assms(5)] by simp
  then have "path_part (''../'' @ victim @ ''/'' @ f) = ''..'' @ CHR ''/'' # victim @ CHR ''/'' # f"
    by (simp add: printable_path)
  moreover have "segments (''..'' @ CHR ''/'' # victim @ CHR ''/'' # f) = [''..'', victim, f]"
    unfolding segments_append segments_plain [OF assms(4)] segments_plain [OF assms(5)]
    by (simp add: segments_def slash_def)
  moreover have "double_dot ''..''" by (simp add: double_dot_def lowercase_def ascii_lower_def byte_def)
  ultimately have "url_path u = concat (map (\<lambda>s. ''/'' @ esc s) [bkt, ''users'', victim, f])"
    unfolding path using plain_no_dot [OF assms(4)] plain_no_dot [OF assms(5)] by simp
  then show ?thesis
    using escaping_key_valid [OF assms(1,4,5)] url_service.esc_plain [OF assms(1)] assms(2,4,5) by simp
qed

section \<open>An instance\<close>

text \<open>
  A storage service at \<open>http://h\<close> whose segments need no encoding, and which stores nothing. Its hash is the
  text itself.
\<close>

definition ref_parse_url :: "string \<Rightarrow> string + url" where
  "ref_parse_url s = (case strip_prefix ''http://h'' s of None \<Rightarrow> Inl ''relative URL without a base''
     | Some rest \<Rightarrow> Inr \<lparr>url_text = s, url_host = Some ''h'',
         url_path = (case takeWhile (\<lambda>c. c \<noteq> CHR ''?'') rest of [] \<Rightarrow> ''/'' | p \<Rightarrow> p),
         url_query = (case dropWhile (\<lambda>c. c \<noteq> CHR ''?'') rest of [] \<Rightarrow> None | _ # q \<Rightarrow> Some q)\<rparr>)"

definition ref_join_url :: "url \<Rightarrow> string \<Rightarrow> string + url" where
  "ref_join_url base p = (let path = (case url_input p of [] \<Rightarrow> [] | _ # q \<Rightarrow> path_of (\<lambda>s. s) q) in
     Inr \<lparr>url_text = ''http://h'' @ path, url_host = Some ''h'', url_path = path, url_query = None\<rparr>)"

definition ref_s3 :: "'o s3" where
  "ref_s3 = \<lparr>s3_parse = ref_parse_url, s3_join = ref_join_url, s3_pairs = (\<lambda>u ps.
       u\<lparr>url_text := url_text u @ ''?'' @ form_query ps, url_query := Some (form_query ps)\<rparr>),
     s3_decode = (\<lambda>s. if utf8_valid (percent_decode s) then Some (percent_decode s) else None),
     s3_sha256 = (\<lambda>s. map of_char s), s3_stamp = (\<lambda>t. ''20260101T000000Z''), s3_escape = (\<lambda>s. s),
     s3_send = (\<lambda>r s. (Inr \<lparr>rs_status = 200, rs_status_text = ''200 OK'', rs_headers = Map.empty, rs_body = Inr []\<rparr>, s))\<rparr>"

interpretation ref_urls: url_service ref_s3 "\<lambda>s. s"
  by unfold_locales (auto simp: ref_s3_def ref_join_url_def Let_def)

lemma ref_urls_total: "\<exists>u. build_object_url ref_s3 ''http://h'' bkt key = Inr u"
  by (simp add: build_object_url_def ref_s3_def ref_parse_url_def ref_join_url_def Let_def)

theorem storage_key_confined_witness:
  "\<exists>u p. build_object_url (ref_s3 :: unit s3) ''http://h'' ''b'' (user_key ''u1'' ''x/./y%2e'') = Inr u \<and>
     url_path u = ''/b/users/u1/'' @ p"
proof -
  obtain u where u: "build_object_url (ref_s3 :: unit s3) ''http://h'' ''b'' (user_key ''u1'' ''x/./y%2e'') = Inr u"
    using ref_urls_total by blast
  have p: "plain ''b''" "plain ''u1''" by (simp_all add: plain_def plain_char_def is_digit_def byte_def)
  have v: "validate_storage_key (ref_s3 :: unit s3) ''x/./y%2e'' = Inr ()" by code_simp
  have "printable ''x/./y%2e''" by (simp add: byte_def)
  from storage_key_confined [OF ref_urls.url_service_axioms p v this u] u show ?thesis by auto
qed

theorem storage_key_escapes_witness:
  "\<exists>u. build_object_url (ref_s3 :: unit s3) ''http://h'' ''b''
       (user_key ''eve'' (escaping_key ''ann'' ''f'')) = Inr u \<and>
     url_path u = ''/b/users/ann/f''"
proof -
  obtain u where u: "build_object_url (ref_s3 :: unit s3) ''http://h'' ''b''
      (user_key ''eve'' (escaping_key ''ann'' ''f'')) = Inr u"
    using ref_urls_total by blast
  have "plain ''b''" "plain ''eve''" "plain ''ann''" "plain ''f''" by (simp_all add: plain_def plain_char_def is_digit_def byte_def)
  from storage_key_escapes [OF ref_urls.url_service_axioms this u] u show ?thesis by auto
qed

text \<open>A reader of a response with one \<open>UploadId\<close> element; its state is the number of events read.\<close>

definition demo_reader :: "nat xml_reader" where
  "demo_reader = \<lparr>xr_open = (\<lambda>s. 0),
     xr_event = (\<lambda>x. (Inr (if x = 0 then XStart ''Result'' else if x = 1 then XStart ''UploadId'' else
        if x = 2 then XOther else XEof), Suc x)),
     xr_text = (\<lambda>name x. (Inr ''u1'', x))\<rparr>"

theorem multipart_init_returns_witness:
  "(\<forall>c user w. \<exists>r. fst (run (init_multipart (ref_env 0 Map.empty) ref_s3 demo_reader c user ''k'' None) w) = Some r) \<and>
     read_upload_id demo_reader [] 0 None = Some (Inr (Some ''u1''))"
proof -
  have "xml_progress demo_reader (\<lambda>x. 3 - x)"
    by (auto simp: xml_progress_def demo_reader_def split: if_splits)
  from multipart_init_returns [OF this, of "ref_env 0 Map.empty" ref_s3 _ _ "''k''" None]
  show ?thesis by (simp add: read_upload_id.simps demo_reader_def)
qed

end
