(* ===== verification/Sig_V4.thy ===== *)
theory Sig_V4
  imports Storage_Keys
begin

text \<open>
  The specification the signer of \<open>backend/storage/src/client.rs\<close> has to meet: AWS Signature Version 4 for S3 as its
  documentation gives it, from the side of a service that checks the signature of a request it received.
\<close>

section \<open>URI encoding\<close>

definition unreserved :: "char \<Rightarrow> bool" where
  "unreserved c \<longleftrightarrow> plain_char c \<or> c \<in> {CHR ''.'', CHR ''~''}"

definition all_unreserved :: "string \<Rightarrow> bool" where
  "all_unreserved s \<longleftrightarrow> (\<forall>c \<in> set s. unreserved c)"

definition encode_char :: "char \<Rightarrow> string" where
  "encode_char c = (if unreserved c then [c] else percent_encode c)"

definition uri_encode :: "string \<Rightarrow> string" where
  "uri_encode s = concat (map encode_char s)"

text \<open>The slashes of a path stay.\<close>

definition uri_encode_path :: "string \<Rightarrow> string" where
  "uri_encode_path s = concat (map (\<lambda>c. if c = CHR ''/'' then [c] else encode_char c) s)"

lemma unreserved_lits [simp]:
  "\<not> unreserved (CHR ''%'')" "\<not> unreserved (CHR ''&'')" "\<not> unreserved (CHR ''='')" "\<not> unreserved (CHR ''?'')"
  "\<not> unreserved (CHR ''#'')" "\<not> unreserved (CHR ''/'')" "\<not> unreserved (CHR 0x5C)"
  by (simp_all add: unreserved_def plain_char_def is_digit_def byte_def)

lemma unreserved_byte: "unreserved c \<Longrightarrow> 32 < byte c \<and> byte c < 128"
  by (auto simp: unreserved_def plain_char_def is_digit_def byte_def)

lemma decode_no_percent: "CHR ''%'' \<notin> set s \<Longrightarrow> percent_decode s = s"
proof (induction s)
  case (Cons c s)
  then show ?case using decode_other [of c s] by auto
qed simp

lemma decode_unreserved: "all_unreserved s \<Longrightarrow> percent_decode s = s"
  unfolding all_unreserved_def by (rule decode_no_percent) (metis unreserved_lits(1))

lemma encode_unreserved: "all_unreserved s \<Longrightarrow> uri_encode s = s"
  by (induction s) (auto simp: all_unreserved_def uri_encode_def encode_char_def)

lemma all_unreserved_simps [simp]:
  "all_unreserved []" "all_unreserved (c # s) \<longleftrightarrow> unreserved c \<and> all_unreserved s"
  "all_unreserved (s @ t) \<longleftrightarrow> all_unreserved s \<and> all_unreserved t"
  by (auto simp: all_unreserved_def)

section \<open>The canonical request\<close>

definition canonical_uri :: "string \<Rightarrow> string" where
  "canonical_uri p = uri_encode_path (percent_decode p)"

text \<open>The parameters of a query, decoded; one without an equality sign has the empty value.\<close>

definition query_params :: "string \<Rightarrow> (string \<times> string) list" where
  "query_params q = (if q = [] then [] else map (\<lambda>p. case split_once (CHR ''='') p of
      Some (k, v) \<Rightarrow> (percent_decode k, percent_decode v)
    | None \<Rightarrow> (percent_decode p, [])) (split_on (CHR ''&'') q))"

text \<open>Names and values encoded, sorted by name and then by value.\<close>

definition canonical_query :: "(string \<times> string) list \<Rightarrow> string" where
  "canonical_query ps = join ''&'' (map (\<lambda>(k, v). k @ ''='' @ v)
     (sort_key fst (sort_key snd (map (map_prod uri_encode uri_encode) ps))))"

definition header_of :: "(string \<times> string) list \<Rightarrow> string \<Rightarrow> string option" where
  "header_of hs name = map_option snd (find (\<lambda>(k, v). lowercase k = name) hs)"

text \<open>One line per signed header, each ended by a line feed.\<close>

definition header_line :: "(string \<times> string) list \<Rightarrow> string \<Rightarrow> string" where
  "header_line hs name = name @ '':'' @ (case header_of hs name of Some v \<Rightarrow> trim v | None \<Rightarrow> []) @ NL"

definition spec_canonical ::
  "string \<Rightarrow> string \<Rightarrow> string \<Rightarrow> (string \<times> string) list \<Rightarrow> string list \<Rightarrow> string \<Rightarrow> string" where
  "spec_canonical verb uri query hs names payload =
     join NL [verb, uri, query, concat (map (header_line hs) names), join '';'' names, payload]"

section \<open>The signature\<close>

text \<open>Each key of the chain authenticates the next text; the last result is the signature.\<close>

fun hmac_chain :: "lib \<Rightarrow> string \<Rightarrow> string list \<Rightarrow> (string + u8 list)" where
  "hmac_chain L k [] = Inl ''''"
| "hmac_chain L k [d] = hmac_sha256 L k d"
| "hmac_chain L k (d # ds) = (case hmac_sha256 L k d of Inl e \<Rightarrow> Inl e | Inr m \<Rightarrow> hmac_chain L (bytes_text m) ds)"

definition spec_scope :: "string \<Rightarrow> string \<Rightarrow> string list" where
  "spec_scope date reg = [date, reg, ''s3'', ''aws4_request'']"

definition spec_string_to_sign :: "'o s3 \<Rightarrow> string \<Rightarrow> string \<Rightarrow> string \<Rightarrow> string" where
  "spec_string_to_sign S stamp reg creq = join NL [''AWS4-HMAC-SHA256'', stamp,
     join ''/'' (spec_scope (take 8 stamp) reg), hex_encode (s3_sha256 S creq)]"

definition spec_signature :: "lib \<Rightarrow> 'o s3 \<Rightarrow> string \<Rightarrow> string \<Rightarrow> string \<Rightarrow> string \<Rightarrow> string option" where
  "spec_signature L S secret reg stamp creq =
     (case hmac_chain L (''AWS4'' @ secret) (spec_scope (take 8 stamp) reg @ [spec_string_to_sign S stamp reg creq]) of
        Inl _ \<Rightarrow> None | Inr m \<Rightarrow> Some (hex_encode m))"

section \<open>A service that checks signatures\<close>

text \<open>
  Everything in the \<open>Authorization\<close> header that the service can know before it reads the names of the
  signed headers.
\<close>

definition authorization_start :: "string \<Rightarrow> string \<Rightarrow> string \<Rightarrow> string" where
  "authorization_start key reg stamp =
     ''AWS4-HMAC-SHA256 Credential='' @ join ''/'' (key # spec_scope (take 8 stamp) reg) @ '', SignedHeaders=''"

text \<open>The names have to include the host and all of Amazon's own headers that the request carries.\<close>

definition names_enough :: "(string \<times> string) list \<Rightarrow> string list \<Rightarrow> bool" where
  "names_enough hs names \<longleftrightarrow> sorted names \<and> ''host'' \<in> set names \<and>
     (\<forall>(k, v) \<in> set hs. starts_with (lowercase k) ''x-amz-'' \<longrightarrow> lowercase k \<in> set names)"

definition payload_matches :: "'o s3 \<Rightarrow> http_request \<Rightarrow> string \<Rightarrow> bool" where
  "payload_matches S rq payload \<longleftrightarrow> payload = ''UNSIGNED-PAYLOAD'' \<or> payload = hex_encode (s3_sha256 S (rq_body rq))"

definition request_signed :: "lib \<Rightarrow> 'o s3 \<Rightarrow> storage_config \<Rightarrow> http_request \<Rightarrow> bool" where
  "request_signed L S c rq =
     (case (s3_parse S (rq_url rq), header_of (rq_headers rq) ''x-amz-date'',
            header_of (rq_headers rq) ''x-amz-content-sha256'', header_of (rq_headers rq) ''authorization'') of
        (Inr u, Some stamp, Some payload, Some auth) \<Rightarrow>
          (case strip_prefix (authorization_start (access_key c) (region c) stamp) auth of
             None \<Rightarrow> False
           | Some rest \<Rightarrow>
               (let names = split_on (CHR '';'') (takeWhile (\<lambda>ch. ch \<noteq> CHR '','') rest);
                    query = canonical_query (query_params (case url_query u of Some q \<Rightarrow> q | None \<Rightarrow> []));
                    creq = spec_canonical (rq_method rq) (canonical_uri (url_path u)) query (rq_headers rq) names payload
                in names_enough (rq_headers rq) names \<and> payload_matches S rq payload \<and>
                   (case spec_signature L S (storage_secret c) (region c) stamp creq of
                      None \<Rightarrow> False
                    | Some signature \<Rightarrow> rest = join '';'' names @ '', Signature='' @ signature)))
      | _ \<Rightarrow> False)"

text \<open>The same service, which now refuses what is not signed.\<close>

definition refused :: http_response where
  "refused = \<lparr>rs_status = 403, rs_status_text = ''403 Forbidden'', rs_headers = Map.empty, rs_body = Inr ''SignatureDoesNotMatch''\<rparr>"

definition guarded :: "lib \<Rightarrow> storage_config \<Rightarrow> 'o s3 \<Rightarrow> 'o s3" where
  "guarded L c S = S\<lparr>s3_send := (\<lambda>rq s. if request_signed L S c rq then s3_send S rq s else (Inr refused, s))\<rparr>"

lemma guarded_sel [simp]:
  "s3_parse (guarded L c S) = s3_parse S" "s3_join (guarded L c S) = s3_join S" "s3_pairs (guarded L c S) = s3_pairs S"
  "s3_decode (guarded L c S) = s3_decode S" "s3_sha256 (guarded L c S) = s3_sha256 S"
  "s3_stamp (guarded L c S) = s3_stamp S" "s3_escape (guarded L c S) = s3_escape S"
  by (simp_all add: guarded_def)

section \<open>The signer meets the specification\<close>

lemma signing_signature_spec:
  "signing_signature L c (take 8 stamp) (string_to_sign_of S stamp (credential_scope_of c (take 8 stamp)) creq) = Inr sig
     \<longleftrightarrow> spec_signature L S (storage_secret c) (region c) stamp creq = Some sig"
  by (auto simp: signing_signature_def hmac_step_def spec_signature_def spec_scope_def spec_string_to_sign_def
      string_to_sign_of_def credential_scope_of_def sha256_hex_def map_err_def split: sum.splits)

lemma join_lines: "xs \<noteq> [] \<Longrightarrow> join s xs @ s = concat (map (\<lambda>x. x @ s) xs)"
proof (induction xs rule: list_nonempty_induct)
  case (cons x xs)
  then show ?case by (cases xs) simp_all
qed simp

lemma canonical_request_spec:
  assumes "\<And>k v. (k, v) \<in> set hs \<Longrightarrow> lowercase k = k \<and> header_of rhs k = Some v" and "hs \<noteq> []"
  shows "canonical_request_of verb uri query hs payload = spec_canonical verb uri query rhs (map fst hs) payload"
proof -
  have names: "map (\<lambda>(k, v). lowercase k) hs = map fst hs" using assms(1) by auto
  have "map (header_line rhs) (map fst hs) = map (\<lambda>x. x @ NL) (map (\<lambda>(k, v). lowercase k @ '':'' @ trim v) hs)"
    using assms(1) by (auto simp: header_line_def)
  then have "concat (map (header_line rhs) (map fst hs)) =
      concat (map (\<lambda>x. x @ NL) (map (\<lambda>(k, v). lowercase k @ '':'' @ trim v) hs))"
    by (rule arg_cong)
  also have "\<dots> = join NL (map (\<lambda>(k, v). lowercase k @ '':'' @ trim v) hs) @ NL"
    by (rule join_lines [symmetric]) (simp add: assms(2))
  finally show ?thesis by (simp add: canonical_request_of_def spec_canonical_def names)
qed

text \<open>Neither the hash nor the authentication code has collisions.\<close>

definition collision_free :: "lib \<Rightarrow> 'o s3 \<Rightarrow> bool" where
  "collision_free L S \<longleftrightarrow> inj (s3_sha256 S) \<and>
     (\<forall>k d d' m. hmac_sha256 L k d = Inr m \<and> hmac_sha256 L k d' = Inr m \<longrightarrow> d = d')"

lemma spec_signature_binds:
  assumes "collision_free L S" and "spec_signature L S secret reg stamp creq = Some s"
    and "spec_signature L S secret reg stamp creq' = Some s"
  shows "creq = creq'"
proof -
  obtain k m where "hmac_sha256 L k (spec_string_to_sign S stamp reg creq) = Inr m"
      "hmac_sha256 L k (spec_string_to_sign S stamp reg creq') = Inr m"
    using assms(2,3) by (auto simp: spec_signature_def spec_scope_def split: sum.splits dest!: hex_encode_inj)
  with assms(1) have "spec_string_to_sign S stamp reg creq = spec_string_to_sign S stamp reg creq'"
    by (auto simp: collision_free_def)
  then have "s3_sha256 S creq = s3_sha256 S creq'"
    by (auto simp: spec_string_to_sign_def dest!: hex_encode_inj)
  with assms(1) show ?thesis by (auto simp: collision_free_def dest: injD)
qed

end
