(* ===== verification/Storage_Signing.thy ===== *)
theory Storage_Signing
  imports Sig_V4 "HOL-Library.Multiset"
begin

text \<open>
  The requests of the storage client against the specification in \<open>Sig_V4\<close>: when the path and the query of a URL are in
  canonical form, a service that checks signatures accepts the request that the client signs for it.
\<close>

section \<open>URLs that parse back\<close>

definition query_text :: "string \<Rightarrow> bool" where
  "query_text q \<longleftrightarrow> (\<forall>c \<in> set q. unreserved c \<or> c \<in> {CHR ''&'', CHR ''='', CHR ''%''})"

lemma query_text_simps [simp]:
  "query_text []" "query_text (c # s) \<longleftrightarrow> (unreserved c \<or> c \<in> {CHR ''&'', CHR ''='', CHR ''%''}) \<and> query_text s"
  "query_text (s @ t) \<longleftrightarrow> query_text s \<and> query_text t"
  by (auto simp: query_text_def)

text \<open>
  More of the documented behaviour of the \<open>url\<close> crate: unreserved characters of a path are kept, the text of a URL
  parses to it, and a query appended to a URL without one becomes its query. A time stamp of \<open>chrono\<close> has digits and letters.
\<close>

locale signing_service = url_service S esc for S :: "'o s3" and esc +
  assumes esc_unreserved: "all_unreserved s \<Longrightarrow> esc s = s"
    and reparse: "s3_join S base (CHR ''/'' # p) = Inr u \<Longrightarrow> printable p \<Longrightarrow>
      s3_parse S (url_text u) = Inr u \<and> url_query u = None"
    and requery: "s3_join S base (CHR ''/'' # p) = Inr u \<Longrightarrow> printable p \<Longrightarrow> query_text q \<Longrightarrow> q \<noteq> [] \<Longrightarrow>
      s3_parse S (url_text u @ CHR ''?'' # q) = Inr (u\<lparr>url_text := url_text u @ CHR ''?'' # q, url_query := Some q\<rparr>)"
    and stamp: "all_unreserved (s3_stamp S t)"

text \<open>A name of a bucket or of an object whose segments need no encoding and are not dots.\<close>

definition simple_segment :: "string \<Rightarrow> bool" where
  "simple_segment s \<longleftrightarrow> s \<noteq> [] \<and> all_unreserved s \<and> \<not> double_dot s \<and> \<not> single_dot s"

definition simple_key :: "string \<Rightarrow> bool" where
  "simple_key key \<longleftrightarrow> (\<forall>s \<in> set (split_on (CHR ''/'') key). simple_segment s)"

lemma unreserved_printable: "all_unreserved s \<Longrightarrow> printable s"
  by (induction s) (auto dest: unreserved_byte)

lemma simple_key_chars:
  assumes "simple_key key" and "c \<in> set key"
  shows "unreserved c \<or> c = CHR ''/''"
proof -
  have "c = CHR ''/'' \<or> (\<exists>s \<in> set ps. c \<in> set s)" if "c \<in> set (join ''/'' ps)" for ps :: "string list"
    using that by (induction "''/''" ps rule: join.induct) auto
  from this [of "split_on (CHR ''/'') key"] assms show ?thesis
    by (auto simp: join_split_on simple_key_def simple_segment_def all_unreserved_def)
qed

lemma canonical_uri_simple: "(\<And>c. c \<in> set p \<Longrightarrow> unreserved c \<or> c = CHR ''/'') \<Longrightarrow> canonical_uri p = p"
proof -
  assume p: "\<And>c. c \<in> set p \<Longrightarrow> unreserved c \<or> c = CHR ''/''"
  have "CHR ''%'' \<notin> set p" using p [of "CHR ''%''"] by auto
  then have "percent_decode p = p" by (rule decode_no_percent)
  moreover have "uri_encode_path p = p"
    using p by (induction p) (auto simp: uri_encode_path_def encode_char_def)
  ultimately show ?thesis by (simp add: canonical_uri_def)
qed

context signing_service
begin

lemma object_url_path:
  assumes "object_url S ep c key = Inr u" and "simple_segment (bucket c)" and "printable key" and "CHR 0x5C \<notin> set key"
    and "\<And>s. s \<in> set (split_on (CHR ''/'') key) \<Longrightarrow> esc s = s \<and> \<not> double_dot s \<and> \<not> single_dot s"
  obtains base where "s3_join S base (CHR ''/'' # bucket c @ CHR ''/'' # key) = Inr u"
    and "printable (bucket c @ CHR ''/'' # key)" and "url_path u = CHR ''/'' # bucket c @ CHR ''/'' # key"
proof -
  let ?p = "bucket c @ CHR ''/'' # key"
  obtain base where j: "s3_join S base (CHR ''/'' # ?p) = Inr u"
    using assms(1) by (auto simp: object_url_def build_object_url_def map_err_def split: sum.splits if_splits)
  have bkt: "all_unreserved (bucket c)" and pr: "printable ?p"
    using assms(2,3) unreserved_printable by (auto simp: simple_segment_def)
  have "\<not> slash (hd ?p)"
    using assms(2) by (cases "bucket c") (auto simp: simple_segment_def slash_def)
  then have path: "url_path u = path_of esc ?p"
    using join [OF j] pr by (simp add: printable_input)
  have seg: "segments ?p = bucket c # split_on (CHR ''/'') key"
  proof -
    have "CHR 0x5C \<notin> set ?p" "CHR ''/'' \<notin> set (bucket c)" using bkt assms(4) by (auto simp: all_unreserved_def)
    moreover from this have "map (\<lambda>c. if slash c then CHR ''/'' else c) ?p = ?p"
      by (intro map_idI) (auto simp: slash_def)
    ultimately show ?thesis by (simp add: segments_def split_on_append)
  qed
  have kept: "esc s = s \<and> \<not> double_dot s \<and> \<not> single_dot s" if "s \<in> set (segments ?p)" for s
    using that assms(2,5) esc_unreserved by (auto simp: seg simple_segment_def)
  then have "resolve [] (segments ?p @ []) = resolve (rev (segments ?p) @ []) []"
    by (intro resolve_append) blast
  then have "url_path u = concat (map (\<lambda>s. CHR ''/'' # s) (bucket c # split_on (CHR ''/'') key))"
    unfolding path path_of_def printable_path [OF pr] using kept
    by (auto simp: seg intro!: arg_cong [where f = concat])
  moreover have "concat (map (\<lambda>s. CHR ''/'' # s) ps) = CHR ''/'' # join ''/'' ps" if "ps \<noteq> []" for ps
    using that by (induction "''/''" ps rule: join.induct) auto
  ultimately have "url_path u = CHR ''/'' # ?p"
    by (simp add: join_split_on)
  then show thesis using that j pr by blast
qed

lemma object_url_simple:
  assumes "object_url S ep c key = Inr u" and "simple_segment (bucket c)" and "simple_key key"
  obtains base where "s3_join S base (CHR ''/'' # bucket c @ CHR ''/'' # key) = Inr u"
    and "printable (bucket c @ CHR ''/'' # key)" and "url_path u = CHR ''/'' # bucket c @ CHR ''/'' # key"
    and "canonical_uri (url_path u) = url_path u"
proof -
  have chars: "unreserved ch \<or> ch = CHR ''/''" if "ch \<in> set (CHR ''/'' # bucket c @ CHR ''/'' # key)" for ch
    using that assms(2) simple_key_chars [OF assms(3)] by (auto simp: simple_segment_def all_unreserved_def)
  have key: "printable key" "CHR 0x5C \<notin> set key"
    using simple_key_chars [OF assms(3)] unreserved_byte by (force simp: printable_def)+
  have "esc s = s \<and> \<not> double_dot s \<and> \<not> single_dot s" if "s \<in> set (split_on (CHR ''/'') key)" for s
    using that assms(3) esc_unreserved by (auto simp: simple_key_def simple_segment_def)
  from object_url_path [OF assms(1,2) key this] obtain base where
    "s3_join S base (CHR ''/'' # bucket c @ CHR ''/'' # key) = Inr u" "printable (bucket c @ CHR ''/'' # key)"
    and path: "url_path u = CHR ''/'' # bucket c @ CHR ''/'' # key"
    by metis
  moreover have "canonical_uri (url_path u) = url_path u" unfolding path by (rule canonical_uri_simple) (rule chars)
  ultimately show thesis by (rule that)
qed

end

section \<open>Links in canonical form\<close>

definition query_of :: "url \<Rightarrow> string" where
  "query_of u = (case url_query u of Some q \<Rightarrow> q | None \<Rightarrow> [])"

definition canonical_link :: "'o s3 \<Rightarrow> string \<Rightarrow> bool" where
  "canonical_link S link = (case s3_parse S link of Inl _ \<Rightarrow> False
     | Inr u \<Rightarrow> canonical_uri (url_path u) = url_path u \<and> canonical_query (query_params (query_of u)) = query_of u)"

lemma canonical_query_Nil [simp]: "canonical_query (query_params []) = []"
  by (simp add: canonical_query_def query_params_def)

lemma split_once_word: "CHR ''='' \<notin> set k \<Longrightarrow> split_once (CHR ''='') (k @ CHR ''='' # v) = Some (k, v)"
  by (rule split_once_append)

lemma unreserved_digits: "all_unreserved (show_nat n)"
  using show_nat_digits [of n] by (auto simp: all_unreserved_def unreserved_def plain_char_def list_all_iff)

lemma unreserved_absent: "all_unreserved s \<Longrightarrow> \<not> unreserved c \<Longrightarrow> c \<notin> set s"
  by (auto simp: all_unreserved_def)

lemma words_unreserved [simp]:
  "all_unreserved ''uploadId''" "all_unreserved ''partNumber''" "all_unreserved ''X-Amz-Algorithm''"
  "all_unreserved ''X-Amz-Credential''" "all_unreserved ''X-Amz-Date''" "all_unreserved ''X-Amz-Expires''"
  "all_unreserved ''X-Amz-SignedHeaders''" "all_unreserved ''X-Amz-Signature''" "all_unreserved ''AWS4-HMAC-SHA256''"
  "all_unreserved ''host''" "all_unreserved ''s3''" "all_unreserved ''aws4_request''" "all_unreserved ''2F''"
  by (simp_all add: unreserved_def plain_char_def is_digit_def byte_def)

lemma query_param:
  assumes "all_unreserved k"
  shows "(case split_once (CHR ''='') (k @ CHR ''='' # v) of
      Some (k, v) \<Rightarrow> (percent_decode k, percent_decode v) | None \<Rightarrow> (percent_decode (k @ CHR ''='' # v), [])) =
    (k, percent_decode v)"
  using split_once_append [OF unreserved_absent [OF assms(1)], of "CHR ''=''" v] assms by (simp add: decode_unreserved)

lemma query_params_one:
  assumes "all_unreserved k" and "CHR ''&'' \<notin> set v"
  shows "query_params (k @ CHR ''='' # v) = [(k, percent_decode v)]"
proof -
  have "CHR ''&'' \<notin> set (k @ CHR ''='' # v)" using assms by (auto simp: all_unreserved_def)
  then show ?thesis using query_param [OF assms(1), of v] by (simp add: query_params_def split_on_id)
qed

lemma query_params_Cons:
  assumes "all_unreserved k" and "CHR ''&'' \<notin> set v" and "q \<noteq> []"
  shows "query_params (k @ CHR ''='' # v @ CHR ''&'' # q) = (k, percent_decode v) # query_params q"
proof -
  have "CHR ''&'' \<notin> set (k @ CHR ''='' # v)" using assms by (auto simp: all_unreserved_def)
  then have "split_on (CHR ''&'') (k @ CHR ''='' # v @ CHR ''&'' # q) = (k @ CHR ''='' # v) # split_on (CHR ''&'') q"
    using split_on_append [of "CHR ''&''" "k @ CHR ''='' # v" q] by simp
  then show ?thesis using query_param [OF assms(1), of v] assms(3) by (simp add: query_params_def)
qed

lemmas words_encoded [simp] = words_unreserved [THEN encode_unreserved]

lemma canonical_query_sorted:
  assumes "\<forall>k \<in> set (map fst ps). uri_encode k = k" and "sorted (map fst ps)" and "distinct (map fst ps)"
  shows "canonical_query ps = join ''&'' (map (\<lambda>(k, v). k @ ''='' @ uri_encode v) ps)"
proof -
  let ?qs = "map (map_prod uri_encode uri_encode) ps"
  have keys: "map fst ?qs = map fst ps" using assms(1) by auto
  then have "sorted (map fst ?qs)" and d: "distinct (map fst ?qs)" using assms by (simp_all only:)
  moreover have "inj_on fst (set (sort_key snd ?qs))" using d unfolding distinct_map by simp
  ultimately have "sort_key fst (sort_key snd ?qs) = ?qs" by (intro sort_key_inj_key_eq) simp_all
  moreover have "map (\<lambda>(k, v). k @ ''='' @ v) ?qs = map (\<lambda>(k, v). k @ ''='' @ uri_encode v) ps" using assms(1) by auto
  ultimately show ?thesis by (simp only: canonical_query_def)
qed

lemma upload_query:
  assumes "all_unreserved i"
  shows "canonical_query (query_params (''uploadId='' @ i)) = ''uploadId='' @ i"
  using query_params_one [OF words_unreserved(1), of i] unreserved_absent [OF assms, of "CHR ''&''"] assms
  by (auto simp: canonical_query_sorted decode_unreserved encode_unreserved)

lemma part_query:
  assumes "all_unreserved i"
  shows "canonical_query (query_params (''partNumber='' @ show_nat n @ ''&uploadId='' @ i)) =
    ''partNumber='' @ show_nat n @ ''&uploadId='' @ i"
  using query_params_Cons [OF words_unreserved(2), of "show_nat n" "''uploadId='' @ i"]
    query_params_one [OF words_unreserved(1), of i] unreserved_absent [OF assms, of "CHR ''&''"]
    unreserved_absent [OF unreserved_digits, of "CHR ''&''" n] assms unreserved_digits [of n]
  by (auto simp: canonical_query_sorted decode_unreserved encode_unreserved)

section \<open>Requests that carry their signature\<close>

lemma headers_to_sign_eq:
  "headers_to_sign host payload stamp ct =
     (if ct = [] then [] else [(''content-type'', ct)]) @
     [(''host'', host), (''x-amz-content-sha256'', payload), (''x-amz-date'', stamp)]"
  by (simp add: headers_to_sign_def)

text \<open>The headers of the client's requests: those of the signature, and the content type where there is one.\<close>

definition carries :: "string \<Rightarrow> signed_request \<Rightarrow> (string \<times> string) list \<Rightarrow> bool" where
  "carries ct s hs \<longleftrightarrow> hs = sig_headers s \<and> ct = [] \<or> hs = (''Content-Type'', ct) # sig_headers s \<or>
     hs = sig_headers s @ [(''Content-Type'', ct)]"

lemma header_names [simp]:
  "lowercase ''Host'' = ''host''" "lowercase ''X-Amz-Date'' = ''x-amz-date''" "lowercase ''Authorization'' = ''authorization''"
  "lowercase ''X-Amz-Content-Sha256'' = ''x-amz-content-sha256''" "lowercase ''Content-Type'' = ''content-type''"
  by code_simp+

lemma lower_names [simp]:
  "lowercase ''host'' = ''host''" "lowercase ''x-amz-date'' = ''x-amz-date''"
  "lowercase ''x-amz-content-sha256'' = ''x-amz-content-sha256''" "lowercase ''content-type'' = ''content-type''"
  by code_simp+

lemma carried:
  assumes "carries ct s hs"
  shows "header_of hs ''host'' = Some (sr_host s)" "header_of hs ''x-amz-date'' = Some (sr_amz_date s)"
    "header_of hs ''x-amz-content-sha256'' = Some (sr_payload_hash s)"
    "header_of hs ''authorization'' = Some (sr_authorization s)"
    "ct \<noteq> [] \<Longrightarrow> header_of hs ''content-type'' = Some ct"
  using assms by (auto simp: carries_def sig_headers_def header_of_def)

text \<open>
  What the service compares: the signature of the canonical request, and the one of the request as the
  client wrote it.
\<close>

lemma sent_with_signature:
  assumes "sign_request_inner L S c verb link ct payload now = Inr s" and "s3_parse S link = Inr u" and "carries ct s hs"
    and "payload_matches S \<lparr>rq_method = verb, rq_url = link, rq_headers = hs, rq_body = bdy\<rparr> payload"
  obtains names signature where
    "spec_signature L S (storage_secret c) (region c) (s3_stamp S now)
       (spec_canonical verb (url_path u) (query_of u) hs names payload) = Some signature"
    and "request_signed L S c \<lparr>rq_method = verb, rq_url = link, rq_headers = hs, rq_body = bdy\<rparr> \<longleftrightarrow>
      spec_signature L S (storage_secret c) (region c) (s3_stamp S now)
       (spec_canonical verb (canonical_uri (url_path u)) (canonical_query (query_params (query_of u))) hs names payload) =
      Some signature"
proof -
  let ?stamp = "s3_stamp S now"
  define host where "host = (case url_host u of Some h \<Rightarrow> h | None \<Rightarrow> ''localhost'')"
  define hd where "hd = headers_to_sign host payload ?stamp ct"
  define creq where "creq = canonical_request_of verb (url_path u) (query_of u) hd payload"
  obtain signature where
    sig: "spec_signature L S (storage_secret c) (region c) ?stamp creq = Some signature"
    and s: "s = \<lparr>sr_host = host, sr_amz_date = ?stamp, sr_payload_hash = payload,
      sr_authorization = ''AWS4-HMAC-SHA256 Credential='' @ access_key c @ ''/'' @ credential_scope_of c (take 8 ?stamp) @
        '', SignedHeaders='' @ join '';'' (map (\<lambda>(k, v). lowercase k) hd) @ '', Signature='' @ signature\<rparr>"
    using assms(1,2)
    by (auto simp: sign_request_inner_def Let_def hd_def creq_def host_def query_of_def
        simp flip: signing_signature_spec split: sum.splits)
  have names: "map fst hd = (if ct = [] then [] else [''content-type'']) @ [''host'', ''x-amz-content-sha256'', ''x-amz-date'']"
    by (simp add: hd_def headers_to_sign_eq)
  have hd: "lowercase k = k \<and> header_of hs k = Some v" if "(k, v) \<in> set hd" for k v
    using that carried [OF assms(3)] by (auto simp: hd_def headers_to_sign_eq s split: if_splits)
  have creq: "creq = spec_canonical verb (url_path u) (query_of u) hs (map fst hd) payload"
    unfolding creq_def by (rule canonical_request_spec [OF hd]) (simp_all add: hd_def headers_to_sign_eq)
  have lower: "map (\<lambda>(k, v). lowercase k) hd = map fst hd" using hd by auto
  define rest where "rest = join '';'' (map fst hd) @ '', Signature='' @ signature"
  have "sr_authorization s = authorization_start (access_key c) (region c) ?stamp @ rest"
    by (simp add: s lower authorization_start_def credential_scope_of_def spec_scope_def rest_def)
  then have looked: "header_of hs ''x-amz-date'' = Some ?stamp" "header_of hs ''x-amz-content-sha256'' = Some payload"
      "header_of hs ''authorization'' = Some (authorization_start (access_key c) (region c) ?stamp @ rest)"
    using carried(2-4) [OF assms(3)] by (simp_all add: s)
  have listed: "split_on (CHR '';'') (takeWhile (\<lambda>ch. ch \<noteq> CHR '','') rest) = map fst hd"
    by (simp add: names rest_def)
  have enough: "names_enough hs (map fst hd)"
    using assms(3) by (auto simp: names_enough_def names carries_def sig_headers_def starts_with_def)
  have "request_signed L S c \<lparr>rq_method = verb, rq_url = link, rq_headers = hs, rq_body = bdy\<rparr> \<longleftrightarrow>
      spec_signature L S (storage_secret c) (region c) ?stamp (spec_canonical verb (canonical_uri (url_path u))
        (canonical_query (query_params (query_of u))) hs (map fst hd) payload) = Some signature"
    unfolding request_signed_def using enough assms(4)
    by (simp add: Let_def looked assms(2) listed flip: query_of_def) (auto simp: rest_def split: option.split)
  with sig show thesis by (intro that [of "map fst hd" signature]) (simp_all only: creq)
qed

lemma sent_as_signed:
  assumes "sign_request_inner L S c verb link ct payload now = Inr s" and "canonical_link S link" and "carries ct s hs"
    and "payload_matches S \<lparr>rq_method = verb, rq_url = link, rq_headers = hs, rq_body = bdy\<rparr> payload"
  shows "request_signed L S c \<lparr>rq_method = verb, rq_url = link, rq_headers = hs, rq_body = bdy\<rparr>"
proof -
  obtain u where u: "s3_parse S link = Inr u" "canonical_uri (url_path u) = url_path u"
      "canonical_query (query_params (query_of u)) = query_of u"
    using assms(2) by (auto simp: canonical_link_def split: sum.splits)
  show ?thesis
    by (rule sent_with_signature [OF assms(1) u(1) assms(3,4)]) (simp add: u)
qed

section \<open>A service that checks signatures serves the client\<close>

lemma sign_request_guarded [simp]:
  "sign_request_inner L (guarded L' c S) c' verb link ct payload now = sign_request_inner L S c' verb link ct payload now"
  "sign_request L (guarded L' c S) c' verb link ct bdy now = sign_request L S c' verb link ct bdy now"
  "sign_request_unsigned L (guarded L' c S) c' verb link ct now = sign_request_unsigned L S c' verb link ct now"
  by (simp_all add: sign_request_def sign_request_unsigned_def sign_request_inner_def string_to_sign_of_def sha256_hex_def
      cong: sum.case_cong)

lemma signed_at_guarded [simp]: "signed_at E (guarded L c S) c' verb link ct p = signed_at E S c' verb link ct p"
  unfolding signed_at_def sign_request_guarded ..

lemma object_url_guarded [simp]: "object_url (guarded L c S) ep c' key = object_url S ep c' key"
  unfolding object_url_def build_object_url_def guarded_sel ..

lemma send_to_guarded:
  "request_signed L S c \<lparr>rq_method = verb, rq_url = link, rq_headers = hs, rq_body = bdy\<rparr> \<Longrightarrow>
   send_to E (guarded L c S) what verb link hs bdy = send_to E S what verb link hs bdy"
  by (simp add: send_to_def guarded_def)

lemma attempt_bind_Ret: "attempt (bind p (\<lambda>a. Ret (f a))) k = bind p (\<lambda>a. case f a of Inl e \<Rightarrow> Ret (Inl e) | Inr b \<Rightarrow> k b)"
  by (simp add: attempt_def bind_bind)

text \<open>What follows a signature has to be known for the signatures the signer makes only.\<close>

lemma attempt_signed_cong:
  assumes "\<And>s now. sign_request_inner (e_lib E) S c verb link ct
      (case p of Some b \<Rightarrow> sha256_hex S b | None \<Rightarrow> ''UNSIGNED-PAYLOAD'') now = Inr s \<Longrightarrow> k s = k' s"
  shows "attempt (signed_at E S c verb link ct p) k = attempt (signed_at E S c verb link ct p) k'"
proof -
  have "(case (case p of Some b \<Rightarrow> sign_request (e_lib E) S c verb link ct b now
        | None \<Rightarrow> sign_request_unsigned (e_lib E) S c verb link ct now) of Inl e \<Rightarrow> Ret (Inl e) | Inr s \<Rightarrow> k s) =
      (case (case p of Some b \<Rightarrow> sign_request (e_lib E) S c verb link ct b now
        | None \<Rightarrow> sign_request_unsigned (e_lib E) S c verb link ct now) of Inl e \<Rightarrow> Ret (Inl e) | Inr s \<Rightarrow> k' s)" for now
    using assms [of now] by (cases p) (auto simp: sign_request_def sign_request_unsigned_def split: sum.split)
  then show ?thesis by (simp add: signed_at_def attempt_bind_Ret)
qed

lemma signed_send_guarded:
  assumes "canonical_link S link" and "\<And>s. carries ct s (hs s)" and "case p of None \<Rightarrow> True | Some b \<Rightarrow> b = bdy"
  shows "attempt (signed_at E S c verb link ct p) (\<lambda>s.
      attempt (send_to E (guarded (e_lib E) c S) what verb link (hs s) bdy) k) =
    attempt (signed_at E S c verb link ct p) (\<lambda>s. attempt (send_to E S what verb link (hs s) bdy) k)"
proof (rule attempt_signed_cong)
  fix s now
  assume sign: "sign_request_inner (e_lib E) S c verb link ct
    (case p of Some b \<Rightarrow> sha256_hex S b | None \<Rightarrow> ''UNSIGNED-PAYLOAD'') now = Inr s"
  have "request_signed (e_lib E) S c \<lparr>rq_method = verb, rq_url = link, rq_headers = hs s, rq_body = bdy\<rparr>"
    by (rule sent_as_signed [OF sign assms(1,2)])
      (use assms(3) in \<open>auto simp: payload_matches_def sha256_hex_def split: option.splits\<close>)
  then show "attempt (send_to E (guarded (e_lib E) c S) what verb link (hs s) bdy) k =
      attempt (send_to E S what verb link (hs s) bdy) k"
    by (simp add: send_to_guarded)
qed

lemma carries_simps [simp]:
  "carries [] s (sig_headers s)" "carries ct s ((''Content-Type'', ct) # sig_headers s)"
  by (simp_all add: carries_def)

section \<open>An instance\<close>

lemma split_on_subset: "s \<in> set (split_on c t) \<Longrightarrow> set s \<subseteq> set t"
proof (induction t arbitrary: s)
  case (Cons a t)
  then have "s = [] \<or> s \<in> set (split_on c t) \<or> (\<exists>r \<in> set (split_on c t). s = a # r)"
    by (cases "split_on c t") (auto split: if_splits)
  with Cons.IH show ?case by fastforce
qed simp

lemma resolve_set: "x \<in> set (resolve st ss) \<Longrightarrow> x \<in> set st \<or> x \<in> set ss \<or> x = []"
proof (induction st ss rule: resolve.induct)
  case (2 st s ss)
  have "x \<in> set (tl st) \<Longrightarrow> x \<in> set st" by (cases st) auto
  with 2 show ?case by (auto split: if_splits)
qed simp

lemma resolve_not_Nil: "ss \<noteq> [] \<Longrightarrow> resolve st ss \<noteq> []"
proof (induction st ss rule: resolve.induct)
  case (2 st s ss)
  then show ?case by (cases ss) simp_all
qed simp

lemma path_of_chars:
  assumes "c \<in> set (path_of (\<lambda>s. s) p)"
  shows "c = CHR ''/'' \<or> c \<in> set p"
proof -
  have "set s \<subseteq> insert (CHR ''/'') (set p)" if "s \<in> set (segments (path_part p))" for s
    using that split_on_subset [of s] by (fastforce simp: segments_def path_part_def dest: set_takeWhileD)
  moreover obtain s where "s \<in> set (resolve [] (segments (path_part p)))" "c \<in> set (''/'' @ s)"
    using assms by (simp only: path_of_def set_concat set_map) blast
  ultimately show ?thesis using resolve_set [of s "[]" "segments (path_part p)"] by auto
qed

lemma path_of_not_Nil: "path_of esc p \<noteq> []"
  using resolve_not_Nil [of "segments (path_part p)" "[]"] by (cases "resolve [] (segments (path_part p))")
    (simp_all add: path_of_def segments_def)

lemma ref_join_url_eq:
  assumes "ref_join_url base (CHR ''/'' # p) = Inr u" and "printable p"
  obtains path where "u = \<lparr>url_text = ''http://h'' @ path, url_host = Some ''h'', url_path = path, url_query = None\<rparr>"
    and "path \<noteq> []" and "CHR ''?'' \<notin> set path"
proof -
  have "url_input (CHR ''/'' # p) = CHR ''/'' # p" using assms(2) by (intro printable_input) simp
  then have "u = \<lparr>url_text = ''http://h'' @ path_of (\<lambda>s. s) p, url_host = Some ''h'', url_path = path_of (\<lambda>s. s) p,
      url_query = None\<rparr>"
    using assms(1) by (auto simp: ref_join_url_def Let_def)
  moreover have "CHR ''?'' \<notin> set (path_of (\<lambda>s. s) p)"
    using path_of_chars [of "CHR ''?''" p] assms(2) by (auto simp: printable_def)
  ultimately show thesis using that path_of_not_Nil by blast
qed

lemma take_drop_no:
  assumes "c \<notin> set p"
  shows "takeWhile (\<lambda>x. x \<noteq> c) p = p" "dropWhile (\<lambda>x. x \<noteq> c) p = []"
    "takeWhile (\<lambda>x. x \<noteq> c) (p @ c # q) = p" "dropWhile (\<lambda>x. x \<noteq> c) (p @ c # q) = c # q"
  using assms by (induction p) auto

interpretation ref_signing: signing_service ref_s3 "\<lambda>s. s"
proof unfold_locales
  fix base p u
  assume "s3_join ref_s3 base (CHR ''/'' # p) = Inr u" and p: "printable p"
  then have "ref_join_url base (CHR ''/'' # p) = Inr u" by (simp add: ref_s3_def)
  then obtain path where u: "u = \<lparr>url_text = ''http://h'' @ path, url_host = Some ''h'', url_path = path, url_query = None\<rparr>"
    and path: "path \<noteq> []" "CHR ''?'' \<notin> set path"
    using p by (rule ref_join_url_eq)
  then show "s3_parse ref_s3 (url_text u) = Inr u \<and> url_query u = None"
    by (auto simp: ref_s3_def ref_parse_url_def take_drop_no split: list.split)
  fix q
  show "s3_parse ref_s3 (url_text u @ CHR ''?'' # q) =
      Inr (u\<lparr>url_text := url_text u @ CHR ''?'' # q, url_query := Some q\<rparr>)"
    using path by (auto simp: u ref_s3_def ref_parse_url_def take_drop_no split: list.split)
next
  fix t show "all_unreserved (s3_stamp ref_s3 t)"
    by (simp add: ref_s3_def unreserved_def plain_char_def is_digit_def byte_def)
qed (rule refl)

definition demo_storage :: storage_config where
  "demo_storage = \<lparr>endpoint = ''http://h'', public_endpoint = ''http://h'', access_key = ''AK'', storage_secret = ''secret'',
     bucket = ''files'', region = ''us-east-1'', auto_create_bucket = True\<rparr>"

lemma demo_simple: "simple_segment (bucket demo_storage)" "simple_key ''users/u1/a.txt''"
  by code_simp+

lemma demo_object_url: "\<exists>u. object_url ref_s3 ''http://h'' demo_storage ''users/u1/a.txt'' = Inr u"
  using ref_urls_total [of "bucket demo_storage" "''users/u1/a.txt''"] unfolding object_url_def by (metis map_err_simps(2))

lemma ref_collision_free: "collision_free ref_lib ref_s3"
proof -
  have "inj (s3_sha256 ref_s3)" by (rule injI) (simp add: ref_s3_def as_bytes_inject [unfolded as_bytes_def])
  moreover have "d = d'" if "hmac_sha256 ref_lib k d = Inr m" "hmac_sha256 ref_lib k d' = Inr m" for k d d' m
  proof -
    have "pack [k, d] = pack [k, d']"
      using that by (auto simp: ref_lib_def as_bytes_inject [unfolded as_bytes_def])
    then have "unpack [] (pack [k, d]) = unpack [] (pack [k, d'])" by simp
    then show ?thesis by (simp only: unpack_pack option.inject list.inject)
  qed
  ultimately show ?thesis by (auto simp: collision_free_def)
qed

end
