(* ===== verification/Storage_Served.thy ===== *)
theory Storage_Served
  imports Storage_Signing
begin

text \<open>
  Which requests of the storage client a service that checks signatures serves: the client signs the path and the query
  of a URL as the \<open>url\<close> crate writes them, so everything rests on which of them the crate writes in canonical form.
\<close>

section \<open>Keys the URL library leaves alone\<close>

text \<open>The characters of a segment that RFC 3986 allows as they are, and which the crate so keeps.\<close>

definition path_char :: "char \<Rightarrow> bool" where
  "path_char c \<longleftrightarrow> unreserved c \<or> c \<in> set ''!$&'()*+,;=:@''"

definition kept_key :: "string \<Rightarrow> bool" where
  "kept_key key \<longleftrightarrow> (\<forall>s \<in> set (split_on (CHR ''/'') key).
     (\<forall>c \<in> set s. path_char c) \<and> \<not> double_dot s \<and> \<not> single_dot s)"

definition path_text :: "string \<Rightarrow> bool" where
  "path_text s \<longleftrightarrow> (\<forall>c \<in> set s. unreserved c \<or> c = CHR ''/'')"

lemma path_text_simps [simp]:
  "path_text []" "path_text (c # s) \<longleftrightarrow> (unreserved c \<or> c = CHR ''/'') \<and> path_text s"
  "path_text (s @ t) \<longleftrightarrow> path_text s \<and> path_text t"
  by (auto simp: path_text_def)

lemma unreserved_path_text: "all_unreserved s \<Longrightarrow> path_text s"
  by (simp add: all_unreserved_def path_text_def)

lemma path_char_byte: "path_char c \<Longrightarrow> 32 < byte c \<and> c \<notin> set ''%?#/'' \<and> c \<noteq> CHR 0x5C"
  by (auto simp: path_char_def dest: unreserved_byte) (auto simp: byte_def)

lemma join_set: "c \<in> set (join ''/'' ps) \<Longrightarrow> c = CHR ''/'' \<or> (\<exists>s \<in> set ps. c \<in> set s)"
  by (induction "''/''" ps rule: join.induct) auto

lemma kept_key_chars:
  assumes "kept_key key" and "c \<in> set key"
  shows "path_char c \<or> c = CHR ''/''"
  using join_set [of c "split_on (CHR ''/'') key"] assms by (auto simp: join_split_on kept_key_def)

lemma kept_key_printable:
  assumes "kept_key key"
  shows "printable key" and "CHR 0x5C \<notin> set key" and "CHR ''%'' \<notin> set key"
  using kept_key_chars [OF assms] path_char_byte by (force simp: printable_def)+

text \<open>A path is canonical when it needs no encoding.\<close>

lemma encode_path_id:
  assumes "CHR ''%'' \<notin> set p"
  shows "uri_encode_path p = p \<longleftrightarrow> path_text p"
  using assms
proof (induction p)
  case (Cons c p)
  have "uri_encode_path (c # p) = (if c = CHR ''/'' then [c] else encode_char c) @ uri_encode_path p"
    by (simp add: uri_encode_path_def)
  with Cons show ?case by (auto simp: encode_char_def percent_encode_def)
qed (simp add: uri_encode_path_def)

lemma canonical_uri_iff: "CHR ''%'' \<notin> set p \<Longrightarrow> canonical_uri p = p \<longleftrightarrow> path_text p"
  by (simp add: canonical_uri_def decode_no_percent encode_path_id)

section \<open>The pairs of a query\<close>

text \<open>The characters that form data and the canonical query encode alike.\<close>

definition form_text :: "string \<Rightarrow> bool" where
  "form_text s \<longleftrightarrow> (\<forall>c \<in> set s. c \<notin> set ''*~ '')"

lemma form_char_lits:
  "form_char (CHR ''*'') = ''*''" "form_char (CHR ''~'') = ''%7E''" "form_char (CHR '' '') = ''+''"
  "encode_char (CHR ''*'') = ''%2A''" "encode_char (CHR ''~'') = ''~''" "encode_char (CHR ''+'') = ''%2B''"
  by code_simp+

lemma form_char_cases: "c \<notin> set ''*~ '' \<Longrightarrow> form_char c = encode_char c"
  by (auto simp: form_char_def encode_char_def unreserved_def)

lemma form_char_amp: "CHR ''&'' \<notin> set (form_char c)"
proof -
  have "byte (upper_hex n) \<noteq> 38" if "n < 16" for n
    using that by (simp add: upper_hex_code)
  then have hex: "upper_hex n \<noteq> CHR ''&''" if "n < 16" for n
    using that [THEN \<open>\<And>n. n < 16 \<Longrightarrow> byte (upper_hex n) \<noteq> 38\<close>] by (auto simp: byte_def)
  have "\<not> plain_char (CHR ''&'')" by (simp add: plain_char_def is_digit_def byte_def)
  then have "c = CHR ''&'' \<Longrightarrow> form_char c = percent_encode c" by (auto simp: form_char_def)
  moreover have "byte c div 16 < 16" using byte_less [of c] by simp
  then have "CHR ''&'' \<notin> set (percent_encode c)"
    using hex [of "byte c div 16"] hex [of "byte c mod 16"] by (auto simp: percent_encode_def)
  ultimately show ?thesis by (cases "c = CHR ''&''") (auto simp: form_char_def)
qed

lemma decode_form: "percent_decode (form_encode s) = map (\<lambda>c. if c = CHR '' '' then CHR ''+'' else c) s"
proof (induction s)
  case (Cons c s)
  have "\<not> plain_char (CHR '' '')" "\<not> plain_char (CHR ''%'')" by (simp_all add: plain_char_def is_digit_def byte_def)
  then have "percent_decode (form_char c @ form_encode s) = (if c = CHR '' '' then CHR ''+'' else c) # percent_decode (form_encode s)"
    by (cases "c = CHR ''%''"; cases "c = CHR '' ''") (auto simp: form_char_def decode_percent_encode decode_other)
  with Cons show ?case by (simp add: form_encode_def)
qed (simp add: form_encode_def)

lemma encode_form: "uri_encode (map (\<lambda>c. if c = CHR '' '' then CHR ''+'' else c) s) = form_encode s \<longleftrightarrow> form_text s"
proof (induction s)
  case (Cons c s)
  have form: "form_encode (d # t) = form_char d @ form_encode t" "form_text (d # t) \<longleftrightarrow> d \<notin> set ''*~ '' \<and> form_text t" for d t
    by (simp_all add: form_encode_def form_text_def)
  have uri: "uri_encode (d # t) = encode_char d @ uri_encode t" for d t by (simp add: uri_encode_def)
  consider "c = CHR ''*''" | "c = CHR ''~''" | "c = CHR '' ''" | "c \<notin> set ''*~ ''" by auto
  then show ?case
  proof cases
    case 1
    show ?thesis unfolding 1 list.map uri form by (simp add: form_char_lits)
  next
    case 2
    show ?thesis unfolding 2 list.map uri form by (simp add: form_char_lits)
  next
    case 3
    show ?thesis unfolding 3 list.map uri form by (simp add: form_char_lits)
  next
    case 4
    then have "c \<noteq> CHR '' ''" by auto
    then show ?thesis using Cons 4 unfolding list.map form uri form_char_cases [OF 4] by (simp only: if_False same_append_eq simp_thms)
  qed
qed (simp add: uri_encode_def form_encode_def form_text_def)

lemma list_query:
  defines "q \<equiv> \<lambda>prefix. form_query [(''list-type'', ''2''), (''prefix'', prefix)]"
  shows "canonical_query (query_params (q prefix)) = q prefix \<longleftrightarrow> form_text prefix"
proof -
  let ?d = "map (\<lambda>c. if c = CHR '' '' then CHR ''+'' else c) prefix"
  have words: "all_unreserved ''list-type''" "all_unreserved ''prefix''" "all_unreserved ''2''"
    "form_encode ''list-type'' = ''list-type''" "form_encode ''prefix'' = ''prefix''" "form_encode ''2'' = ''2''"
    by code_simp+
  have q: "q prefix = ''list-type'' @ CHR ''='' # ''2'' @ CHR ''&'' # ''prefix'' @ CHR ''='' # form_encode prefix"
    by (simp add: q_def form_query_def words)
  have "CHR ''&'' \<notin> set (form_encode prefix)" using form_char_amp by (auto simp: form_encode_def)
  from query_params_one [OF words(2) this]
  have "query_params (''prefix'' @ CHR ''='' # form_encode prefix) = [(''prefix'', ?d)]"
    by (simp only: decode_form)
  then have "query_params (q prefix) = [(''list-type'', ''2''), (''prefix'', ?d)]"
    unfolding q by (subst query_params_Cons [OF words(1)]) (simp_all only: decode_unreserved [OF words(3)], simp_all)
  moreover have "canonical_query [(''list-type'', ''2''), (''prefix'', ?d)] =
      join ''&'' (map (\<lambda>(k, v). k @ ''='' @ uri_encode v) [(''list-type'', ''2''), (''prefix'', ?d)])"
    by (rule canonical_query_sorted) (simp_all only: list.map set_simps ball_simps fst_conv encode_unreserved words, simp_all)
  ultimately have "canonical_query (query_params (q prefix)) = ''list-type=2&prefix='' @ uri_encode ?d"
    using encode_unreserved [OF words(3)] by (simp only: list.map split_conv join.simps) simp
  then show ?thesis unfolding q encode_form [symmetric] by (simp only: append_Cons append_Nil list.inject simp_thms)
qed

section \<open>Requests signed in another form are refused\<close>

text \<open>Exactly one of the path and the query of the URL is in canonical form.\<close>

definition half_canonical :: "'o s3 \<Rightarrow> string \<Rightarrow> bool" where
  "half_canonical S link = (case s3_parse S link of Inl _ \<Rightarrow> False
     | Inr u \<Rightarrow> (canonical_uri (url_path u) = url_path u) \<noteq> (canonical_query (query_params (query_of u)) = query_of u))"

lemma spec_canonical_half:
  assumes "spec_canonical verb uri q hs names payload = spec_canonical verb uri' q' hs names payload"
  shows "uri = uri' \<longleftrightarrow> q = q'"
  using assms by (auto simp: spec_canonical_def)

lemma half_canonical_unsigned:
  assumes "collision_free L S" and "half_canonical S link"
    and "sign_request_inner L S c verb link ct payload now = Inr s" and "carries ct s hs"
    and "payload_matches S \<lparr>rq_method = verb, rq_url = link, rq_headers = hs, rq_body = bdy\<rparr> payload"
  shows "\<not> request_signed L S c \<lparr>rq_method = verb, rq_url = link, rq_headers = hs, rq_body = bdy\<rparr>"
proof -
  obtain u where u: "s3_parse S link = Inr u"
    and half: "(canonical_uri (url_path u) = url_path u) \<noteq> (canonical_query (query_params (query_of u)) = query_of u)"
    using assms(2) by (auto simp: half_canonical_def split: sum.splits)
  show ?thesis
    by (rule sent_with_signature [OF assms(3) u assms(4,5)])
      (use half spec_signature_binds [OF assms(1)] spec_canonical_half in metis)
qed

lemma send_to_refused:
  assumes "\<not> request_signed L S c \<lparr>rq_method = verb, rq_url = link, rq_headers = hs, rq_body = bdy\<rparr>"
    and "run (send_to E (guarded L c S) what verb link hs bdy) w = (Inr resp, w')"
  shows "resp = refused"
  using assms by (auto simp: send_to_def guarded_def run_lift_err_Inr run_os_act)

lemma signed_at_Inr:
  assumes "run (signed_at E S c verb link ct p) w = (Inr s, w')"
  obtains now where "sign_request_inner (e_lib E) S c verb link ct
      (case p of Some b \<Rightarrow> sha256_hex S b | None \<Rightarrow> ''UNSIGNED-PAYLOAD'') now = Inr s"
  using assms by (auto simp: signed_at_def sign_request_def sign_request_unsigned_def run_bind run_Ret_iff
      split: prod.splits option.splits)

text \<open>What holds of the result of a program, wherever it runs.\<close>

definition ends_with :: "('r \<Rightarrow> bool) \<Rightarrow> ('w, 'r) prog \<Rightarrow> bool" where
  "ends_with P p \<longleftrightarrow> (\<forall>w. P (fst (run p w)))"

abbreviation fails :: "('w, 'e + 'a) prog \<Rightarrow> bool" where
  "fails \<equiv> ends_with (\<lambda>r. \<exists>e. r = Inl e)"

abbreviation finds_none :: "('w, 'e + 'a list) prog \<Rightarrow> bool" where
  "finds_none \<equiv> ends_with (\<lambda>r. \<forall>objs. r = Inr objs \<longrightarrow> objs = [])"

lemma ends_with_Ret [simp]: "ends_with P (Ret r) \<longleftrightarrow> P r"
  by (simp add: ends_with_def run_Ret)

lemma ends_with_attempt_Ret:
  "(\<And>e. P (Inl e)) \<Longrightarrow> (\<And>u. r = Inr u \<Longrightarrow> ends_with P (k u)) \<Longrightarrow> ends_with P (attempt (Ret r) k)"
  by (cases r) simp_all

lemma signed_send_refused:
  assumes "collision_free (e_lib E) S" and "half_canonical S link" and "\<And>s. carries ct s (hs s)"
    and "case p of None \<Rightarrow> True | Some b \<Rightarrow> b = bdy" and err: "\<And>e. P (Inl e)" and k: "ends_with P (k refused)"
  shows "ends_with P (attempt (signed_at E S c verb link ct p) (\<lambda>s.
      attempt (send_to E (guarded (e_lib E) c S) what verb link (hs s) bdy) k))"
  unfolding ends_with_def
proof
  fix w
  show "P (fst (run (attempt (signed_at E S c verb link ct p) (\<lambda>s.
      attempt (send_to E (guarded (e_lib E) c S) what verb link (hs s) bdy) k)) w))"
  proof (cases "run (signed_at E S c verb link ct p) w")
    case (Pair r w1)
    show ?thesis
    proof (cases r)
      case (Inr s)
      then obtain now where sign: "sign_request_inner (e_lib E) S c verb link ct
          (case p of Some b \<Rightarrow> sha256_hex S b | None \<Rightarrow> ''UNSIGNED-PAYLOAD'') now = Inr s"
        using signed_at_Inr Pair by metis
      have "\<not> request_signed (e_lib E) S c \<lparr>rq_method = verb, rq_url = link, rq_headers = hs s, rq_body = bdy\<rparr>"
        by (rule half_canonical_unsigned [OF assms(1,2) sign assms(3)])
          (use assms(4) in \<open>auto simp: payload_matches_def sha256_hex_def split: option.splits\<close>)
      then have "run (send_to E (guarded (e_lib E) c S) what verb link (hs s) bdy) w1 = (Inr resp, w2) \<Longrightarrow> resp = refused" for resp w2
        by (rule send_to_refused)
      then show ?thesis using Pair Inr err k
        by (auto simp: run_attempt ends_with_def split: prod.split sum.split)
    qed (simp add: run_attempt Pair err)
  qed
qed

section \<open>The requests of the client\<close>

text \<open>The requests of the client about one object, but for the one that starts a multipart upload.\<close>

definition same_requests ::
  "('r, 'd, 'o) env \<Rightarrow> 'o s3 \<Rightarrow> 'o s3 \<Rightarrow> storage_config \<Rightarrow> string \<Rightarrow> string \<Rightarrow> string \<Rightarrow> string \<Rightarrow> u32 \<Rightarrow> part_info list \<Rightarrow> bool" where
  "same_requests E S S' c key bdy ct upload_id n parts \<longleftrightarrow>
     client_upload E S c key bdy ct = client_upload E S' c key bdy ct \<and>
     client_upload_streaming E S c key ct bdy = client_upload_streaming E S' c key ct bdy \<and>
     client_download E S c key = client_download E S' c key \<and>
     client_download_streaming E S c key = client_download_streaming E S' c key \<and>
     client_delete E S c key = client_delete E S' c key \<and>
     client_upload_part E S c key upload_id n bdy = client_upload_part E S' c key upload_id n bdy \<and>
     upload_part_streaming E S c key upload_id n bdy = upload_part_streaming E S' c key upload_id n bdy \<and>
     complete_multipart_upload E S c key upload_id parts = complete_multipart_upload E S' c key upload_id parts \<and>
     abort_multipart_upload E S c key upload_id = abort_multipart_upload E S' c key upload_id"

definition failing_requests ::
  "('r, 'd, 'o) env \<Rightarrow> 'o s3 \<Rightarrow> storage_config \<Rightarrow> string \<Rightarrow> string \<Rightarrow> string \<Rightarrow> string \<Rightarrow> u32 \<Rightarrow> part_info list \<Rightarrow> bool" where
  "failing_requests E S c key bdy ct upload_id n parts \<longleftrightarrow>
     fails (client_upload E S c key bdy ct) \<and> fails (client_upload_streaming E S c key ct bdy) \<and>
     fails (client_download E S c key) \<and> fails (client_download_streaming E S c key) \<and> fails (client_delete E S c key) \<and>
     fails (client_upload_part E S c key upload_id n bdy) \<and> fails (upload_part_streaming E S c key upload_id n bdy) \<and>
     fails (complete_multipart_upload E S c key upload_id parts) \<and> fails (abort_multipart_upload E S c key upload_id)"

lemma build_xml_guarded [simp]: "build_complete_multipart_xml (guarded L c S) parts = build_complete_multipart_xml S parts"
  unfolding build_complete_multipart_xml_def guarded_sel ..

lemma attempt_Ret_cong: "(\<And>u. r = Inr u \<Longrightarrow> k u = k' u) \<Longrightarrow> attempt (Ret r) k = attempt (Ret r) k'"
  by (cases r) simp_all

text \<open>
  More of the documented behaviour of the \<open>url\<close> crate: it keeps the characters a segment may have, and
  appends the pairs of a query as form data.
\<close>

locale strict_signing = signing_service S esc for S :: "'o s3" and esc +
  assumes esc_kept: "(\<And>c. c \<in> set s \<Longrightarrow> path_char c) \<Longrightarrow> esc s = s"
    and pairs: "s3_join S base (CHR ''/'' # p) = Inr u \<Longrightarrow> printable p \<Longrightarrow> ps \<noteq> [] \<Longrightarrow>
      s3_pairs S u ps = u\<lparr>url_text := url_text u @ CHR ''?'' # form_query ps, url_query := Some (form_query ps)\<rparr> \<and>
      s3_parse S (url_text u @ CHR ''?'' # form_query ps) = Inr (s3_pairs S u ps)"
begin

lemma object_url_kept:
  assumes "object_url S ep c key = Inr u" and "simple_segment (bucket c)" and "kept_key key"
  obtains base where "s3_join S base (CHR ''/'' # bucket c @ CHR ''/'' # key) = Inr u"
    and "printable (bucket c @ CHR ''/'' # key)" and "CHR 0x0A \<notin> set (url_path u)"
    and "canonical_uri (url_path u) = url_path u \<longleftrightarrow> path_text key"
proof -
  have "esc s = s \<and> \<not> double_dot s \<and> \<not> single_dot s" if "s \<in> set (split_on (CHR ''/'') key)" for s
    using that assms(3) esc_kept by (auto simp: kept_key_def)
  from object_url_path [OF assms(1,2) kept_key_printable(1,2) [OF assms(3)] this] obtain base where
    j: "s3_join S base (CHR ''/'' # bucket c @ CHR ''/'' # key) = Inr u" "printable (bucket c @ CHR ''/'' # key)"
    and path: "url_path u = CHR ''/'' # bucket c @ CHR ''/'' # key"
    by metis
  have bkt: "all_unreserved (bucket c)" using assms(2) by (simp add: simple_segment_def)
  have "byte (CHR 0x0A) = 10" by (simp add: byte_def)
  then have "CHR 0x0A \<notin> set (bucket c @ CHR ''/'' # key)" using j(2) by (force simp only: printable_def)
  then have "CHR 0x0A \<notin> set (url_path u)" by (simp add: path)
  moreover from bkt have "CHR ''%'' \<notin> set (url_path u)"
    unfolding path using kept_key_printable(3) [OF assms(3)] by (auto simp: all_unreserved_def)
  then have "canonical_uri (url_path u) = url_path u \<longleftrightarrow> path_text key"
    using unreserved_path_text [OF bkt] by (simp add: canonical_uri_iff path)
  ultimately show thesis using that j by blast
qed

text \<open>All URLs of the requests about an object have canonical queries, and canonical paths if the key is plain enough.\<close>

lemma object_links:
  assumes "object_url S ep c key = Inr u" and "simple_segment (bucket c)" and "kept_key key" and "all_unreserved i"
  defines "canonical \<equiv> (\<lambda>link. if path_text key then canonical_link S link else half_canonical S link)"
  shows "canonical (url_text u)" and "canonical (url_text u @ ''?uploadId='' @ i)" and "canonical (part_link (url_text u) n i)"
proof -
  obtain base where j: "s3_join S base (CHR ''/'' # bucket c @ CHR ''/'' # key) = Inr u"
    and pr: "printable (bucket c @ CHR ''/'' # key)" and uri: "canonical_uri (url_path u) = url_path u \<longleftrightarrow> path_text key"
    by (rule object_url_kept [OF assms(1-3)])
  have q: "query_text (''uploadId='' @ i)" "query_text (''partNumber='' @ show_nat (unat n) @ ''&uploadId='' @ i)"
    using assms(4) unreserved_digits [of "unat n"] words_unreserved by (auto simp: query_text_def all_unreserved_def)
  show "canonical (url_text u)"
    using reparse [OF j pr] uri by (simp add: canonical_def canonical_link_def half_canonical_def query_of_def)
  show "canonical (url_text u @ ''?uploadId='' @ i)"
    using requery [OF j pr q(1)] uri upload_query [OF assms(4)]
    by (simp add: canonical_def canonical_link_def half_canonical_def query_of_def)
  show "canonical (part_link (url_text u) n i)"
    using requery [OF j pr q(2)] uri part_query [OF assms(4), of "unat n"]
    by (simp add: canonical_def canonical_link_def half_canonical_def query_of_def part_link_def)
qed

lemma object_requests_same:
  assumes "simple_segment (bucket c)" and "kept_key key" and "path_text key" and "all_unreserved upload_id"
  shows "same_requests E (guarded (e_lib E) c S) S c key bdy ct upload_id n parts"
proof -
  note links = object_links [OF _ assms(1,2,4), simplified assms(3) if_True]
  show ?thesis
    unfolding same_requests_def client_upload_def client_upload_streaming_def client_download_def
      client_download_streaming_def client_delete_def client_upload_part_def upload_part_streaming_def
      complete_multipart_upload_def abort_multipart_upload_def Let_def
      object_url_guarded signed_at_guarded build_xml_guarded
    by (intro conjI attempt_Ret_cong signed_send_guarded links carries_simps) simp_all
qed

lemma object_requests_fail:
  assumes "simple_segment (bucket c)" and "kept_key key" and "\<not> path_text key" and "all_unreserved upload_id"
    and "collision_free (e_lib E) S"
  shows "failing_requests E (guarded (e_lib E) c S) c key bdy ct upload_id n parts"
proof -
  note links = object_links [OF _ assms(1,2,4), simplified assms(3) if_False]
  show ?thesis
    unfolding failing_requests_def client_upload_def client_upload_streaming_def client_download_def
      client_download_streaming_def client_delete_def client_upload_part_def upload_part_streaming_def
      complete_multipart_upload_def abort_multipart_upload_def Let_def
      object_url_guarded signed_at_guarded build_xml_guarded
    by (intro conjI ends_with_attempt_Ret signed_send_refused assms(5) links carries_simps)
      (simp_all add: refused_def is_success_def)
qed

text \<open>The URL of a listing.\<close>

lemma list_link:
  assumes "object_url S ep c [] = Inr u" and "simple_segment (bucket c)"
  defines "link \<equiv> (\<lambda>prefix. url_text (s3_pairs S u [(''list-type'', ''2''), (''prefix'', prefix)]))"
  shows "if form_text prefix then canonical_link S (link prefix) else half_canonical S (link prefix)"
proof -
  have "kept_key []" by (simp add: kept_key_def double_dot_def single_dot_def lowercase_def)
  then obtain base where j: "s3_join S base (CHR ''/'' # bucket c @ CHR ''/'' # []) = Inr u"
    and pr: "printable (bucket c @ CHR ''/'' # [])" and uri: "canonical_uri (url_path u) = url_path u"
    using object_url_kept [OF assms(1,2)] by (metis path_text_simps(1))
  from pairs [OF j pr, of "[(''list-type'', ''2''), (''prefix'', prefix)]"] uri list_query [of prefix]
  show ?thesis by (simp add: link_def canonical_link_def half_canonical_def query_of_def)
qed

lemma list_same:
  assumes "simple_segment (bucket c)" and "form_text prefix"
  shows "client_list E (guarded (e_lib E) c S) c prefix = client_list E S c prefix"
  unfolding client_list_def Let_def object_url_guarded signed_at_guarded guarded_sel
  by (intro attempt_Ret_cong signed_send_guarded carries_simps list_link [OF _ assms(1), of _ _ prefix, simplified assms(2) if_True]) simp_all

lemma list_empty:
  assumes "simple_segment (bucket c)" and "\<not> form_text prefix" and "collision_free (e_lib E) S"
  shows "finds_none (client_list E (guarded (e_lib E) c S) c prefix)"
proof -
  have "listed_objects ''SignatureDoesNotMatch'' = []" by code_simp
  then show ?thesis
    unfolding client_list_def Let_def object_url_guarded signed_at_guarded guarded_sel
    by (intro ends_with_attempt_Ret signed_send_refused assms(3) carries_simps
        list_link [OF _ assms(1), of _ _ prefix, simplified assms(2) if_False]) (simp_all add: refused_def)
qed

end

lemma bucket_request_guarded:
  assumes "canonical_link S (endpoint c @ ''/'' @ bucket c)"
  shows "bucket_request E (guarded (e_lib E) c S) c what verb = bucket_request E S c what verb"
  unfolding bucket_request_def Let_def signed_at_guarded
proof (rule attempt_signed_cong)
  fix s now
  let ?link = "endpoint c @ ''/'' @ bucket c"
  assume "sign_request_inner (e_lib E) S c verb ?link []
    (case Some [] of Some b \<Rightarrow> sha256_hex S b | None \<Rightarrow> ''UNSIGNED-PAYLOAD'') now = Inr s"
  then have "request_signed (e_lib E) S c \<lparr>rq_method = verb, rq_url = ?link, rq_headers = sig_headers s, rq_body = []\<rparr>"
    using assms carries_simps(1) by (rule sent_as_signed) (simp add: payload_matches_def sha256_hex_def)
  then show "send_to E (guarded (e_lib E) c S) what verb ?link (sig_headers s) [] = send_to E S what verb ?link (sig_headers s) []"
    by (rule send_to_guarded)
qed

lemma bucket_guarded:
  assumes "canonical_link S (endpoint c @ ''/'' @ bucket c)"
  shows "bucket_exists E (guarded (e_lib E) c S) c = bucket_exists E S c \<and>
    ensure_bucket E (guarded (e_lib E) c S) c = ensure_bucket E S c"
  unfolding ensure_bucket_def bucket_exists_def bucket_request_guarded [OF assms] by simp

text \<open>
  C24. What the storage client can do at a service that checks the Signature Version 4 of every request and refuses the
  rest, as against one that checks nothing. Let bucket and upload identifier be of unreserved characters, and the key of
  characters that the URL library leaves as they are, without dot segments. The uploads, downloads and
  deletions of the object, and all steps of its multipart uploads but the first, are the same when the key is
  of unreserved characters and slashes; otherwise the path is not signed in its canonical form and, hash and
  authentication code being free of collisions, every one of these requests ends in an error. A listing is the same for every prefix
  without spaces, asterisks and tildes, and for any other one lists nothing, because the client does not look at the status of
  the response. The requests about the bucket are the same when its URL is in canonical form. (For the first step of a
  multipart upload see \<open>multipart_init_refused\<close>.)
\<close>

theorem signed_requests_served:
  assumes "strict_signing S esc" and "simple_segment (bucket c)" and "kept_key key" and "all_unreserved upload_id"
  shows "(path_text key \<longrightarrow>
       same_requests E (guarded (e_lib E) c S) S c key bdy content_type upload_id part_number parts) \<and>
    (form_text prefix \<longrightarrow> client_list E (guarded (e_lib E) c S) c prefix = client_list E S c prefix) \<and>
    (canonical_link S (endpoint c @ ''/'' @ bucket c) \<longrightarrow>
       bucket_exists E (guarded (e_lib E) c S) c = bucket_exists E S c \<and>
       ensure_bucket E (guarded (e_lib E) c S) c = ensure_bucket E S c) \<and>
    (collision_free (e_lib E) S \<longrightarrow>
       (\<not> path_text key \<longrightarrow> failing_requests E (guarded (e_lib E) c S) c key bdy content_type upload_id part_number parts) \<and>
       (\<not> form_text prefix \<longrightarrow> finds_none (client_list E (guarded (e_lib E) c S) c prefix)))"
  using strict_signing.object_requests_same [OF assms(1-3) _ assms(4)] strict_signing.list_same [OF assms(1,2)]
    bucket_guarded [of S c E] strict_signing.object_requests_fail [OF assms(1-3) _ assms(4)]
    strict_signing.list_empty [OF assms(1,2)]
  by blast

section \<open>An instance\<close>

interpretation ref_strict: strict_signing ref_s3 "\<lambda>s. s"
proof unfold_locales
  fix base p u and ps :: "(string \<times> string) list"
  assume "s3_join ref_s3 base (CHR ''/'' # p) = Inr u" and p: "printable p"
  then have "ref_join_url base (CHR ''/'' # p) = Inr u" by (simp add: ref_s3_def)
  then obtain path where "u = \<lparr>url_text = ''http://h'' @ path, url_host = Some ''h'', url_path = path, url_query = None\<rparr>"
    and "path \<noteq> []" "CHR ''?'' \<notin> set path"
    using p by (rule ref_join_url_eq)
  then show "s3_pairs ref_s3 u ps = u\<lparr>url_text := url_text u @ CHR ''?'' # form_query ps, url_query := Some (form_query ps)\<rparr> \<and>
      s3_parse ref_s3 (url_text u @ CHR ''?'' # form_query ps) = Inr (s3_pairs ref_s3 u ps)"
    by (auto simp: ref_s3_def ref_parse_url_def take_drop_no split: list.split)
qed (rule refl)

lemma demo_kept: "kept_key ''users/u1/a.txt''" "path_text ''users/u1/a.txt''"
  "kept_key ''users/u1/a(1)''" "\<not> path_text ''users/u1/a(1)''"
  by code_simp+

theorem signed_requests_served_witness:
  "same_requests (ref_env 0 Map.empty) (guarded ref_lib demo_storage ref_s3) ref_s3 demo_storage ''users/u1/a.txt''
     ''hello'' ''text/plain'' ''up1'' 3 [] \<and>
   failing_requests (ref_env 0 Map.empty) (guarded ref_lib demo_storage ref_s3) demo_storage ''users/u1/a(1)''
     ''hello'' ''text/plain'' ''up1'' 3 [] \<and>
   client_list (ref_env 0 Map.empty) (guarded ref_lib demo_storage ref_s3) demo_storage ''users/u1/'' =
     client_list (ref_env 0 Map.empty) ref_s3 demo_storage ''users/u1/'' \<and>
   finds_none (client_list (ref_env 0 Map.empty) (guarded ref_lib demo_storage ref_s3) demo_storage ''users/u1/a b'') \<and>
   ensure_bucket (ref_env 0 Map.empty) (guarded ref_lib demo_storage ref_s3) demo_storage =
     ensure_bucket (ref_env 0 Map.empty) ref_s3 demo_storage \<and>
   (\<exists>u. object_url ref_s3 ''http://h'' demo_storage ''users/u1/a.txt'' = Inr u)"
proof -
  let ?E = "ref_env 0 Map.empty"
  have "all_unreserved ''up1''" by code_simp
  note served = signed_requests_served [OF ref_strict.strict_signing_axioms demo_simple(1) _ this,
      of _ ?E "''hello''" "''text/plain''" 3 "[]", unfolded ref_env_sel]
  have "canonical_link ref_s3 (endpoint demo_storage @ ''/'' @ bucket demo_storage)" by code_simp
  moreover have "form_text ''users/u1/''" "\<not> form_text ''users/u1/a b''" by code_simp+
  ultimately show ?thesis
    using served [OF demo_kept(1), of "''users/u1/''"] served [OF demo_kept(3), of "''users/u1/a b''"] demo_kept(2,4)
      ref_collision_free demo_object_url by blast
qed

end
