(* ===== verification/Storage_Presign.thy ===== *)
theory Storage_Presign
  imports Storage_Served
begin

text \<open>
  Presigned URLs: which requests with such a URL a service that checks signatures accepts; and the request that
  starts a multipart upload, which it refuses.
\<close>

section \<open>The check of a presigned URL\<close>

text \<open>The request is a method, the value of its \<open>Host\<close> header and the URL; its age is not looked at.\<close>

definition presigned_ok :: "lib \<Rightarrow> 'o s3 \<Rightarrow> storage_config \<Rightarrow> string \<Rightarrow> string \<Rightarrow> string \<Rightarrow> bool" where
  "presigned_ok L S c verb host link = (case s3_parse S link of Inl _ \<Rightarrow> False | Inr u \<Rightarrow>
     (let ps = query_params (query_of u) in
      case (map_of ps ''X-Amz-Date'', map_of ps ''X-Amz-Signature'') of
        (Some stamp, Some signature) \<Rightarrow>
          map_of ps ''X-Amz-Algorithm'' = Some ''AWS4-HMAC-SHA256'' \<and>
          map_of ps ''X-Amz-Credential'' = Some (join ''/'' (access_key c # spec_scope (take 8 stamp) (region c))) \<and>
          map_of ps ''X-Amz-SignedHeaders'' = Some ''host'' \<and>
          spec_signature L S (storage_secret c) (region c) stamp
            (spec_canonical verb (canonical_uri (url_path u))
              (canonical_query (filter (\<lambda>(k, v). k \<noteq> ''X-Amz-Signature'') ps)) [(''Host'', host)] [''host''] ''UNSIGNED-PAYLOAD'') =
            Some signature
      | _ \<Rightarrow> False))"

section \<open>The query the client writes\<close>

definition slashes_escaped :: "string \<Rightarrow> string" where
  "slashes_escaped s = concat (map (\<lambda>ch. if ch = CHR ''/'' then ''%2F'' else [ch]) s)"

lemma slashes_escaped_simps [simp]:
  "slashes_escaped [] = []" "slashes_escaped (c # s) = (if c = CHR ''/'' then ''%2F'' else [c]) @ slashes_escaped s"
  by (simp_all add: slashes_escaped_def)

lemma decode_escaped: "path_text s \<Longrightarrow> percent_decode (slashes_escaped s) = s"
proof (induction s)
  case (Cons c s)
  have slash: "percent_decode (''%2F'' @ slashes_escaped s) = CHR ''/'' # percent_decode (slashes_escaped s)"
  proof -
    have "hex_val (CHR ''2'') = Some 2" "hex_val (CHR ''F'') = Some 15"
      by (simp_all add: hex_val_def is_digit_def byte_def)
    moreover have "(char_of (47 :: nat) :: char) = CHR ''/''" by code_simp
    ultimately show ?thesis by simp
  qed
  show ?case
  proof (cases "c = CHR ''/''")
    case True
    then show ?thesis using Cons slash by simp
  next
    case False
    then have "c \<noteq> CHR ''%''" using Cons.prems by auto
    then show ?thesis using Cons False decode_other [of c "slashes_escaped s"] by simp
  qed
qed simp

lemma encode_escaped: "path_text s \<Longrightarrow> uri_encode s = slashes_escaped s"
proof (induction s)
  case (Cons c s)
  moreover have "encode_char (CHR ''/'') = ''%2F''" by code_simp
  ultimately show ?case by (auto simp: uri_encode_def) (simp_all add: encode_char_def)
qed (simp add: uri_encode_def)

lemma escaped_chars: "path_text s \<Longrightarrow> c \<in> set (slashes_escaped s) \<Longrightarrow> unreserved c \<or> c = CHR ''%''"
  using words_unreserved(13) by (induction s) (auto split: if_splits)

lemma hex_unreserved: "all_unreserved (hex_encode bs)"
proof -
  have "unreserved (hex_digit n)" if "n < 16" for n
    using hex_digit_code [OF that] that by (auto simp: unreserved_def plain_char_def is_digit_def)
  then have "all_unreserved (hex_byte b)" for b
    using unat_u8_less [of b] by (auto simp: hex_byte_def)
  then show ?thesis by (induction bs) (auto simp: hex_encode_def)
qed

definition params_text :: "(string \<times> string) list \<Rightarrow> string" where
  "params_text ps = join ''&'' (map (\<lambda>(k, v). k @ ''='' @ v) ps)"

lemma params_text_Cons: "ps \<noteq> [] \<Longrightarrow> params_text ((k, v) # ps) = k @ CHR ''='' # v @ CHR ''&'' # params_text ps"
  by (cases ps) (simp_all add: params_text_def)

lemma params_text_append: "ps \<noteq> [] \<Longrightarrow> params_text (ps @ [(k, v)]) = params_text ps @ ''&'' @ k @ ''='' @ v"
proof (induction ps rule: list_nonempty_induct)
  case (single p)
  then show ?case by (cases p) (simp add: params_text_def)
next
  case (cons p ps)
  then show ?case by (cases p) (simp add: params_text_Cons)
qed

lemma query_params_text:
  assumes "ps \<noteq> []" and "\<And>k v. (k, v) \<in> set ps \<Longrightarrow> all_unreserved k \<and> CHR ''&'' \<notin> set v"
  shows "query_params (params_text ps) = map (\<lambda>(k, v). (k, percent_decode v)) ps"
  using assms
proof (induction ps rule: list_nonempty_induct)
  case (single p)
  then show ?case using query_params_one [of "fst p" "snd p"] by (cases p) (simp add: params_text_def)
next
  case (cons p ps)
  obtain k v where p: "p = (k, v)" by (cases p)
  obtain k' v' qs where ps: "ps = (k', v') # qs" using cons.hyps by (cases ps) auto
  have "params_text ps \<noteq> []" unfolding ps by (cases qs) (simp_all add: params_text_def)
  moreover have "all_unreserved k" "CHR ''&'' \<notin> set v" using cons.prems [of k v] by (simp_all add: p)
  moreover have "query_params (params_text ps) = map (\<lambda>(k, v). (k, percent_decode v)) ps"
    by (rule cons.IH) (rule cons.prems, simp)
  ultimately show ?case using cons.hyps by (simp add: p params_text_Cons query_params_Cons)
qed

text \<open>The parameters of a presigned URL before its signature, with their values as written.\<close>

definition presign_params :: "string \<Rightarrow> string \<Rightarrow> u64 \<Rightarrow> (string \<times> string) list" where
  "presign_params credential stamp secs =
     [(''X-Amz-Algorithm'', ''AWS4-HMAC-SHA256''), (''X-Amz-Credential'', slashes_escaped credential),
      (''X-Amz-Date'', stamp), (''X-Amz-Expires'', show_u64 secs), (''X-Amz-SignedHeaders'', ''host'')]"

lemma presigned_query:
  assumes "path_text credential" and "all_unreserved stamp" and "all_unreserved signature"
    and q: "q = params_text (presign_params credential stamp secs) @ ''&X-Amz-Signature='' @ signature"
  shows "query_params q = [(''X-Amz-Algorithm'', ''AWS4-HMAC-SHA256''), (''X-Amz-Credential'', credential),
      (''X-Amz-Date'', stamp), (''X-Amz-Expires'', show_u64 secs), (''X-Amz-SignedHeaders'', ''host''),
      (''X-Amz-Signature'', signature)]"
    and "canonical_query (filter (\<lambda>(k, v). k \<noteq> ''X-Amz-Signature'') (query_params q)) =
      params_text (presign_params credential stamp secs)"
    and "query_text q"
proof -
  let ?ps = "presign_params credential stamp secs @ [(''X-Amz-Signature'', signature)]"
  have secs: "all_unreserved (show_u64 secs)" using unreserved_digits by (simp add: show_u64_def)
  have cred: "c \<in> set (slashes_escaped credential) \<Longrightarrow> unreserved c \<or> c = CHR ''%''" for c
    by (rule escaped_chars [OF assms(1)])
  have written: "q = params_text ?ps" unfolding q using params_text_append [of "presign_params credential stamp secs"]
    by (simp add: presign_params_def)
  have amp: "CHR ''&'' \<notin> set (slashes_escaped credential)" using cred [of "CHR ''&''"] by auto
  have parts: "all_unreserved k \<and> CHR ''&'' \<notin> set v" if "(k, v) \<in> set ?ps" for k v
    using that amp assms(2,3) secs words_unreserved unreserved_absent [of v "CHR ''&''"]
    unfolding presign_params_def by fastforce
  have "query_params (params_text ?ps) = map (\<lambda>(k, v). (k, percent_decode v)) ?ps"
    by (rule query_params_text) (simp, rule parts)
  then show 1: "query_params q = [(''X-Amz-Algorithm'', ''AWS4-HMAC-SHA256''), (''X-Amz-Credential'', credential),
      (''X-Amz-Date'', stamp), (''X-Amz-Expires'', show_u64 secs), (''X-Amz-SignedHeaders'', ''host''),
      (''X-Amz-Signature'', signature)]"
    using assms(1-3) secs unfolding written
    by (simp add: presign_params_def decode_escaped decode_unreserved [OF words_unreserved(9)]
        decode_unreserved [OF words_unreserved(10)] decode_unreserved)
  show "canonical_query (filter (\<lambda>(k, v). k \<noteq> ''X-Amz-Signature'') (query_params q)) =
      params_text (presign_params credential stamp secs)"
    unfolding 1 using assms(1,2) secs
    by (simp add: canonical_query_sorted encode_escaped encode_unreserved params_text_def presign_params_def)
  show "query_text q"
    unfolding q using cred assms(2,3) secs words_unreserved
    by (auto simp: params_text_def presign_params_def query_text_def all_unreserved_def)
qed

section \<open>Which requests a presigned URL admits\<close>

definition credential_of :: "storage_config \<Rightarrow> string \<Rightarrow> string" where
  "credential_of c stamp = join ''/'' (access_key c # spec_scope (take 8 stamp) (region c))"

lemma credential_of_eq:
  "credential_of c stamp = access_key c @ ''/'' @ take 8 stamp @ ''/'' @ region c @ ''/s3/aws4_request''"
  by (simp add: credential_of_def spec_scope_def)

lemma scope_path_text: "path_text ''/''" "path_text ''/s3/aws4_request''"
  by (simp_all add: unreserved_def plain_char_def is_digit_def byte_def)

text \<open>The request the signer signs: its host line is what the client is expected to send.\<close>

definition host_request :: "string \<Rightarrow> string \<Rightarrow> string \<Rightarrow> string \<Rightarrow> string" where
  "host_request verb uri query host = join NL [verb, uri, query, ''host:'' @ host @ NL, ''host'', ''UNSIGNED-PAYLOAD'']"

lemma presigned_urlE:
  assumes "presigned_url L S c key verb secs now = Inr link"
  obtains u signature where "object_url S (public_endpoint c) c key = Inr u"
    and "spec_signature L S (storage_secret c) (region c) (s3_stamp S now) (host_request verb (url_path u)
        (params_text (presign_params (credential_of c (s3_stamp S now)) (s3_stamp S now) secs))
        (lowercase (case url_host u of Some h \<Rightarrow> h | None \<Rightarrow> ''localhost''))) = Some signature"
    and "link = url_text u @ CHR ''?'' #
        params_text (presign_params (credential_of c (s3_stamp S now)) (s3_stamp S now) secs) @ ''&X-Amz-Signature='' @ signature"
proof -
  let ?stamp = "s3_stamp S now"
  have cred: "access_key c @ ''/'' @ credential_scope_of c (take 8 ?stamp) = credential_of c ?stamp"
    by (simp add: credential_of_def credential_scope_of_def spec_scope_def)
  have sorted: "sort_key fst
      [(''X-Amz-Algorithm'', ''AWS4-HMAC-SHA256''), (''X-Amz-Credential'', slashes_escaped (credential_of c ?stamp)),
       (''X-Amz-Date'', ?stamp), (''X-Amz-Expires'', show_u64 secs), (''X-Amz-SignedHeaders'', ''host'')] =
      presign_params (credential_of c ?stamp) ?stamp secs"
    by (simp add: presign_params_def)
  show thesis
    using assms that
    unfolding presigned_url_def Let_def cred slashes_escaped_def [symmetric] sorted params_text_def [symmetric]
    by (auto simp: host_request_def signing_signature_spec split: sum.splits)
qed

lemma line_inject:
  assumes "CHR 0x0A \<notin> set a" and "CHR 0x0A \<notin> set b"
  shows "a @ NL @ s = b @ NL @ t \<longleftrightarrow> a = b \<and> s = t"
proof
  assume "a @ NL @ s = b @ NL @ t"
  then have "split_once (CHR 0x0A) (a @ NL @ s) = split_once (CHR 0x0A) (b @ NL @ t)" by (rule arg_cong)
  moreover have "split_once (CHR 0x0A) (a @ NL @ s) = Some (a, s)" "split_once (CHR 0x0A) (b @ NL @ t) = Some (b, t)"
    using split_once_append [OF assms(1)] split_once_append [OF assms(2)] by (simp_all add: NL_def)
  ultimately show "a = b \<and> s = t" by (simp only: option.inject prod.inject)
qed simp

lemma host_request_eq:
  "host_request verb uri query host = verb @ NL @
     (uri @ NL @ query @ NL @ ''host:'' @ host @ (NL @ NL @ ''host'' @ NL @ ''UNSIGNED-PAYLOAD''))"
  by (simp add: host_request_def)

lemma host_request_inject:
  assumes "CHR 0x0A \<notin> set verb" "CHR 0x0A \<notin> set verb'" and "CHR 0x0A \<notin> set uri" "CHR 0x0A \<notin> set uri'"
  shows "host_request verb uri query host = host_request verb' uri' query host' \<longleftrightarrow> verb = verb' \<and> uri = uri' \<and> host = host'"
  unfolding host_request_eq line_inject [OF assms(1,2)] line_inject [OF assms(3,4)] same_append_eq append_same_eq ..

lemma encoded_no_line: "CHR 0x0A \<notin> set (uri_encode_path p)"
proof -
  have "byte (upper_hex n) \<noteq> 10" if "n < 16" for n using that by (simp add: upper_hex_code)
  then have hex: "upper_hex n \<noteq> CHR 0x0A" if "n < 16" for n
    using that [THEN \<open>\<And>n. n < 16 \<Longrightarrow> byte (upper_hex n) \<noteq> 10\<close>] by (auto simp: byte_def)
  have "CHR 0x0A \<notin> set (encode_char c)" for c
  proof (cases "unreserved c")
    case True
    then have "c \<noteq> CHR 0x0A" using unreserved_byte [OF True] by (auto simp: byte_def)
    with True show ?thesis by (simp add: encode_char_def)
  next
    case False
    have "byte c div 16 < 16" using byte_less [of c] by simp
    then show ?thesis using False hex [of "byte c div 16"] hex [of "byte c mod 16"]
      by (simp add: encode_char_def percent_encode_def)
  qed
  then show ?thesis by (auto simp: uri_encode_path_def)
qed

lemma spec_canonical_host:
  "spec_canonical verb uri query [(''Host'', host)] [''host''] ''UNSIGNED-PAYLOAD'' = host_request verb uri query (trim host)"
  by (simp add: spec_canonical_def host_request_def header_line_def header_of_def)

context strict_signing
begin

lemma presigned_host:
  assumes c: "simple_segment (bucket c)" "kept_key key" "all_unreserved (access_key c)" "all_unreserved (region c)"
    and free: "collision_free L S" and line: "CHR 0x0A \<notin> set verb" "CHR 0x0A \<notin> set verb'"
    and link: "presigned_url L S c key verb secs now = Inr link"
  shows "\<exists>u. object_url S (public_endpoint c) c key = Inr u \<and> (presigned_ok L S c verb' host link \<longleftrightarrow>
      verb' = verb \<and> trim host = lowercase (case url_host u of Some h \<Rightarrow> h | None \<Rightarrow> ''localhost'') \<and> path_text key)"
proof -
  let ?stamp = "s3_stamp S now" and ?cred = "credential_of c (s3_stamp S now)"
  let ?query = "params_text (presign_params ?cred ?stamp secs)"
  obtain u signature where u: "object_url S (public_endpoint c) c key = Inr u"
    and sig: "spec_signature L S (storage_secret c) (region c) ?stamp (host_request verb (url_path u) ?query
        (lowercase (case url_host u of Some h \<Rightarrow> h | None \<Rightarrow> ''localhost''))) = Some signature"
    and link: "link = url_text u @ CHR ''?'' # ?query @ ''&X-Amz-Signature='' @ signature"
    by (rule presigned_urlE [OF link])
  obtain base where j: "s3_join S base (CHR ''/'' # bucket c @ CHR ''/'' # key) = Inr u"
    and pr: "printable (bucket c @ CHR ''/'' # key)" and path: "CHR 0x0A \<notin> set (url_path u)"
    and uri: "canonical_uri (url_path u) = url_path u \<longleftrightarrow> path_text key"
    by (rule object_url_kept [OF u c(1,2)])
  have "all_unreserved (take 8 ?stamp)" using stamp [of now] by (auto simp: all_unreserved_def dest: in_set_takeD)
  then have cred: "path_text ?cred"
    using c(3,4) unfolding credential_of_eq path_text_simps(3) by (simp only: unreserved_path_text scope_path_text simp_thms)
  obtain m where "signature = hex_encode m" using sig by (auto simp: spec_signature_def split: sum.splits)
  note q = presigned_query [OF cred stamp [of now] hex_unreserved [of m] refl, folded this]
  have parsed: "s3_parse S link = Inr (u\<lparr>url_text := link,
      url_query := Some (?query @ ''&X-Amz-Signature='' @ signature)\<rparr>)"
    unfolding link by (rule requery [OF j pr q(3)]) simp
  have "presigned_ok L S c verb' host link \<longleftrightarrow> spec_signature L S (storage_secret c) (region c) ?stamp
      (host_request verb' (canonical_uri (url_path u)) ?query (trim host)) = Some signature"
    using q(1,2) unfolding presigned_ok_def parsed
    by (simp add: query_of_def spec_canonical_host credential_of_def)
  also have "\<dots> \<longleftrightarrow> host_request verb' (canonical_uri (url_path u)) ?query (trim host) =
      host_request verb (url_path u) ?query (lowercase (case url_host u of Some h \<Rightarrow> h | None \<Rightarrow> ''localhost''))"
    using spec_signature_binds [OF free sig] sig by metis
  also have "\<dots> \<longleftrightarrow> verb' = verb \<and> canonical_uri (url_path u) = url_path u \<and>
      trim host = lowercase (case url_host u of Some h \<Rightarrow> h | None \<Rightarrow> ''localhost'')"
    unfolding canonical_uri_def by (rule host_request_inject [OF line(2,1) encoded_no_line path])
  finally show ?thesis using u uri by blast
qed

end

text \<open>
  C25. Let bucket, access key and region be of unreserved characters, the key of characters that the URL library leaves as they
  are, without dot segments, hash and authentication code free of collisions, and no method have a line feed. A service
  that checks signatures accepts a request with a presigned URL if and only if its method is the one the URL was made for, its \<open>Host\<close>
  header is the host name of the public endpoint, and the key is of unreserved characters and slashes. The port is no
  part of the name, so a client that sends one, as HTTP asks for every port but the default, is refused;
  and nobody can use the URL of a key with, say, a parenthesis.
\<close>

theorem presigned_url_binds:
  assumes "strict_signing S esc" and "collision_free L S"
    and "simple_segment (bucket c)" and "kept_key key" and "all_unreserved (access_key c)" and "all_unreserved (region c)"
    and "CHR 0x0A \<notin> set verb" and "CHR 0x0A \<notin> set verb'"
    and "presigned_url L S c key verb expiry_secs now = Inr link"
  shows "\<exists>u. object_url S (public_endpoint c) c key = Inr u \<and> (presigned_ok L S c verb' host link \<longleftrightarrow>
      verb' = verb \<and> trim host = lowercase (case url_host u of Some h \<Rightarrow> h | None \<Rightarrow> ''localhost'') \<and> path_text key)"
  using strict_signing.presigned_host [OF assms(1,3-6,2,7-9)] .

section \<open>Starting a multipart upload\<close>

text \<open>The query of the request that starts one, and what the specification makes of it.\<close>

lemma uploads_query: "canonical_query (query_params ''uploads'') = ''uploads=''" "query_text ''uploads''"
  by code_simp+

context signing_service
begin

lemma multipart_start_refused:
  assumes c: "simple_segment (bucket c)" "simple_key key" and free: "collision_free (e_lib E) S"
    and run: "run (create_multipart_upload E (guarded (e_lib E) c S) X c key ct) w = (r, w')"
  shows "\<exists>e. r = Some (Inl e)"
proof (rule ccontr)
  assume not: "\<not> ?thesis"
  obtain u bdy w1 w2 where u: "object_url S (endpoint c) c key = Inr u"
    and signed: "\<exists>s resp hs. run (signed_at E S c ''POST'' (url_text u @ ''?uploads'') ct None) w = (Inr s, w1) \<and>
      carries ct s hs \<and> is_success resp \<and>
      run (send_to E (guarded (e_lib E) c S) ''Multipart init failed: '' ''POST'' (url_text u @ ''?uploads'') hs []) w1 = (Inr resp, w2)"
  proof -
    obtain b where "run (attempt (Ret (object_url S (endpoint c) c key)) (\<lambda>u.
       let link = url_text u @ ''?uploads'' in
       attempt (signed_at E S c ''POST'' link ct None) (\<lambda>signed.
       attempt (send_to E (guarded (e_lib E) c S) ''Multipart init failed: '' ''POST'' link
         (sig_headers signed @ (if ct \<noteq> [] then [(''Content-Type'', ct)] else [])) []) (\<lambda>resp.
       if \<not> is_success resp then Ret (Inl (http_failure_text ''Multipart init'' resp))
       else Ret (map_err (\<lambda>e. InternalError (''Failed to read init response: '' @ e)) (rs_body resp)))))) w = (Inr b, w')"
      using run not by (auto simp: create_multipart_upload_def run_map_result split: prod.splits sum.splits)
    then show thesis
      by (auto elim!: attempt_InrE simp: Let_def run_Ret_iff split: if_splits intro!: that)
        (auto simp: carries_def)
  qed
  then obtain s resp hs where s: "run (signed_at E S c ''POST'' (url_text u @ ''?uploads'') ct None) w = (Inr s, w1)"
    and hs: "carries ct s hs" and ok: "is_success resp"
    and sent: "run (send_to E (guarded (e_lib E) c S) ''Multipart init failed: '' ''POST'' (url_text u @ ''?uploads'') hs []) w1 = (Inr resp, w2)"
    by blast
  obtain base where j: "s3_join S base (CHR ''/'' # bucket c @ CHR ''/'' # key) = Inr u"
    and pr: "printable (bucket c @ CHR ''/'' # key)" and uri: "canonical_uri (url_path u) = url_path u"
    by (rule object_url_simple [OF u c])
  have parsed: "s3_parse S (url_text u @ ''?uploads'') =
      Inr (u\<lparr>url_text := url_text u @ ''?uploads'', url_query := Some ''uploads''\<rparr>)"
    using requery [OF j pr uploads_query(2)] by simp
  obtain now where sign: "sign_request_inner (e_lib E) S c ''POST'' (url_text u @ ''?uploads'') ct ''UNSIGNED-PAYLOAD'' now = Inr s"
    by (rule signed_at_Inr [OF s]) simp
  have "\<not> request_signed (e_lib E) S c \<lparr>rq_method = ''POST'', rq_url = url_text u @ ''?uploads'', rq_headers = hs, rq_body = []\<rparr>"
  proof (rule sent_with_signature [OF sign parsed hs])
    show "payload_matches S \<lparr>rq_method = ''POST'', rq_url = url_text u @ ''?uploads'', rq_headers = hs, rq_body = []\<rparr> ''UNSIGNED-PAYLOAD''"
      by (simp add: payload_matches_def)
  qed (use spec_signature_binds [OF free] spec_canonical_half uploads_query(1) uri in \<open>fastforce simp: query_of_def\<close>)
  from send_to_refused [OF this sent] ok show False by (simp add: refused_def is_success_def)
qed

end

text \<open>
  C26. A service that checks signatures refuses to start any multipart upload: the code signs the query
  \<open>uploads\<close> as it stands, and the specification signs \<open>uploads=\<close>, so the handler answers with an error.
\<close>

theorem multipart_init_refused:
  assumes "signing_service S esc" and "collision_free (e_lib E) S" and "simple_segment (bucket c)" and "simple_key key"
    and "run (create_multipart_upload E (guarded (e_lib E) c S) X c key content_type) w = (r, w')"
  shows "\<exists>e. r = Some (Inl e)"
  using signing_service.multipart_start_refused [OF assms(1,3,4,2,5)] .

section \<open>Example\<close>

lemma presigned_url_total:
  assumes "object_url S (public_endpoint c) c key = Inr u" and "\<And>d s. signing_signature L c d s = Inr (f d s)"
  shows "\<exists>link. presigned_url L S c key verb secs now = Inr link"
  using assms by (simp add: presigned_url_def Let_def)

theorem presigned_url_binds_witness:
  "\<exists>link bad. presigned_url ref_lib (ref_s3 :: unit s3) demo_storage ''users/u1/a.txt'' ''GET'' 3600 0 = Inr link \<and>
     presigned_ok ref_lib (ref_s3 :: unit s3) demo_storage ''GET'' ''h'' link \<and>
     \<not> presigned_ok ref_lib (ref_s3 :: unit s3) demo_storage ''GET'' ''h:9000'' link \<and>
     \<not> presigned_ok ref_lib (ref_s3 :: unit s3) demo_storage ''PUT'' ''h'' link \<and>
     presigned_url ref_lib (ref_s3 :: unit s3) demo_storage ''users/u1/a(1)'' ''GET'' 3600 0 = Inr bad \<and>
     \<not> presigned_ok ref_lib (ref_s3 :: unit s3) demo_storage ''GET'' ''h'' bad"
proof -
  let ?S = "ref_s3 :: unit s3"
  have "\<forall>d s. \<exists>x. signing_signature ref_lib demo_storage d s = Inr x"
    by (simp add: signing_signature_def hmac_step_def ref_lib_def)
  then obtain f where f: "\<And>d s. signing_signature ref_lib demo_storage d s = Inr (f d s)" by metis
  have keys: "all_unreserved (access_key demo_storage)" "all_unreserved (region demo_storage)" by code_simp+
  have names: "trim ''h'' = ''h''" "trim ''h:9000'' = ''h:9000''" "lowercase ''h'' = ''h''" by code_simp+
  have made: "\<exists>link. presigned_url ref_lib ?S demo_storage key ''GET'' 3600 0 = Inr link \<and>
      (\<forall>verb h. CHR 0x0A \<notin> set verb \<longrightarrow>
        (presigned_ok ref_lib ?S demo_storage verb h link \<longleftrightarrow> verb = ''GET'' \<and> trim h = ''h'' \<and> path_text key))"
    if "kept_key key" for key
  proof -
    have ep: "public_endpoint demo_storage = ''http://h''" by (simp add: demo_storage_def)
    obtain u where u: "object_url ?S ''http://h'' demo_storage key = Inr u"
      using ref_urls_total [of "bucket demo_storage" key] unfolding object_url_def by (metis map_err_simps(2))
    then obtain link where link: "presigned_url ref_lib ?S demo_storage key ''GET'' 3600 0 = Inr link"
      using presigned_url_total [of ?S demo_storage key u ref_lib f "''GET''" 3600 0] f by (auto simp: ep)
    have host: "url_host u = Some ''h''"
      using u by (auto simp: object_url_def build_object_url_def ref_s3_def ref_join_url_def Let_def map_err_def split: sum.splits)
    have "presigned_ok ref_lib ?S demo_storage verb h link \<longleftrightarrow> verb = ''GET'' \<and> trim h = ''h'' \<and> path_text key"
      if "CHR 0x0A \<notin> set verb" for verb h
      using presigned_url_binds [OF ref_strict.strict_signing_axioms ref_collision_free demo_simple(1) \<open>kept_key key\<close> keys _ that link, of h]
        u host names by (auto simp: ep)
    with link show ?thesis by blast
  qed
  show ?thesis
    using made [OF demo_kept(1)] made [OF demo_kept(3)] demo_kept(2,4) names by fastforce
qed

theorem multipart_init_refused_witness:
  "\<forall>X w. \<exists>e. fst (run (create_multipart_upload (ref_env 0 Map.empty) (guarded ref_lib demo_storage ref_s3) X demo_storage
     ''users/u1/a.txt'' ''text/plain'') w) = Some (Inl e)"
proof (intro allI)
  fix X :: "'x xml_reader" and w
  let ?E = "ref_env 0 Map.empty"
  obtain r w' where r: "run (create_multipart_upload ?E (guarded (e_lib ?E) demo_storage ref_s3) X demo_storage
      ''users/u1/a.txt'' ''text/plain'') w = (r, w')"
    by fastforce
  have "collision_free (e_lib ?E) ref_s3" by (simp add: ref_collision_free)
  from multipart_init_refused [OF ref_signing.signing_service_axioms this demo_simple r] r
  show "\<exists>e. fst (run (create_multipart_upload ?E (guarded ref_lib demo_storage ref_s3) X demo_storage
      ''users/u1/a.txt'' ''text/plain'') w) = Some (Inl e)"
    by simp
qed

end
