(* ===== verification/Pubsub.thy ===== *)
theory Pubsub
  imports Cache_Store
begin

text \<open>
  Publish and subscribe (\<open>backend/cache/src/pubsub.rs\<close>): all subscribers of the process share one
  connection, made by the first of them.
\<close>

record pubsub_message =
  msg_channel :: string
  msg_payload :: string

definition publish :: "('r, 'd, 'o) env \<Rightarrow> string \<Rightarrow> string \<Rightarrow> ('r, 'd, 'o, unit) cached" where
  "publish E channel message =
     (let full_channel = make_key E ''pubsub'' channel in redis_act E (r_publish (e_redis E) full_channel message))"

text \<open>
  \<open>run_subscriber\<close> up to the point where it reports that it is ready: the connection, and the
  \<open>SUBSCRIBE\<close>, each a request that changes no key.
\<close>

definition run_subscriber_start :: "('r, 'd, 'o) env \<Rightarrow> ('r, 'd, 'o, unit) cached" where
  "run_subscriber_start E = attempt (redis_act E (cret ())) (\<lambda>_. redis_act E (cret ()))"

text \<open>
  Its loop, over what the connection yields: an error of the receiver, or a channel and a value. \<open>text_of\<close>
  and \<open>lossy_of\<close> are the client library's conversions of a value. The result is what goes to the
  subscribers, and whether the task has ended.
\<close>

fun run_subscriber_loop ::
  "('v \<Rightarrow> string option) \<Rightarrow> ('v \<Rightarrow> string option) \<Rightarrow> (string + string \<times> 'v) list \<Rightarrow>
   pubsub_message list \<times> bool" where
  "run_subscriber_loop text_of lossy_of [] = ([], False)"
| "run_subscriber_loop text_of lossy_of (Inl e # received) = ([], True)"
| "run_subscriber_loop text_of lossy_of (Inr (channel, val) # received) =
     (let (sent, over) = run_subscriber_loop text_of lossy_of received in
      case (case text_of val of Some s \<Rightarrow> Some s | None \<Rightarrow> lossy_of val) of
        Some payload \<Rightarrow> (\<lparr>msg_channel = channel, msg_payload = payload\<rparr> # sent, over)
      | None \<Rightarrow> (sent, over))"

text \<open>
  \<open>subscribe\<close>, up to the channel whose messages the receiver will get. The first caller makes the shared
  subscriber; a caller that finds it not ready waits for it, which lets the background task connect.
\<close>

definition pubsub_get_or_init :: "string \<Rightarrow> (('r, 'd, 'o) world, unit) prog" where
  "pubsub_get_or_init full_channel = act (\<lambda>w. ((), case pubsub w of
       None \<Rightarrow> w\<lparr>pubsub := Some (full_channel, None)\<rparr>
     | Some _ \<Rightarrow> w))"

definition pubsub_ready :: "('r, 'd, 'o) env \<Rightarrow> (('r, 'd, 'o) world, (string \<times> (string + unit) option) option) prog" where
  "pubsub_ready E = act (\<lambda>w. case pubsub w of
       Some (channel, None) \<Rightarrow>
         (case run (run_subscriber_start E) w of (r, w') \<Rightarrow>
            let p = Some (channel, Some (map_err cache_error_display r)) in (p, w'\<lparr>pubsub := p\<rparr>))
     | p \<Rightarrow> (p, w))"

definition subscribe :: "('r, 'd, 'o) env \<Rightarrow> string \<Rightarrow> ('r, 'd, 'o, string) cached" where
  "subscribe E channel =
     (let full_channel = make_key E ''pubsub'' channel in
      bind (pubsub_get_or_init full_channel) (\<lambda>_.
      bind (pubsub_ready E) (\<lambda>p. Ret (case p of
          Some (shared, Some (Inr _)) \<Rightarrow> Inr shared
        | Some (shared, Some (Inl e)) \<Rightarrow> Inl (CommandFailed (fred_io_error (e_lib E) e))
        | _ \<Rightarrow> Inl (ConnectionFailed ''pubsub subscriber did not start'')))))"

text \<open>A failed start is not tried again, and the channel of a later call is not looked at.\<close>

lemma subscribe_shared:
  assumes "pubsub w = Some (shared, Some r)"
  shows "run (subscribe E channel) w =
    (case r of Inr _ \<Rightarrow> Inr shared | Inl e \<Rightarrow> Inl (CommandFailed (fred_io_error (e_lib E) e)), w)"
  using assms
  by (cases r) (simp_all add: subscribe_def pubsub_get_or_init_def pubsub_ready_def run_simps Let_def)

lemma keeps_subscribe:
  assumes "\<And>r w. v (w\<lparr>redis := r\<rparr>) = v w" and "\<And>p w. v (w\<lparr>pubsub := p\<rparr>) = v w"
  shows "keeps v (subscribe E channel)"
proof -
  have start: "keeps v (run_subscriber_start E)"
    unfolding run_subscriber_start_def by (intro keeps_attempt keeps_redis_act assms(1))
  have "keeps v (pubsub_get_or_init c)" for c
    unfolding pubsub_get_or_init_def by (rule keeps_act) (simp add: assms(2) split: option.split)
  moreover have "keeps v (pubsub_ready E)"
    unfolding pubsub_ready_def
    by (rule keeps_act)
      (auto simp: assms(2) Let_def dest: keeps_run [OF start] split: option.split prod.split)
  ultimately show ?thesis
    unfolding subscribe_def Let_def by (intro keeps_bind) simp_all
qed

lemma keeps_publish:
  assumes "\<And>r w. v (w\<lparr>redis := r\<rparr>) = v w"
  shows "keeps v (publish E channel message)"
  unfolding publish_def Let_def by (rule keeps_redis_act) (rule assms)

end
