(* ===== verification/Resources.thy ===== *)
theory Resources
  imports Prelude
begin

text \<open>
  Accounting for resources that the handlers of a pool take and give back (permits, connection counts).
  A resource is a number read from the world, one per kind \<open>'k\<close>; each handler of the pool holds a part of
  it, and the parts add up to the number, at every point of every interleaving.
\<close>

section \<open>Steps of a pool\<close>

lemma pool_steps_step:
  assumes "pool_step E (w, ps) (w', ps')" and "\<And>p. p \<in> set ps \<Longrightarrow> steps T R p"
    and "\<And>w w'. E w w' \<Longrightarrow> T w w'"
  shows "T w w' \<and> (\<forall>p \<in> set ps'. steps T R p)"
  using assms(1)
proof (rule pool_stepE)
  fix i f p' v
  assume d: "(w', ps') = (v, ps[i := p'])" and i: "i < length ps" "ps ! i = Act f" "f w = (p', v)"
  with assms(2) [of "Act f"] have "steps T R (Act f)" by (metis nth_mem)
  with i have "T w v \<and> steps T R p'" by (blast elim: steps_ActE)
  then show ?thesis using d assms(2) set_update_subset_insert [of ps i p'] by auto
next
  fix v
  assume "(w', ps') = (v, ps)" and "E w v"
  then show ?thesis using assms by simp
qed

text \<open>What every step of every handler and of the environment keeps, the pool keeps.\<close>

lemma pool_steps:
  assumes "pool_reaches E (w, ps) (w', ps')" and "\<And>p. p \<in> set ps \<Longrightarrow> steps T R p"
    and "\<And>w w'. E w w' \<Longrightarrow> T w w'" and "reflp T" and "transp T"
  shows "T w w' \<and> (\<forall>p \<in> set ps'. steps T R p)"
  using assms(1)
proof (induction rule: rtranclp_induct2)
  case refl
  then show ?case using assms(2,4) by (auto simp: reflp_def)
next
  case (step v qs v' qs')
  from step(3) have "T w v" and qs: "\<And>p. p \<in> set qs \<Longrightarrow> steps T R p" by auto
  from step(2) qs assms(3) have "T v v' \<and> (\<forall>p \<in> set qs'. steps T R p)" by (rule pool_steps_step)
  then show ?case using step(3) assms(5) by (blast dest: transpD)
qed

text \<open>Rules for the steps alone, whatever the results.\<close>

lemma steps_bind_any [intro]:
  "steps T (\<lambda>_. True) p \<Longrightarrow> (\<And>a. steps T (\<lambda>_. True) (k a)) \<Longrightarrow> steps T (\<lambda>_. True) (bind p k)"
  by (erule steps_bind)

lemma steps_attempt_any [intro]:
  "steps T (\<lambda>_. True) p \<Longrightarrow> (\<And>a. steps T (\<lambda>_. True) (k a)) \<Longrightarrow> steps T (\<lambda>_. True) (attempt p k)"
  by (erule steps_attempt) auto

lemma steps_Ret_any [intro!, simp]: "steps T (\<lambda>_. True) (Ret a)"
  by (rule steps.Ret) simp

section \<open>Holding a part of a resource\<close>

text \<open>
  \<open>holds v R h p\<close>: the handler \<open>p\<close> holds the part \<open>h\<close> of the resources \<open>v\<close>; a step of \<open>p\<close>, taken where the
  resources cover its part, changes its part by exactly as much as it changes the resources; and it ends
  with the part that \<open>R\<close> says of its result.
\<close>

inductive holds ::
  "('w \<Rightarrow> 'k \<Rightarrow> int) \<Rightarrow> ('a \<Rightarrow> 'k \<Rightarrow> nat) \<Rightarrow> ('k \<Rightarrow> int) \<Rightarrow> ('w, 'a) prog \<Rightarrow> bool" for v R where
  Ret: "h = (\<lambda>k. int (R a k)) \<Longrightarrow> holds v R h (Ret a)"
| Act: "(\<And>k. 0 \<le> h k) \<Longrightarrow>
    (\<And>w p' w'. f w = (p', w') \<Longrightarrow> (\<And>k. h k \<le> v w k) \<Longrightarrow> holds v R (\<lambda>k. h k + (v w' k - v w k)) p') \<Longrightarrow>
    holds v R h (Act f)"

inductive_cases holds_RetE: "holds v R h (Ret a)"
inductive_cases holds_ActE: "holds v R h (Act f)"

lemma holds_nonneg: "holds v R h p \<Longrightarrow> 0 \<le> h k"
  by (induction rule: holds.cases) auto

lemma holds_act:
  fixes f :: "'w \<Rightarrow> 'a \<times> 'w"
  assumes "\<And>k. 0 \<le> h k"
    and "\<And>w a w' k. f w = (a, w') \<Longrightarrow> (\<And>k. h k \<le> v w k) \<Longrightarrow> h k + (v w' k - v w k) = int (R a k)"
  shows "holds v R h (act f)"
  unfolding act_def
proof (rule holds.Act)
  fix w w' and p' :: "('w, 'a) prog"
  assume f: "(case f w of (a, w') \<Rightarrow> (Ret a, w')) = (p', w')" and h: "\<And>k. h k \<le> v w k"
  then obtain a where a: "f w = (a, w')" and p': "p' = Ret a" by (auto split: prod.splits)
  show "holds v R (\<lambda>k. h k + (v w' k - v w k)) p'"
    unfolding p' by (rule holds.Ret) (simp add: assms(2) [OF a h])
qed (rule assms(1))

lemma holds_bind:
  assumes "holds v S h p" and "\<And>a. holds v R (\<lambda>k. int (S a k)) (g a)"
  shows "holds v R h (bind p g)"
  using assms(1)
proof induction
  case (Ret h a)
  then show ?case by (simp add: assms(2))
next
  case (Act h f)
  show ?case
    unfolding bind.simps
  proof (rule holds.Act)
    fix w q w'
    assume "map_prod (\<lambda>p. bind p g) id (f w) = (q, w')" and h: "\<And>k. h k \<le> v w k"
    then obtain p' where "f w = (p', w')" and q: "q = bind p' g" by (cases "f w") auto
    with Act.IH [OF _ h] show "holds v R (\<lambda>k. h k + (v w' k - v w k)) q" by simp
  qed (rule Act.hyps)
qed

text \<open>A handler that leaves the resources alone holds what it held.\<close>

lemma holds_keeps:
  assumes "keeps v p"
  shows "holds v (\<lambda>_. h) (\<lambda>k. int (h k)) p"
  using assms
proof induction
  case (Act f)
  show ?case by (rule holds.Act) (use Act in fastforce)+
qed (simp add: holds.Ret)

lemma holds_keeps_bind:
  assumes "keeps v p" and "\<And>a. holds v R (\<lambda>k. int (h k)) (g a)"
  shows "holds v R (\<lambda>k. int (h k)) (bind p g)"
  by (rule holds_bind [OF holds_keeps [OF assms(1)] assms(2)])

section \<open>The books of a pool\<close>

definition accounted :: "('w \<Rightarrow> 'k \<Rightarrow> int) \<Rightarrow> ('a \<Rightarrow> 'k \<Rightarrow> nat) \<Rightarrow> 'w \<times> ('w, 'a) prog list \<Rightarrow> bool" where
  "accounted v R c \<longleftrightarrow> (\<exists>hs. list_all2 (holds v R) hs (snd c) \<and>
     (\<forall>k. v (fst c) k = sum_list (map (\<lambda>h. h k) hs)))"

text \<open>What the handlers that have finished hold.\<close>

definition held_by_finished :: "('a \<Rightarrow> 'k \<Rightarrow> nat) \<Rightarrow> 'k \<Rightarrow> ('w, 'a) prog list \<Rightarrow> nat" where
  "held_by_finished R k ps = sum_list (map (\<lambda>p. case p of Ret a \<Rightarrow> R a k | Act _ \<Rightarrow> 0) ps)"

definition finished :: "('w, 'a) prog list \<Rightarrow> bool" where
  "finished ps \<longleftrightarrow> (\<forall>p \<in> set ps. \<exists>a. p = Ret a)"

lemma part_le_sum:
  fixes hs :: "int list"
  assumes "\<forall>h \<in> set hs. 0 \<le> h" and "i < length hs"
  shows "hs ! i \<le> sum_list hs"
  using assms
proof (induction hs arbitrary: i)
  case (Cons h hs)
  have "0 \<le> sum_list hs" by (rule sum_list_nonneg) (use Cons.prems in simp)
  with Cons show ?case by (cases i) fastforce+
qed simp

lemma sum_list_update_int:
  fixes hs :: "int list"
  shows "i < length hs \<Longrightarrow> sum_list (hs[i := h]) = sum_list hs + (h - hs ! i)"
proof (induction hs arbitrary: i)
  case (Cons x hs)
  then show ?case by (cases i) auto
qed simp

lemma accounted_step:
  assumes step: "pool_step E (w, ps) d" and ok: "accounted v R (w, ps)"
    and E: "\<And>w w'. E w w' \<Longrightarrow> v w' = v w"
  shows "accounted v R d"
  using step
proof (rule pool_stepE)
  fix i f p' w'
  assume d: "d = (w', ps[i := p'])" and i: "i < length ps" "ps ! i = Act f" "f w = (p', w')"
  from ok obtain hs where hs: "list_all2 (holds v R) hs ps" and v: "v w k = sum_list (map (\<lambda>h. h k) hs)" for k
    by (auto simp: accounted_def)
  from hs i have len: "i < length hs" by (simp add: list_all2_lengthD)
  have "holds v R (hs ! i) (Act f)" using list_all2_nthD [OF hs len] i by simp
  moreover have "(hs ! i) k \<le> v w k" for k
  proof -
    have "\<forall>x \<in> set (map (\<lambda>h. h k) hs). 0 \<le> x"
      using hs holds_nonneg by (induction rule: list_all2_induct) auto
    from part_le_sum [OF this, of i] len v show ?thesis by simp
  qed
  ultimately have "holds v R (\<lambda>k. (hs ! i) k + (v w' k - v w k)) p'" using i(3) by (blast elim: holds_ActE)
  with hs have "list_all2 (holds v R) (hs[i := \<lambda>k. (hs ! i) k + (v w' k - v w k)]) (ps[i := p'])"
    by (intro list_all2_update_cong)
  moreover have "v w' k = sum_list (map (\<lambda>h. h k) (hs[i := \<lambda>k. (hs ! i) k + (v w' k - v w k)]))" for k
    using len v [of k] by (simp add: map_update sum_list_update_int)
  ultimately show ?thesis unfolding accounted_def d fst_conv snd_conv by blast
next
  fix w'
  assume "d = (w', ps)" and "E w w'"
  then show ?thesis using ok E [of w w'] by (simp add: accounted_def)
qed

lemma accounted_reaches:
  assumes "pool_reaches E c d" and "accounted v R c" and "\<And>w w'. E w w' \<Longrightarrow> v w' = v w"
  shows "accounted v R d"
  using assms
proof (induction rule: rtranclp_induct)
  case (step y z)
  then show ?case by (cases y) (auto intro: accounted_step)
qed

lemma accounted_start:
  assumes "\<And>k. v w k = 0" and "\<And>p. p \<in> set ps \<Longrightarrow> holds v R (\<lambda>_. 0) p"
  shows "accounted v R (w, ps)"
  unfolding accounted_def
  by (rule exI [of _ "replicate (length ps) (\<lambda>_. 0)"])
    (auto simp: assms list_all2_conv_all_nth sum_list_replicate)

lemma accounted_finished:
  assumes "accounted v R (w, ps)"
  shows "int (held_by_finished R k ps) \<le> v w k" (is ?le)
    and "finished ps \<Longrightarrow> v w k = int (held_by_finished R k ps)"
proof -
  from assms obtain hs where hs: "list_all2 (holds v R) hs ps" and v: "v w k = sum_list (map (\<lambda>h. h k) hs)"
    by (auto simp: accounted_def)
  from hs have "int (held_by_finished R k ps) \<le> sum_list (map (\<lambda>h. h k) hs)"
  proof (induction rule: list_all2_induct)
    case (Cons h hs p ps)
    then show ?case
      by (cases p) (auto simp: held_by_finished_def elim!: holds_RetE dest: holds_nonneg [of _ _ _ _ k])
  qed (simp add: held_by_finished_def)
  with v show ?le by simp
  assume "finished ps"
  with hs have "sum_list (map (\<lambda>h. h k) hs) = int (held_by_finished R k ps)"
  proof (induction rule: list_all2_induct)
    case (Cons h hs p ps)
    then show ?case
      by (cases p) (auto simp: held_by_finished_def finished_def elim!: holds_RetE)
  qed (simp add: held_by_finished_def)
  with v show "v w k = int (held_by_finished R k ps)" by simp
qed

end
