(* ===== verification/Live.thy ===== *)
theory Live
  imports Notes Pubsub Resources
begin

text \<open>
  Live events over WebSockets (\<open>backend/api/src/live.rs\<close>): the events, who may open a connection, the
  limits on connections, and a connection's life from the request to the drop of its guards.
\<close>

section \<open>Events\<close>

definition live_events_channel :: string where
  "live_events_channel = ''live:events''"

datatype live_event =
    HealthUpdate string string "string option"
  | AuthEvent string "string option"
  | ConnectionStatus string

text \<open>The derived \<open>Serialize\<close> and \<open>Deserialize\<close>: tag \<open>type\<close>, content \<open>data\<close>, absent options left out.\<close>

definition opt_field :: "string \<Rightarrow> string option \<Rightarrow> (string \<times> json) list" where
  "opt_field k x = (case x of None \<Rightarrow> [] | Some s \<Rightarrow> [(k, JStr s)])"

fun live_event_json :: "live_event \<Rightarrow> json" where
  "live_event_json (HealthUpdate service st detail) = JObj [(''type'', JStr ''health_update''),
     (''data'', JObj ([(''service'', JStr service), (''status'', JStr st)] @ opt_field ''detail'' detail))]"
| "live_event_json (AuthEvent knd mail) = JObj [(''type'', JStr ''auth_event''),
     (''data'', JObj ([(''kind'', JStr knd)] @ opt_field ''email'' mail))]"
| "live_event_json (ConnectionStatus st) = JObj [(''type'', JStr ''connection_status''),
     (''data'', JObj [(''status'', JStr st)])]"

definition opt_str :: "json \<Rightarrow> string option option" where
  "opt_str j = (case j of JNull \<Rightarrow> Some None | JStr s \<Rightarrow> Some (Some s) | _ \<Rightarrow> None)"

definition live_event_of_json :: "json \<Rightarrow> live_event option" where
  "live_event_of_json j = (let d = json_get j ''data'' in
     case json_str (json_get j ''type'') of
       None \<Rightarrow> None
     | Some t \<Rightarrow>
       if t = ''health_update'' then
         (case (json_str (json_get d ''service''), json_str (json_get d ''status''), opt_str (json_get d ''detail'')) of
            (Some service, Some st, Some detail) \<Rightarrow> Some (HealthUpdate service st detail) | _ \<Rightarrow> None)
       else if t = ''auth_event'' then
         (case (json_str (json_get d ''kind''), opt_str (json_get d ''email'')) of
            (Some knd, Some mail) \<Rightarrow> Some (AuthEvent knd mail) | _ \<Rightarrow> None)
       else if t = ''connection_status'' then map_option ConnectionStatus (json_str (json_get d ''status''))
       else None)"

definition has_active_ws_connections :: "(('r, 'd, 'o) world, bool) prog" where
  "has_active_ws_connections = act (\<lambda>w. (0 < active_ws w, w))"

definition broadcast_event ::
  "('r, 'd, 'o) env \<Rightarrow> app_state \<Rightarrow> live_event \<Rightarrow> (('r, 'd, 'o) world, unit) prog" where
  "broadcast_event E A event =
     bind has_active_ws_connections (\<lambda>active.
     if \<not> active then Ret ()
     else if \<not> hs_redis (as_health A) then Ret ()
     else let payload = show_json (e_lib E) (live_event_json event) in
       map_result (\<lambda>_. ()) (publish E live_events_channel payload))"

section \<open>Who may open a connection\<close>

definition json_error :: "string \<Rightarrow> string" where
  "json_error m = ''{'' @ quote ''error'' @ '':'' @ quote m @ ''}''"

definition cookie_authenticated ::
  "('r, 'd, 'o) env \<Rightarrow> app_state \<Rightarrow> (string \<times> string) list \<Rightarrow> (('r, 'd, 'o) world, string option) prog" where
  "cookie_authenticated E A hs =
     (case Option.bind (header_text (e_lib E) hs ''cookie'') (\<lambda>cookies.
          find_map (\<lambda>c. strip_prefix ''session='' (trim c)) (split_on (CHR '';'') cookies)) of
        None \<Rightarrow> Ret None
      | Some session_id \<Rightarrow>
        if session_id = [] then Ret None
        else if \<not> hs_redis (as_health A) then Ret None
        else bind (session_get E session_id) (\<lambda>r. case r of
            Inr s \<Rightarrow> Ret (Some (user_id s))
          | Inl e \<Rightarrow> Ret None))"

definition origin_allowed :: "lib \<Rightarrow> app_state \<Rightarrow> (string \<times> string) list \<Rightarrow> bool" where
  "origin_allowed L A hs = (case as_allowed_origin A of
       None \<Rightarrow> True
     | Some want \<Rightarrow> (case header_text L hs ''origin'' of Some v \<Rightarrow> v = want | None \<Rightarrow> False))"

text \<open>The user of the connection, when one must be known, or the rejection.\<close>

definition ws_authenticate ::
  "('r, 'd, 'o) env \<Rightarrow> app_state \<Rightarrow> (string \<times> string) list \<Rightarrow> string option \<Rightarrow>
   (('r, 'd, 'o) world, plain_response + string option) prog" where
  "ws_authenticate E A hs token =
     attempt (case as_auth A of
         Some svc \<Rightarrow>
           (case token of
              Some token_value \<Rightarrow> bind (validate_token E (jwt svc) token_value) (\<lambda>r. case r of
                  Inr c \<Rightarrow> Ret (Inr (Some (sub c)))
                | Inl _ \<Rightarrow> Ret (Inl (401, json_error ''Invalid token'')))
            | None \<Rightarrow> map_result Inr (cookie_authenticated E A hs))
       | None \<Rightarrow> Ret (Inr None)) (\<lambda>maybe_user_id.
     if as_auth A \<noteq> None \<and> maybe_user_id = None
     then Ret (Inl (401, json_error ''Authentication required''))
     else Ret (Inr maybe_user_id))"

section \<open>Permits and the connections of a user\<close>

definition try_acquire_permit :: "(('r, 'd, 'o) world, bool) prog" where
  "try_acquire_permit = act (\<lambda>w. if ws_permits w = 0 then (False, w)
     else (True, w\<lparr>ws_permits := ws_permits w - 1\<rparr>))"

definition drop_permit :: "(('r, 'd, 'o) world, unit) prog" where
  "drop_permit = act (\<lambda>w. ((), w\<lparr>ws_permits := ws_permits w + 1\<rparr>))"

definition user_connections :: "('r, 'd, 'o) world \<Rightarrow> string \<Rightarrow> nat" where
  "user_connections w uid = (case hm_get (ws_users w) uid of Some n \<Rightarrow> n | None \<Rightarrow> 0)"

text \<open>The critical section of the connection counts: whether the user may have one more.\<close>

definition count_user_connection :: "app_state \<Rightarrow> string \<Rightarrow> (('r, 'd, 'o) world, bool) prog" where
  "count_user_connection A uid = act (\<lambda>w.
     let current = user_connections w uid in
     if ws_per_user_max (as_ws A) \<le> current then (False, w)
     else (True, w\<lparr>ws_users := hm_insert uid (current + 1) (ws_users w)\<rparr>))"

definition drop_ws_user_guard :: "string \<Rightarrow> (('r, 'd, 'o) world, unit) prog" where
  "drop_ws_user_guard uid = act (\<lambda>w. ((), case hm_get (ws_users w) uid of
       Some n \<Rightarrow> let n' = n - 1 in
         w\<lparr>ws_users := (if n' = 0 then hm_remove uid (ws_users w) else hm_insert uid n' (ws_users w))\<rparr>
     | None \<Rightarrow> w))"

text \<open>\<open>AtomicUsize\<close> wraps around at 64 bits.\<close>

definition open_ws_guard :: "(('r, 'd, 'o) world, unit) prog" where
  "open_ws_guard = act (\<lambda>w. ((), w\<lparr>active_ws := (active_ws w + 1) mod 2 ^ 64\<rparr>))"

definition drop_ws_guard :: "(('r, 'd, 'o) world, unit) prog" where
  "drop_ws_guard = act (\<lambda>w. ((), w\<lparr>active_ws := (active_ws w + (2 ^ 64 - 1)) mod 2 ^ 64\<rparr>))"

text \<open>\<open>Inr\<close> is \<open>WsConnectionOutcome::Permit\<close>, with the user; \<open>Inl\<close> is \<open>Reject\<close>.\<close>

definition validate_ws_connection ::
  "('r, 'd, 'o) env \<Rightarrow> app_state \<Rightarrow> (string \<times> string) list \<Rightarrow> string option \<Rightarrow>
   (('r, 'd, 'o) world, plain_response + string option) prog" where
  "validate_ws_connection E A hs token =
     (if \<not> origin_allowed (e_lib E) A hs then Ret (Inl (403, json_error ''Origin not allowed''))
      else attempt (ws_authenticate E A hs token) (\<lambda>maybe_user_id.
        if \<not> hs_redis (as_health A)
        then Ret (Inl (404, json_error (''WebSocket not available '' @ em_dash @ '' Redis is disabled'')))
        else bind try_acquire_permit (\<lambda>permit.
          if \<not> permit
          then Ret (Inl (503, json_error (''Server at capacity '' @ em_dash @ '' too many WebSocket connections'')))
          else case maybe_user_id of
              None \<Rightarrow> Ret (Inr None)
            | Some uid \<Rightarrow> bind (count_user_connection A uid) (\<lambda>ok.
                if ok then Ret (Inr (Some uid))
                else bind drop_permit (\<lambda>_.
                  Ret (Inl (429, json_error ''Too many connections from this user'')))))))"

section \<open>The loop of a connection\<close>

text \<open>
  What can happen next: the shutdown signal, something from the subscriber, or something from the client.
  \<open>Sent\<close>, \<open>SendFailed\<close> and \<open>SendTimedOut\<close> are the outcomes of sending a message on within 100 ms.
\<close>

datatype send_outcome = Sent | SendFailed | SendTimedOut

datatype ws_frame = FramePing | FramePong | FrameText | FrameBinary | FrameClose

datatype socket_event =
    Shutdown
  | Published string send_outcome
  | Lagged
  | ChannelClosed
  | FromClient ws_frame
  | ClientError
  | ClientGone

text \<open>
  Each turn of the loop waits for the next event: \<open>(d, e)\<close> is the event \<open>e\<close>, \<open>d\<close> milliseconds after the
  turn began. The idle timer starts anew in each turn. The result is what was sent to the client, and whether the loop has ended.
\<close>

fun socket_loop :: "nat \<Rightarrow> (nat \<times> socket_event) list \<Rightarrow> string list \<times> bool" where
  "socket_loop idle [] = ([], False)"
| "socket_loop idle ((d, e) # es) =
     (if idle < d then ([], True)
      else case e of
          Shutdown \<Rightarrow> ([], True)
        | Published payload out \<Rightarrow>
            (case out of
               Sent \<Rightarrow> (let (sent, over) = socket_loop idle es in (payload # sent, over))
             | SendFailed \<Rightarrow> ([], True)
             | SendTimedOut \<Rightarrow> socket_loop idle es)
        | Lagged \<Rightarrow> socket_loop idle es
        | ChannelClosed \<Rightarrow> ([], True)
        | FromClient frame \<Rightarrow> (if frame = FrameClose then ([], True) else socket_loop idle es)
        | ClientError \<Rightarrow> ([], True)
        | ClientGone \<Rightarrow> ([], True))"

text \<open>
  How a request for a connection ends: it is refused; the upgrade is not completed, and the future that
  would have run the socket is dropped; the connection is over; or it is still open when the given events
  are used up. \<open>string list\<close> is what was sent to the client.
\<close>

datatype ws_outcome =
    WsRefused plain_response
  | WsUpgradeFailed "string option"
  | WsClosed "string list"
  | WsOpen "string option" "string list"

text \<open>The guards of a socket, dropped in the reverse order of their making, then the permit.\<close>

definition drop_guards :: "string option \<Rightarrow> (('r, 'd, 'o) world, unit) prog" where
  "drop_guards user =
     bind (case user of Some uid \<Rightarrow> drop_ws_user_guard uid | None \<Rightarrow> Ret ()) (\<lambda>_.
     bind drop_ws_guard (\<lambda>_. drop_permit))"

definition handle_socket ::
  "('r, 'd, 'o) env \<Rightarrow> nat \<Rightarrow> string option \<Rightarrow> (nat \<times> socket_event) list \<Rightarrow>
   (('r, 'd, 'o) world, ws_outcome) prog" where
  "handle_socket E idle user events =
     bind open_ws_guard (\<lambda>_.
     bind (subscribe E live_events_channel) (\<lambda>subscriber. case subscriber of
         Inl e \<Rightarrow> bind (drop_guards user) (\<lambda>_. Ret (WsClosed []))
       | Inr _ \<Rightarrow> (case socket_loop idle events of
             (sent, over) \<Rightarrow>
               if over then bind (drop_guards user) (\<lambda>_. Ret (WsClosed sent))
               else Ret (WsOpen user sent))))"

text \<open>
  \<open>ws_handler\<close> and the task it hands to the upgrade. \<open>params\<close> is the query string, \<open>upgraded\<close> says whether
  the client completes the upgrade, \<open>events\<close> is what happens on the socket.
\<close>

definition ws_handler ::
  "('r, 'd, 'o) env \<Rightarrow> app_state \<Rightarrow> (string \<times> string) list \<Rightarrow> (string \<Rightarrow> string option) \<Rightarrow> bool \<Rightarrow>
   (nat \<times> socket_event) list \<Rightarrow> (('r, 'd, 'o) world, ws_outcome) prog" where
  "ws_handler E A hs params upgraded events =
     (let token = params ''token'' in
      bind (validate_ws_connection E A hs token) (\<lambda>outcome. case outcome of
          Inr user \<Rightarrow>
            if upgraded then handle_socket E (1000 * unat (ws_idle_timeout (as_ws A))) user events
            else bind drop_permit (\<lambda>_. Ret (WsUpgradeFailed user))
        | Inl response \<Rightarrow> Ret (WsRefused response)))"

section \<open>The books\<close>

text \<open>
  The resources: permits in use, permits in use by connections that are not counted as active,
  active connections, and the connections of each user. And what is held at the end.
\<close>

datatype ws_resource = Permits | Starting | Active | OfUser string

primrec ws_resources :: "nat \<Rightarrow> ('r, 'd, 'o) world \<Rightarrow> ws_resource \<Rightarrow> int" where
  "ws_resources mx w Permits = int mx - int (ws_permits w)"
| "ws_resources mx w Starting = int mx - int (ws_permits w) - int (active_ws w)"
| "ws_resources mx w Active = int (active_ws w)"
| "ws_resources mx w (OfUser uid) = int (user_connections w uid)"

definition ws_part :: "bool \<Rightarrow> bool \<Rightarrow> string option \<Rightarrow> ws_resource \<Rightarrow> nat" where
  "ws_part permit running user k = (case k of
       Permits \<Rightarrow> of_bool permit | Starting \<Rightarrow> of_bool (permit \<and> \<not> running) | Active \<Rightarrow> of_bool running
     | OfUser uid \<Rightarrow> of_bool (user = Some uid))"

definition ws_left :: "ws_outcome \<Rightarrow> ws_resource \<Rightarrow> nat" where
  "ws_left r = (case r of
       WsRefused _ \<Rightarrow> ws_part False False None
     | WsUpgradeFailed user \<Rightarrow> ws_part False False user
     | WsClosed _ \<Rightarrow> ws_part False False None
     | WsOpen user _ \<Rightarrow> ws_part True True user)"

lemma ws_part_simps [simp]:
  "ws_part p a u Permits = of_bool p" "ws_part p a u Starting = of_bool (p \<and> \<not> a)"
  "ws_part p a u Active = of_bool a" "ws_part p a u (OfUser uid) = of_bool (u = Some uid)"
  by (simp_all add: ws_part_def)

lemma ws_part_0: "(\<lambda>k. int (ws_part False False None k)) = (\<lambda>_. 0)"
  by (auto simp: ws_part_def split: ws_resource.split)

lemma user_connections_update [simp]:
  "user_connections (w\<lparr>ws_permits := n\<rparr>) uid = user_connections w uid"
  "user_connections (w\<lparr>active_ws := n\<rparr>) uid = user_connections w uid"
  by (simp_all add: user_connections_def)

lemma holds_acquire:
  "holds (ws_resources mx) (\<lambda>ok. ws_part ok False None) (\<lambda>k. int (ws_part False False None k))
     try_acquire_permit"
  unfolding try_acquire_permit_def
  by (rule holds_act) (auto split: if_splits simp: ws_part_def split: ws_resource.splits)

lemma holds_drop_permit:
  "holds (ws_resources mx) (\<lambda>_. ws_part False False u) (\<lambda>k. int (ws_part True False u k)) drop_permit"
  unfolding drop_permit_def
  by (rule holds_act) (auto simp: ws_part_def split: ws_resource.splits)

lemma holds_count:
  "holds (ws_resources mx) (\<lambda>ok. ws_part True False (if ok then Some uid else None)) (\<lambda>k. int (ws_part True False None k))
     (count_user_connection A uid)"
  unfolding count_user_connection_def
  by (rule holds_act)
    (auto simp: ws_part_def Let_def user_connections_def split: ws_resource.splits if_splits option.splits)

lemma holds_drop_user:
  "holds (ws_resources mx) (\<lambda>_. ws_part True True None) (\<lambda>k. int (ws_part True True (Some uid) k)) (drop_ws_user_guard uid)"
  unfolding drop_ws_user_guard_def
proof (rule holds_act)
  fix w :: "('a, 'b, 'c) world" and a w' k
  assume h: "\<And>k. int (ws_part True True (Some uid) k) \<le> ws_resources mx w k"
  from h [of "OfUser uid"] have "1 \<le> user_connections w uid" by simp
  moreover assume "((), case hm_get (ws_users w) uid of
       Some n \<Rightarrow> let n' = n - 1 in
         w\<lparr>ws_users := (if n' = 0 then hm_remove uid (ws_users w) else hm_insert uid n' (ws_users w))\<rparr>
     | None \<Rightarrow> w) = (a, w')"
  ultimately show "int (ws_part True True (Some uid) k) + (ws_resources mx w' k - ws_resources mx w k) = int (ws_part True True None k)"
    by (cases k) (auto simp: user_connections_def Let_def split: option.splits if_splits)
qed simp

lemma holds_open:
  assumes "mx < 2 ^ 64"
  shows "holds (ws_resources mx) (\<lambda>_. ws_part True True u) (\<lambda>k. int (ws_part True False u k)) open_ws_guard"
  unfolding open_ws_guard_def
proof (rule holds_act)
  fix w :: "('a, 'b, 'c) world" and a w' k
  assume h: "\<And>k. int (ws_part True False u k) \<le> ws_resources mx w k"
  from h [of Starting] assms have "active_ws w + 1 < 2 ^ 64" by simp
  moreover assume "((), w\<lparr>active_ws := (active_ws w + 1) mod 2 ^ 64\<rparr>) = (a, w')"
  ultimately show "int (ws_part True False u k) + (ws_resources mx w' k - ws_resources mx w k) = int (ws_part True True u k)"
    by (cases k) auto
qed simp

lemma holds_drop_active:
  assumes "mx < 2 ^ 64"
  shows "holds (ws_resources mx) (\<lambda>_. ws_part True False u) (\<lambda>k. int (ws_part True True u k)) drop_ws_guard"
  unfolding drop_ws_guard_def
proof (rule holds_act)
  fix w :: "('a, 'b, 'c) world" and a w' k
  assume h: "\<And>k. int (ws_part True True u k) \<le> ws_resources mx w k"
  from h [of Active] have "1 \<le> active_ws w" by simp
  moreover from h [of Starting] assms have "active_ws w < 2 ^ 64" by simp
  ultimately have "(active_ws w + (2 ^ 64 - 1)) mod 2 ^ 64 = active_ws w - 1"
    by (simp add: mod_if)
  moreover assume "((), w\<lparr>active_ws := (active_ws w + (2 ^ 64 - 1)) mod 2 ^ 64\<rparr>) = (a, w')"
  ultimately show "int (ws_part True True u k) + (ws_resources mx w' k - ws_resources mx w k) = int (ws_part True False u k)"
    using \<open>1 \<le> active_ws w\<close> by (cases k) auto
qed simp

section \<open>A connection keeps the books\<close>

text \<open>What the other steps leave alone.\<close>

lemma keeps_session_get:
  assumes "\<And>r w. v (w\<lparr>redis := r\<rparr>) = v w" and "\<And>c o' w. v (w\<lparr>session_cache := c, outside := o'\<rparr>) = v w"
  shows "keeps v (session_get E sid)"
  unfolding session_get_def session_cache_get_def session_cache_put_def Let_def
  by (auto simp: assms split: option.split sum.split prod.split
      intro!: keeps_bind keeps_attempt keeps_act keeps_redis_act)

lemma keeps_ws_authenticate:
  assumes "\<And>r w. v (w\<lparr>redis := r\<rparr>) = v w" and "\<And>c o' w. v (w\<lparr>session_cache := c, outside := o'\<rparr>) = v w"
    and "\<And>o' w. v (w\<lparr>outside := o'\<rparr>) = v w"
  shows "keeps v (ws_authenticate E A hs token)"
proof -
  have c: "keeps v (cookie_authenticated E A hs)"
    unfolding cookie_authenticated_def
    by (auto intro!: keeps_bind keeps_session_get assms split: option.split sum.split)
  have t: "keeps v (validate_token E J t)" for J t
    unfolding validate_token_def by (intro keeps_bind keeps_os_act assms(3) keeps_Ret)
  show ?thesis
    unfolding ws_authenticate_def
    by (auto intro!: keeps_attempt keeps_bind keeps_map_result c t split: option.split sum.split)
qed

text \<open>The fields of the books, together.\<close>

definition ws_fields :: "('r, 'd, 'o) world \<Rightarrow> nat \<times> nat \<times> nat hmap" where
  "ws_fields w = (ws_permits w, active_ws w, ws_users w)"

lemma ws_fields_update [simp]:
  "ws_fields (w\<lparr>redis := r\<rparr>) = ws_fields w" "ws_fields (w\<lparr>outside := o'\<rparr>) = ws_fields w"
  "ws_fields (w\<lparr>session_cache := c\<rparr>) = ws_fields w" "ws_fields (w\<lparr>pubsub := p\<rparr>) = ws_fields w"
  by (simp_all add: ws_fields_def)

lemma ws_resources_fields: "ws_fields w' = ws_fields w \<Longrightarrow> ws_resources mx w' = ws_resources mx w"
proof
  fix k
  assume "ws_fields w' = ws_fields w"
  then show "ws_resources mx w' k = ws_resources mx w k"
    by (cases k) (simp_all add: ws_fields_def user_connections_def)
qed

lemma keeps_ws_resources: "keeps ws_fields p \<Longrightarrow> keeps (ws_resources mx) p"
  by (erule steps_mono) (rule ws_resources_fields)

lemma live_frame:
  "keeps ws_fields (ws_authenticate E A hs token)" "keeps ws_fields (subscribe E channel)"
  by (rule keeps_ws_authenticate keeps_subscribe; simp)+

abbreviation (input) holds_ws where
  "holds_ws mx R p a u \<equiv> holds (ws_resources mx) R (\<lambda>k. int (ws_part p a u k))"

lemma holds_ws_Ret: "R a = ws_part p q u \<Longrightarrow> holds_ws mx R p q u (Ret a)"
  by (rule holds.Ret) simp

lemma holds_drop_guards:
  assumes "mx < 2 ^ 64"
  shows "holds_ws mx (\<lambda>_. ws_part False False None) True True user (drop_guards user)"
  unfolding drop_guards_def
proof (rule holds_bind)
  show "holds_ws mx (\<lambda>_. ws_part True True None) True True user
      (case user of None \<Rightarrow> Ret () | Some uid \<Rightarrow> drop_ws_user_guard uid)"
    by (cases user) (simp_all add: holds_drop_user holds_ws_Ret)
  show "holds_ws mx (\<lambda>_. ws_part False False None) True True None (bind drop_ws_guard (\<lambda>_. drop_permit))"
    by (rule holds_bind [OF holds_drop_active [OF assms] holds_drop_permit])
qed

lemma holds_closing:
  assumes "mx < 2 ^ 64"
  shows "holds_ws mx ws_left True True user (bind (drop_guards user) (\<lambda>_. Ret (WsClosed sent)))"
  by (rule holds_bind [OF holds_drop_guards [OF assms] holds_ws_Ret]) (simp add: ws_left_def)

lemma holds_handle_socket:
  assumes "mx < 2 ^ 64"
  shows "holds_ws mx ws_left True False user (handle_socket E idle user events)"
  unfolding handle_socket_def
proof (rule holds_bind [OF holds_open [OF assms] holds_keeps_bind])
  show "keeps (ws_resources mx) (subscribe E live_events_channel)"
    by (rule keeps_ws_resources) (rule live_frame)
  fix subscriber
  have "holds_ws mx ws_left True True user (Ret (WsOpen user sent))" for sent
    by (rule holds_ws_Ret) (simp add: ws_left_def)
  then show "holds_ws mx ws_left True True user (case subscriber of
         Inl e \<Rightarrow> bind (drop_guards user) (\<lambda>_. Ret (WsClosed []))
       | Inr _ \<Rightarrow> (case socket_loop idle events of
             (sent, over) \<Rightarrow>
               if over then bind (drop_guards user) (\<lambda>_. Ret (WsClosed sent))
               else Ret (WsOpen user sent)))"
    by (auto simp: holds_closing [OF assms] split: sum.split prod.split)
qed

lemma holds_validate:
  "holds_ws mx (\<lambda>r. case r of Inl _ \<Rightarrow> ws_part False False None | Inr user \<Rightarrow> ws_part True False user) False False None
     (validate_ws_connection E A hs token)" (is "holds_ws mx ?R False False None _")
proof -
  have ret: "holds_ws mx ?R False False None (Ret (Inl x))" for x by (rule holds_ws_Ret) simp
  have full: "holds_ws mx ?R True False None (bind drop_permit (\<lambda>_. Ret (Inl x)))" for x
    by (rule holds_bind [OF holds_drop_permit ret])
  have user: "holds_ws mx ?R True False None (bind (count_user_connection A uid) (\<lambda>ok.
      if ok then Ret (Inr (Some uid)) else bind drop_permit (\<lambda>_. Ret (Inl x))))" for uid x
  proof (rule holds_bind [OF holds_count])
    fix ok
    show "holds_ws mx ?R True False (if ok then Some uid else None)
        (if ok then Ret (Inr (Some uid)) else bind drop_permit (\<lambda>_. Ret (Inl x)))"
      by (cases ok) (simp_all add: full holds_ws_Ret)
  qed
  have permit: "holds_ws mx ?R False False None (bind try_acquire_permit (\<lambda>permit. if \<not> permit then Ret (Inl x)
      else case u of None \<Rightarrow> Ret (Inr None) | Some uid \<Rightarrow> bind (count_user_connection A uid) (\<lambda>ok.
        if ok then Ret (Inr (Some uid)) else bind drop_permit (\<lambda>_. Ret (Inl y)))))" for x y u
  proof (rule holds_bind [OF holds_acquire])
    fix permit
    show "holds_ws mx ?R permit False None (if \<not> permit then Ret (Inl x)
      else case u of None \<Rightarrow> Ret (Inr None) | Some uid \<Rightarrow> bind (count_user_connection A uid) (\<lambda>ok.
        if ok then Ret (Inr (Some uid)) else bind drop_permit (\<lambda>_. Ret (Inl y))))"
      by (cases permit; cases u) (simp_all add: ret user holds_ws_Ret)
  qed
  have auth: "keeps (ws_resources mx) (ws_authenticate E A hs token)"
    by (rule keeps_ws_resources) (rule live_frame)
  show ?thesis
    unfolding validate_ws_connection_def attempt_def
    using ret permit holds_keeps_bind [OF auth]
    by (auto split: sum.split intro!: holds_keeps_bind [OF auth])
qed

lemma holds_ws_handler:
  assumes "mx < 2 ^ 64"
  shows "holds_ws mx ws_left False False None (ws_handler E A hs params upgraded events)"
  unfolding ws_handler_def Let_def
proof (rule holds_bind [OF holds_validate])
  fix r
  have refused: "holds_ws mx ws_left False False None (Ret (WsRefused x))" for x
    by (rule holds_ws_Ret) (simp add: ws_left_def)
  have failed: "holds_ws mx ws_left True False user (bind drop_permit (\<lambda>_. Ret (WsUpgradeFailed user)))" for user
    by (rule holds_bind [OF holds_drop_permit holds_ws_Ret]) (simp add: ws_left_def)
  show "holds (ws_resources mx) ws_left
      (\<lambda>k. int ((case r of Inl _ \<Rightarrow> ws_part False False None | Inr user \<Rightarrow> ws_part True False user) k))
      (case r of
          Inr user \<Rightarrow>
            if upgraded then handle_socket E (1000 * unat (ws_idle_timeout (as_ws A))) user events
            else bind drop_permit (\<lambda>_. Ret (WsUpgradeFailed user))
        | Inl response \<Rightarrow> Ret (WsRefused response))"
    by (cases r) (simp_all add: refused failed holds_handle_socket [OF assms])
qed

section \<open>The limits\<close>

text \<open>What all the other requests leave alone, and the connections of a pool.\<close>

definition only_ws_handlers ::
  "('r, 'd, 'o) env \<Rightarrow> app_state \<Rightarrow> (('r, 'd, 'o) world, ws_outcome) prog list \<Rightarrow> bool" where
  "only_ws_handlers E A ps \<longleftrightarrow>
     (\<forall>p \<in> set ps. \<exists>hs params upgraded events. p = ws_handler E A hs params upgraded events)"

text \<open>The connections still open when the given events are used up, and those of one user.\<close>

definition open_connections :: "('w, ws_outcome) prog list \<Rightarrow> nat" where
  "open_connections ps = length (filter (\<lambda>p. case p of Ret (WsOpen _ _) \<Rightarrow> True | _ \<Rightarrow> False) ps)"

definition open_or_failed_of :: "string \<Rightarrow> ('w, ws_outcome) prog list \<Rightarrow> nat" where
  "open_or_failed_of uid ps = length (filter (\<lambda>p. case p of
       Ret (WsOpen user _) \<Rightarrow> user = Some uid | Ret (WsUpgradeFailed user) \<Rightarrow> user = Some uid | _ \<Rightarrow> False) ps)"

lemma held_open: "held_by_finished ws_left Permits ps = open_connections ps"
  "held_by_finished ws_left Active ps = open_connections ps"
  by (induction ps)
    (auto simp: held_by_finished_def open_connections_def ws_left_def split: prog.split ws_outcome.split)

lemma held_user: "held_by_finished ws_left (OfUser uid) ps = open_or_failed_of uid ps"
  by (induction ps)
    (auto simp: held_by_finished_def open_or_failed_of_def ws_left_def split: prog.split ws_outcome.split)

lemma ws_accounted:
  assumes "pool_reaches F (w, ps) (w', ps')" and "only_ws_handlers E A ps"
    and "\<And>w w'. F w w' \<Longrightarrow> ws_fields w' = ws_fields w"
    and "ws_fields w = (mx, 0, [])" and "mx < 2 ^ 64"
  shows "accounted (ws_resources mx) ws_left (w', ps')"
  using assms(1)
proof (rule accounted_reaches)
  have "ws_resources mx w k = 0" for k
    using assms(4) by (cases k) (simp_all add: ws_fields_def user_connections_def)
  then show "accounted (ws_resources mx) ws_left (w, ps)"
  proof (rule accounted_start)
    fix p
    assume "p \<in> set ps"
    with assms(2) obtain hs params upgraded events where p: "p = ws_handler E A hs params upgraded events"
      by (auto simp: only_ws_handlers_def)
    show "holds (ws_resources mx) ws_left (\<lambda>_. 0) p"
      unfolding p by (rule holds_ws_handler [OF assms(5), unfolded ws_part_0])
  qed
qed (rule ws_resources_fields, rule assms(3))

text \<open>The count of a user only grows below the limit.\<close>

definition users_within :: "nat \<Rightarrow> ('r, 'd, 'o) world \<Rightarrow> bool" where
  "users_within n w \<longleftrightarrow> (\<forall>uid. user_connections w uid \<le> n)"

abbreviation (input) stays_within where
  "stays_within n \<equiv> steps (\<lambda>w w'. users_within n w \<longrightarrow> users_within n w') (\<lambda>_. True)"

lemma stays_within_fields: "keeps ws_fields p \<Longrightarrow> stays_within n p"
  by (erule steps_mono) (auto simp: users_within_def ws_fields_def user_connections_def)

lemma stays_within_steps:
  "stays_within n try_acquire_permit" "stays_within n drop_permit" "stays_within n open_ws_guard"
  "stays_within n drop_ws_guard"
  unfolding try_acquire_permit_def drop_permit_def open_ws_guard_def drop_ws_guard_def
  by (rule steps_act; auto simp: users_within_def split: if_splits)+

lemma stays_within_drop_user: "stays_within n (drop_ws_user_guard uid)"
  unfolding drop_ws_user_guard_def
proof (rule steps_act)
  fix w :: "('a, 'b, 'c) world" and a w'
  assume "((), case hm_get (ws_users w) uid of
       Some n \<Rightarrow> let n' = n - 1 in
         w\<lparr>ws_users := (if n' = 0 then hm_remove uid (ws_users w) else hm_insert uid n' (ws_users w))\<rparr>
     | None \<Rightarrow> w) = (a, w')"
  then have "user_connections w' u \<le> user_connections w u" for u
    by (auto simp: user_connections_def Let_def split: if_splits option.splits)
  then show "(users_within n w \<longrightarrow> users_within n w') \<and> True"
    by (auto simp: users_within_def intro: order_trans)
qed

lemma stays_within_count: "stays_within (ws_per_user_max (as_ws A)) (count_user_connection A uid)"
  unfolding count_user_connection_def
  by (rule steps_act) (auto simp: users_within_def user_connections_def Let_def split: if_splits)

lemma stays_within_handler:
  "stays_within (ws_per_user_max (as_ws A)) (ws_handler E A hs params upgraded events)"
proof -
  have guards: "stays_within n (drop_guards user)" for n user
    unfolding drop_guards_def
    by (intro steps_bind_any stays_within_steps) (auto simp: stays_within_drop_user split: option.split)
  have socket: "stays_within n (handle_socket E idle user events)" for n idle user
    unfolding handle_socket_def
    by (intro steps_bind_any stays_within_steps stays_within_fields [OF live_frame(2)])
      (auto simp: guards split: sum.split prod.split)
  have "stays_within (ws_per_user_max (as_ws A)) (validate_ws_connection E A hs token)" for token
    unfolding validate_ws_connection_def
    by (auto simp: stays_within_steps stays_within_count stays_within_fields [OF live_frame(1)]
        split: option.split intro!: steps_attempt_any steps_bind_any)
  then show ?thesis
    unfolding ws_handler_def Let_def
    by (intro steps_bind_any) (auto simp: stays_within_steps socket split: sum.split)
qed

text \<open>
  C31. Whatever the interleaving of connection attempts, sockets and other requests, the open
  WebSocket connections are never more than the permits of the semaphore: the active-connection counter
  and the free permits together stay within the configured maximum (so the counter never wraps around), the
  connections still open are counted as active, and no user ever has more connections counted than the
  per-user limit allows.
\<close>

theorem ws_limits:
  assumes "pool_reaches F (w, ps) (w', ps')" and "only_ws_handlers E A ps"
    and "\<And>w w'. F w w' \<Longrightarrow> ws_permits w' = ws_permits w \<and> active_ws w' = active_ws w \<and> ws_users w' = ws_users w"
    and "ws_permits w = mx" and "active_ws w = 0" and "ws_users w = []" and "mx < 2 ^ 64"
  shows "active_ws w' + ws_permits w' \<le> mx \<and> open_connections ps' \<le> active_ws w' \<and>
    user_connections w' uid \<le> ws_per_user_max (as_ws A)"
proof (intro conjI)
  let ?T = "\<lambda>w w' :: ('a, 'b, 'c) world. users_within (ws_per_user_max (as_ws A)) w \<longrightarrow>
    users_within (ws_per_user_max (as_ws A)) w'"
  have F: "F w w' \<Longrightarrow> ws_fields w' = ws_fields w" for w w' using assms(3) by (simp add: ws_fields_def)
  have start: "ws_fields w = (mx, 0, [])" using assms by (simp add: ws_fields_def)
  from ws_accounted [OF assms(1,2) F start assms(7)] have acc: "accounted (ws_resources mx) ws_left (w', ps')"
    by simp
  from accounted_finished(1) [OF acc, of Starting] show "active_ws w' + ws_permits w' \<le> mx" by simp
  from accounted_finished(1) [OF acc, of Active] show "open_connections ps' \<le> active_ws w'"
    by (simp add: held_open)
  have "?T w w' \<and> (\<forall>p \<in> set ps'. steps ?T (\<lambda>_. True) p)"
  proof (rule pool_steps [OF assms(1)])
    fix p
    assume "p \<in> set ps"
    with assms(2) obtain hs params upgraded events where p: "p = ws_handler E A hs params upgraded events"
      by (auto simp: only_ws_handlers_def)
    show "steps ?T (\<lambda>_. True) p" unfolding p by (rule stays_within_handler)
  next
    show "?T v v'" if "F v v'" for v v'
      using assms(3) [OF that] by (simp add: users_within_def user_connections_def)
  qed (auto simp: reflp_def transp_def)
  moreover have "users_within (ws_per_user_max (as_ws A)) w"
    using assms(6) by (simp add: users_within_def user_connections_def)
  ultimately show "user_connections w' uid \<le> ws_per_user_max (as_ws A)" by (simp add: users_within_def)
qed

text \<open>
  C32. When no connection is being set up or torn down, every slot that is taken belongs to
  an open connection: all other permits are free again and the counter of active connections is exact. The
  count of a user is the number of that user's open connections plus the upgrades of that user that were
  never completed: those are never given back.
\<close>

theorem ws_slots_returned:
  assumes "pool_reaches F (w, ps) (w', ps')" and "only_ws_handlers E A ps"
    and "\<And>w w'. F w w' \<Longrightarrow> ws_permits w' = ws_permits w \<and> active_ws w' = active_ws w \<and> ws_users w' = ws_users w"
    and "ws_permits w = mx" and "active_ws w = 0" and "ws_users w = []" and "mx < 2 ^ 64"
    and "finished ps'"
  shows "ws_permits w' + open_connections ps' = mx \<and> active_ws w' = open_connections ps' \<and>
    user_connections w' uid = open_or_failed_of uid ps'"
proof -
  have F: "F w w' \<Longrightarrow> ws_fields w' = ws_fields w" for w w' using assms(3) by (simp add: ws_fields_def)
  have start: "ws_fields w = (mx, 0, [])" using assms by (simp add: ws_fields_def)
  from ws_accounted [OF assms(1,2) F start assms(7)] have acc: "accounted (ws_resources mx) ws_left (w', ps')"
    by simp
  from accounted_finished(2) [OF acc assms(8), of Permits] accounted_finished(2) [OF acc assms(8), of Active]
    accounted_finished(2) [OF acc assms(8), of "OfUser uid"]
  show ?thesis by (simp add: held_open held_user)
qed

section \<open>Only authenticated users from an allowed origin\<close>

text \<open>The lookup of the session cookie is the one of the HTTP middleware.\<close>

lemma session_cookie:
  "cookie_authenticated E A hs =
     (case Option.bind (header_text (e_lib E) hs ''cookie'') (\<lambda>cookies. parse_cookie_value cookies ''session'') of
        None \<Rightarrow> Ret None
      | Some sid \<Rightarrow> if \<not> hs_redis (as_health A) then Ret None
          else map_result (\<lambda>r. case r of Inr s \<Rightarrow> Some (user_id s) | Inl e \<Rightarrow> None) (session_get E sid))"
  by (auto simp: cookie_authenticated_def parse_cookie_value_def map_result_def Let_def
      split: option.split bind_split intro!: arg_cong2 [where f = bind] ext split: sum.split)

text \<open>What a user shows: a token that decodes now, or, without one, a session cookie.\<close>

definition ws_credentials ::
  "('r, 'd, 'o) env \<Rightarrow> auth_service \<Rightarrow> (string \<times> string) list \<Rightarrow> string option \<Rightarrow> ('r, 'd, 'o) world \<Rightarrow>
   string \<Rightarrow> bool" where
  "ws_credentials E svc hs token w uid \<longleftrightarrow>
     (\<exists>t c. token = Some t \<and> jwt_decode (e_lib E) (jwt_secret (jwt svc)) (jwt_issuer (jwt svc))
        (fst (os_now (e_os E) (outside w))) t = Inr c \<and> uid = sub c) \<or>
     (\<exists>cookies sid s w'. token = None \<and> header_text (e_lib E) hs ''cookie'' = Some cookies \<and>
        parse_cookie_value cookies ''session'' = Some sid \<and> run (session_get E sid) w = (Inr s, w') \<and>
        uid = user_id s)"

lemma ws_authenticate_Inr:
  assumes "run (ws_authenticate E A hs token) w = (Inr user, w')" and "as_auth A = Some svc"
  shows "\<exists>uid. user = Some uid \<and> ws_credentials E svc hs token w uid"
  using assms
  by (auto simp: ws_authenticate_def run_simps validate_token_def session_cookie ws_credentials_def bind_eq_Some_conv
      split: option.splits sum.splits prod.splits if_splits)

text \<open>
  C33. A request is only given a WebSocket connection if Redis is configured, its
  origin is the configured one (when one is configured) and, when authentication is configured, it shows a
  token that decodes at the current time, or no token and a session cookie whose session the store
  returns; the connection is then counted for that user.
\<close>

theorem ws_only_authenticated:
  assumes "run (validate_ws_connection E A hs token) w = (Inr user, w')"
  shows "hs_redis (as_health A) \<and>
    (\<forall>want. as_allowed_origin A = Some want \<longrightarrow> header_text (e_lib E) hs ''origin'' = Some want) \<and>
    (\<forall>svc. as_auth A = Some svc \<longrightarrow> (\<exists>uid. user = Some uid \<and> ws_credentials E svc hs token w uid))"
proof (intro conjI allI impI)
  from assms have origin: "origin_allowed (e_lib E) A hs"
    by (auto simp: validate_ws_connection_def run_simps split: if_splits)
  then show "header_text (e_lib E) hs ''origin'' = Some want" if "as_allowed_origin A = Some want" for want
    using that by (auto simp: origin_allowed_def split: option.splits)
  from assms origin obtain u v where auth: "run (ws_authenticate E A hs token) w = (Inr u, v)"
    and redis: "hs_redis (as_health A)" and user: "user = u"
    by (auto simp: validate_ws_connection_def run_simps split: if_splits option.splits prod.splits sum.splits)
  show "hs_redis (as_health A)" by (rule redis)
  show "\<exists>uid. user = Some uid \<and> ws_credentials E svc hs token w uid" if "as_auth A = Some svc" for svc
    unfolding user by (rule ws_authenticate_Inr [OF auth that])
qed

section \<open>Examples\<close>

text \<open>Ann's session is in the session cache; she connects twice, and the second upgrade is never completed.\<close>

definition live_world :: "(rdb, pg, osstate) world" where
  "live_world = ann_world\<lparr>session_cache := Some [(''s'', 1000, ann)]\<rparr>"

definition ann_connects :: "bool \<Rightarrow> ((rdb, pg, osstate) world, ws_outcome) prog" where
  "ann_connects upgraded =
     ws_handler (ref_env 0 Map.empty) demo_app [(''cookie'', ''session=s'')] Map.empty upgraded []"

lemma demo_cookie: "parse_cookie_value ''session=s'' ''session'' = Some ''s''"
  by code_simp

lemma ref_world_live:
  "active_ws (ref_world r p) = 0" "ws_permits (ref_world r p) = 10" "ws_users (ref_world r p) = []"
  "db_health (ref_world r p) = None" "redis_health (ref_world r p) = None" "py_health (ref_world r p) = None"
  "pubsub (ref_world r p) = None"
  by (simp_all add: ref_world_def)

definition after_first :: "(rdb, pg, osstate) world" where
  "after_first = live_world\<lparr>ws_permits := 9, active_ws := 1, ws_users := [(''ann'', 1)],
     pubsub := Some (''app:pubsub:live:events'', Some (Inr ()))\<rparr>"

lemmas live_eval = ann_connects_def ws_handler_def validate_ws_connection_def origin_allowed_def demo_app_def
  ws_authenticate_def session_cookie header_text_def demo_cookie session_get_def session_cache_get_def
  scache_lookup_def get_or_init_def live_world_def ann_world_def try_acquire_permit_def drop_permit_def
  count_user_connection_def user_connections_def handle_socket_def open_ws_guard_def subscribe_def
  pubsub_get_or_init_def pubsub_ready_def run_subscriber_start_def live_events_channel_def make_key_def
  eval_defs ref_world_live hm_get_def hm_insert_def ann_def cret_def

lemma first_connection:
  "run (ann_connects True) live_world = (WsOpen (Some ''ann'') [], after_first)"
  by (simp add: live_eval after_first_def) (simp add: ref_world_def elapse_def live_def empty_rdb_def)

lemma second_connection:
  "run (ann_connects False) after_first =
     (WsUpgradeFailed (Some ''ann''), after_first\<lparr>ws_users := [(''ann'', 2)]\<rparr>)"
  by (simp add: live_eval after_first_def)

lemma both_connections:
  "pool_reaches (\<lambda>_ _. False) (live_world, [ann_connects True, ann_connects False])
     (after_first\<lparr>ws_users := [(''ann'', 2)]\<rparr>, [Ret (WsOpen (Some ''ann'') []), Ret (WsUpgradeFailed (Some ''ann''))])"
proof (rule rtranclp_trans)
  show "pool_reaches (\<lambda>_ _. False) (live_world, [ann_connects True, ann_connects False])
      (after_first, [Ret (WsOpen (Some ''ann'') []), ann_connects False])"
    using pool_run [OF first_connection, of 0 "[ann_connects True, ann_connects False]"] by simp
  show "pool_reaches (\<lambda>_ _. False) (after_first, [Ret (WsOpen (Some ''ann'') []), ann_connects False])
      (after_first\<lparr>ws_users := [(''ann'', 2)]\<rparr>, [Ret (WsOpen (Some ''ann'') []), Ret (WsUpgradeFailed (Some ''ann''))])"
    using pool_run [OF second_connection, of 1 "[Ret (WsOpen (Some ''ann'') []), ann_connects False]"] by simp
qed

lemma ann_only: "only_ws_handlers (ref_env 0 Map.empty) demo_app [ann_connects True, ann_connects False]"
  by (auto simp: only_ws_handlers_def ann_connects_def)

lemma live_world_sel: "ws_permits live_world = 10" "active_ws live_world = 0" "ws_users live_world = []"
  by (simp_all add: live_world_def ann_world_def ref_world_live)

theorem ws_limits_witness:
  "active_ws after_first + ws_permits after_first \<le> 10 \<and> user_connections (after_first\<lparr>ws_users := [(''ann'', 2)]\<rparr>) ''ann'' \<le> 10"
  using ws_limits [OF both_connections ann_only _ live_world_sel, of "''ann''"] by (simp add: demo_app_def)

theorem ws_slots_returned_witness:
  "user_connections (after_first\<lparr>ws_users := [(''ann'', 2)]\<rparr>) ''ann'' =
     Suc (open_connections [Ret (WsOpen (Some ''ann'') []), Ret (WsUpgradeFailed (Some ''ann''))])"
  using ws_slots_returned [OF both_connections ann_only _ live_world_sel, of "''ann''"]
  by (simp add: finished_def open_connections_def open_or_failed_of_def)

theorem ws_only_authenticated_witness:
  "ws_credentials (ref_env 0 Map.empty) (auth_service_new (demo_config BothMode)) [(''cookie'', ''session=s'')] None
     live_world ''ann''"
proof -
  have "\<exists>w'. run (validate_ws_connection (ref_env 0 Map.empty) demo_app [(''cookie'', ''session=s'')] None) live_world =
      (Inr (Some ''ann''), w')"
    by (simp add: live_eval)
  then show ?thesis using ws_only_authenticated by (fastforce simp: demo_app_def)
qed


section \<open>Events on the wire\<close>

text \<open>
  Every live event is read back from its JSON form: the tags and the optional fields of the derived
  serializer and deserializer fit together.
\<close>

theorem live_event_round_trip: "live_event_of_json (live_event_json e) = Some e"
  by (cases e) (auto simp: live_event_of_json_def opt_field_def opt_str_def Let_def split: option.split)

end
