(* ===== verification/Health.thy ===== *)
theory Health
  imports Live
begin

text \<open>
  The health endpoints (\<open>backend/api/src/health.rs\<close>, \<open>backend/db/src/lib.rs\<close>): each dependency is probed
  behind a cache with a short time to live, one probe at a time.
\<close>

section \<open>The caches\<close>

text \<open>Milliseconds of the monotonic clock.\<close>

definition health_cache_ttl :: nat where
  "health_cache_ttl = 1000"

definition health_error_cache_ttl :: nat where
  "health_error_cache_ttl = 2000"

definition max_detail_length :: nat where
  "max_detail_length = 500"

definition health_cache_fresh :: "nat \<Rightarrow> nat \<Rightarrow> json \<Rightarrow> bool" where
  "health_cache_fresh now cached_at cached_val =
     (let ttl = (if json_get cached_val ''status'' = JStr ''ok'' then health_cache_ttl else health_error_cache_ttl) in
      now - cached_at < ttl)"

definition status_json :: "string \<Rightarrow> json" where
  "status_json s = JObj [(''status'', JStr s)]"

type_synonym health_cache = "(nat \<times> json) option"

text \<open>A look at a cache, given by how it is read from the world: the cached value, if it is fresh.\<close>

definition cached_if_fresh ::
  "('r, 'd, 'o) env \<Rightarrow> (('r, 'd, 'o) world \<Rightarrow> health_cache) \<Rightarrow> (('r, 'd, 'o) world, json option) prog" where
  "cached_if_fresh E peek = act (\<lambda>w. case peek w of
       None \<Rightarrow> (None, w)
     | Some (cached_at, cached_val) \<Rightarrow>
         (case os_instant (e_os E) (outside w) of (now, o') \<Rightarrow>
           (if health_cache_fresh now cached_at cached_val then Some cached_val else None, w\<lparr>outside := o'\<rparr>)))"

text \<open>
  The common body of \<open>health_db_value\<close>, \<open>health_redis_value\<close> and \<open>health_python_value\<close>: a look under the
  read lock, then, under the write lock, a second look, and only then the probe, whose value is stored
  with the instant after it. Each step of the probe is a step of its own; which requests may move while one
  holds the write lock, and what becomes of the lock when a request is dropped, is in \<open>health_move\<close> below.
\<close>

definition store_value ::
  "('r, 'd, 'o) env \<Rightarrow> (health_cache \<Rightarrow> ('r, 'd, 'o) world \<Rightarrow> ('r, 'd, 'o) world) \<Rightarrow> json \<Rightarrow> (('r, 'd, 'o) world, json) prog" where
  "store_value E fill v = bind (os_act E os_instant) (\<lambda>now.
     bind (act (\<lambda>w. ((), fill (Some (now, v)) w))) (\<lambda>_. Ret v))"

definition health_section ::
  "('r, 'd, 'o) env \<Rightarrow> (('r, 'd, 'o) world \<Rightarrow> health_cache) \<Rightarrow>
   (health_cache \<Rightarrow> ('r, 'd, 'o) world \<Rightarrow> ('r, 'd, 'o) world) \<Rightarrow> (('r, 'd, 'o) world, json) prog \<Rightarrow>
   (('r, 'd, 'o) world, json) prog" where
  "health_section E peek fill probe =
     bind (cached_if_fresh E peek) (\<lambda>hit. case hit of Some v \<Rightarrow> Ret v | None \<Rightarrow>
       bind probe (store_value E fill))"

definition health_value ::
  "('r, 'd, 'o) env \<Rightarrow> (('r, 'd, 'o) world \<Rightarrow> health_cache) \<Rightarrow>
   (health_cache \<Rightarrow> ('r, 'd, 'o) world \<Rightarrow> ('r, 'd, 'o) world) \<Rightarrow> (('r, 'd, 'o) world, json) prog \<Rightarrow>
   (('r, 'd, 'o) world, json) prog" where
  "health_value E peek fill probe =
     bind (cached_if_fresh E peek) (\<lambda>hit. case hit of Some v \<Rightarrow> Ret v | None \<Rightarrow> health_section E peek fill probe)"

section \<open>The probes\<close>

definition query_timeout :: u64 where
  "query_timeout = 3000"

definition health_check :: "('r, 'd, 'o) env \<Rightarrow> 'o net \<Rightarrow> db_status \<Rightarrow> (('r, 'd, 'o) world, db_error + unit) prog" where
  "health_check E N db_conn = (case db_conn of
       Connected \<Rightarrow> bind (with_timeout E N query_timeout (db_act E q_one)) (\<lambda>outcome. Ret (case outcome of
           Some r \<Rightarrow> map_err QueryFailed r
         | None \<Rightarrow> Inl (PoolTimeout 3)))
     | _ \<Rightarrow> Ret (Inl DbNotConfigured))"

definition db_probe :: "('r, 'd, 'o) env \<Rightarrow> 'o net \<Rightarrow> health_state \<Rightarrow> (('r, 'd, 'o) world, json) prog" where
  "db_probe E N H = (case hs_db H of
       Connected \<Rightarrow> map_result (\<lambda>r. case r of Inr _ \<Rightarrow> status_json ''ok'' | Inl e \<Rightarrow> status_json ''error'')
         (health_check E N Connected)
     | PoolNotConfigured \<Rightarrow> Ret (status_json ''disabled'')
     | PoolConnectionFailed msg \<Rightarrow> Ret (status_json ''error''))"

definition redis_probe :: "('r, 'd, 'o) env \<Rightarrow> health_state \<Rightarrow> (('r, 'd, 'o) world, json) prog" where
  "redis_probe E H =
     (if hs_redis H then map_result (\<lambda>r. case r of Inr _ \<Rightarrow> status_json ''ok'' | Inl e \<Rightarrow> status_json ''error'') (ping E)
      else Ret (status_json ''disabled''))"

text \<open>\<open>v.get(key).and_then(as_str).unwrap_or("unknown")\<close>.\<close>

definition str_or_unknown :: "json \<Rightarrow> string \<Rightarrow> string" where
  "str_or_unknown v key = (case json_str (json_get v key) of Some s \<Rightarrow> s | None \<Rightarrow> ''unknown'')"

definition format_health_value :: "json \<Rightarrow> json" where
  "format_health_value v = JObj [(''status'', JStr (str_or_unknown v ''status'')),
     (''service'', JStr (str_or_unknown v ''service''))]"

definition sidecar_error_json :: "sidecar_error \<Rightarrow> json" where
  "sidecar_error_json e = status_json ''unavailable''"

definition sidecar_health_json :: "sidecar_error + json \<Rightarrow> json" where
  "sidecar_health_json r = (case r of Inr v \<Rightarrow> format_health_value v | Inl e \<Rightarrow> sidecar_error_json e)"

definition python_probe :: "('r, 'd, 'o) env \<Rightarrow> 'o net \<Rightarrow> health_state \<Rightarrow> (('r, 'd, 'o) world, json) prog" where
  "python_probe E N H = map_result sidecar_health_json (health_quick E N (hs_sidecar H))"

section \<open>The values\<close>

definition put_db_health :: "health_cache \<Rightarrow> ('r, 'd, 'o) world \<Rightarrow> ('r, 'd, 'o) world" where
  "put_db_health x w = w\<lparr>db_health := x\<rparr>"

definition put_redis_health :: "health_cache \<Rightarrow> ('r, 'd, 'o) world \<Rightarrow> ('r, 'd, 'o) world" where
  "put_redis_health x w = w\<lparr>redis_health := x\<rparr>"

definition put_py_health :: "health_cache \<Rightarrow> ('r, 'd, 'o) world \<Rightarrow> ('r, 'd, 'o) world" where
  "put_py_health x w = w\<lparr>py_health := x\<rparr>"

definition health_db_value :: "('r, 'd, 'o) env \<Rightarrow> 'o net \<Rightarrow> health_state \<Rightarrow> (('r, 'd, 'o) world, json) prog" where
  "health_db_value E N H = health_value E db_health put_db_health (db_probe E N H)"

definition health_redis_value :: "('r, 'd, 'o) env \<Rightarrow> health_state \<Rightarrow> (('r, 'd, 'o) world, json) prog" where
  "health_redis_value E H = health_value E redis_health put_redis_health (redis_probe E H)"

definition health_python_value :: "('r, 'd, 'o) env \<Rightarrow> 'o net \<Rightarrow> health_state \<Rightarrow> (('r, 'd, 'o) world, json) prog" where
  "health_python_value E N H = health_value E py_health put_py_health (python_probe E N H)"

definition health_auth_value :: "app_state \<Rightarrow> json" where
  "health_auth_value A = (if as_auth A \<noteq> None then status_json ''ok'' else status_json ''disabled'')"

definition health_storage_value :: "app_state \<Rightarrow> json" where
  "health_storage_value A = (case as_storage A of Some _ \<Rightarrow> status_json ''ok'' | None \<Rightarrow> status_json ''disabled'')"

section \<open>The endpoints\<close>

text \<open>Status, headers and JSON body.\<close>

type_synonym health_response = "nat \<times> (string \<times> string) list \<times> json"

definition no_cache :: "(string \<times> string) list" where
  "no_cache = [(''cache-control'', ''no-cache, no-store'')]"

definition by_status :: "json \<Rightarrow> health_response" where
  "by_status v = (if json_get v ''status'' = JStr ''ok'' then 200 else 503, no_cache, v)"

definition health_auth :: "app_state \<Rightarrow> health_response" where
  "health_auth A = (200, no_cache, health_auth_value A)"

definition health_storage :: "app_state \<Rightarrow> health_response" where
  "health_storage A = by_status (health_storage_value A)"

definition health_db where
  "health_db E N A = map_result by_status (health_db_value E N (as_health A))"

definition health_redis where
  "health_redis E A = map_result by_status (health_redis_value E (as_health A))"

text \<open>A request with a trace id is passed on to the sidecar, past the cache.\<close>

definition health_python ::
  "('r, 'd, 'o) env \<Rightarrow> 'o net \<Rightarrow> app_state \<Rightarrow> (string \<times> string) list \<Rightarrow> (('r, 'd, 'o) world, health_response) prog" where
  "health_python E N A hs =
     (let trace_id = or_else (header_text (e_lib E) hs ''x-trace-id'') '''' in
      map_result by_status
        (if trace_id = [] then health_python_value E N (as_health A)
         else map_result sidecar_health_json
           (get_with_trace_id E N (hs_sidecar (as_health A)) ''/health'' trace_id None)))"

text \<open>\<open>s.chars().take(n).collect()\<close>.\<close>

fun take_chars :: "nat \<Rightarrow> string \<Rightarrow> string" where
  "take_chars 0 s = []"
| "take_chars (Suc n) s = (if s = [] then [] else case utf8_step s of
       Inl _ \<Rightarrow> []
     | Inr m \<Rightarrow> take m s @ take_chars n (drop m s))"

definition update_of :: "string \<Rightarrow> json \<Rightarrow> live_event" where
  "update_of service v = HealthUpdate service (str_or_unknown v ''status'')
     (map_option (take_chars max_detail_length) (json_str (json_get v ''error'')))"

definition health_events :: "json \<Rightarrow> json \<Rightarrow> json \<Rightarrow> json \<Rightarrow> json \<Rightarrow> live_event list" where
  "health_events db_val redis_val storage_val python_val auth_val =
     [HealthUpdate ''rust'' ''ok'' None, update_of ''db'' db_val, update_of ''redis'' redis_val,
      update_of ''storage'' storage_val, update_of ''python'' python_val,
      HealthUpdate ''auth'' (str_or_unknown auth_val ''status'') None]"

text \<open>The task that \<open>health\<close> spawns: the broadcasts run concurrently.\<close>

definition broadcast_all :: "('r, 'd, 'o) env \<Rightarrow> app_state \<Rightarrow> live_event list \<Rightarrow> (('r, 'd, 'o) world, unit) prog" where
  "broadcast_all E A events =
     foldr (\<lambda>event rest. map_result (\<lambda>_. ()) (join_all2 E (broadcast_event E A event) rest)) events (Ret ())"

text \<open>The response, and the events handed to that task.\<close>

definition health ::
  "('r, 'd, 'o) env \<Rightarrow> 'o net \<Rightarrow> app_state \<Rightarrow> (('r, 'd, 'o) world, health_response \<times> live_event list) prog" where
  "health E N A =
     bind (join_all2 E (health_db_value E N (as_health A))
        (join_all2 E (health_redis_value E (as_health A)) (health_python_value E N (as_health A))))
       (\<lambda>(db_val, redis_val, python_val).
     let storage_val = health_storage_value A; auth_val = health_auth_value A in
     Ret ((200, no_cache, JObj [
         (''rust'', JObj [(''status'', JStr ''ok''), (''service'', JStr ''api'')]),
         (''db'', db_val), (''redis'', redis_val), (''storage'', storage_val), (''python'', python_val),
         (''auth'', auth_val),
         (''feature_flags'', JObj [(''maintenance_mode'', JBool (maintenance_mode (hs_flags (as_health A))))])]),
       health_events db_val redis_val storage_val python_val auth_val))"

section \<open>Requests under the lock of a cache\<close>

text \<open>
  A request for a cached value: before its first look, waiting for the write lock, holding it with what is left of the
  critical section, answered, or dropped because its client went away, with or without the write lock.
\<close>

datatype ('w, 'a) health_request =
    Looking
  | Waiting
  | Holding "('w, 'a) prog"
  | Answered 'a
  | Dropped bool

definition write_locked :: "('w, 'a) health_request list \<Rightarrow> bool" where
  "write_locked ps \<longleftrightarrow> (\<exists>q. Holding q \<in> set ps)"

text \<open>
  One move of the requests \<open>ps\<close> for the value behind a cache in the world \<open>w\<close>. The look needs the read lock, which nobody gets while
  one holds the write lock, and is over at once; the write lock goes to any one that waits when it is free; its holder
  takes one step at a time and lets the lock go with its last; a request may be dropped at any point, which
  releases the lock. \<open>F\<close> is what the rest of the server may do.
\<close>

inductive health_move ::
  "(('r, 'd, 'o) world \<Rightarrow> ('r, 'd, 'o) world \<Rightarrow> bool) \<Rightarrow> ('r, 'd, 'o) env \<Rightarrow> (('r, 'd, 'o) world \<Rightarrow> health_cache) \<Rightarrow>
   (health_cache \<Rightarrow> ('r, 'd, 'o) world \<Rightarrow> ('r, 'd, 'o) world) \<Rightarrow> (('r, 'd, 'o) world, json) prog \<Rightarrow>
   ('r, 'd, 'o) world \<times> (('r, 'd, 'o) world, json) health_request list \<Rightarrow>
   ('r, 'd, 'o) world \<times> (('r, 'd, 'o) world, json) health_request list \<Rightarrow> bool"
  for F E peek fill probe where
  arrives: "health_move F E peek fill probe (w, ps) (w, ps @ [Looking])"
| looks: "i < length ps \<Longrightarrow> ps ! i = Looking \<Longrightarrow> \<not> write_locked ps \<Longrightarrow> run (cached_if_fresh E peek) w = (hit, w') \<Longrightarrow>
    health_move F E peek fill probe (w, ps) (w', ps[i := (case hit of Some v \<Rightarrow> Answered v | None \<Rightarrow> Waiting)])"
| locks: "i < length ps \<Longrightarrow> ps ! i = Waiting \<Longrightarrow> \<not> write_locked ps \<Longrightarrow>
    health_move F E peek fill probe (w, ps) (w, ps[i := Holding (health_section E peek fill probe)])"
| works: "i < length ps \<Longrightarrow> ps ! i = Holding (Act f) \<Longrightarrow> f w = (p, w') \<Longrightarrow>
    health_move F E peek fill probe (w, ps) (w', ps[i := (case p of Ret v \<Rightarrow> Answered v | Act _ \<Rightarrow> Holding p)])"
| drops: "i < length ps \<Longrightarrow> ps ! i = Looking \<or> ps ! i = Waiting \<or> (\<exists>q. ps ! i = Holding q) \<Longrightarrow>
    health_move F E peek fill probe (w, ps) (w, ps[i := Dropped (\<exists>q. ps ! i = Holding q)])"
| other: "F w w' \<Longrightarrow> health_move F E peek fill probe (w, ps) (w', ps)"

text \<open>The requests that were dropped while they held the write lock.\<close>

definition dropped_probes :: "('w, 'a) health_request list \<Rightarrow> nat" where
  "dropped_probes ps = length (filter (\<lambda>p. p = Dropped True) ps)"

section \<open>The caches as one interface\<close>

text \<open>A cache of the world that only the health functions write.\<close>

locale health_slot =
  fixes peek :: "('r, 'd, 'o) world \<Rightarrow> health_cache"
    and fill :: "health_cache \<Rightarrow> ('r, 'd, 'o) world \<Rightarrow> ('r, 'd, 'o) world"
  assumes peek_fill: "peek (fill x w) = x"
    and peek_outside: "peek (w\<lparr>outside := o'\<rparr>) = peek w"
    and outside_fill: "outside (fill x w) = outside w"
begin

lemma cached_if_fresh_None:
  assumes "run (cached_if_fresh E peek) w = (None, w1)" and "peek w = Some (t, v)"
  shows "\<not> health_cache_fresh (fst (os_instant (e_os E) (outside w))) t v"
  using assms by (auto simp: cached_if_fresh_def run_act split: prod.splits if_splits)

lemma cached_if_fresh_get: "run (cached_if_fresh E peek) w = (r, w1) \<Longrightarrow> peek w1 = peek w"
  by (auto simp: cached_if_fresh_def run_act peek_outside split: prod.splits option.splits)

end

interpretation db_slot: health_slot db_health put_db_health
  by unfold_locales (simp_all add: put_db_health_def)

interpretation redis_slot: health_slot redis_health put_redis_health
  by unfold_locales (simp_all add: put_redis_health_def)

interpretation py_slot: health_slot py_health put_py_health
  by unfold_locales (simp_all add: put_py_health_def)

text \<open>
  \<open>D\<close> is a stretch of time shorter than the shortest time to live: while it lasts, the monotonic clock
  reads at least \<open>a\<close> and less than \<open>a\<close> plus one second.
\<close>

definition within_second :: "'o os_ops \<Rightarrow> nat \<Rightarrow> ('o \<Rightarrow> bool) \<Rightarrow> bool" where
  "within_second OS a D \<longleftrightarrow> (\<forall>s. D s \<longrightarrow> a \<le> fst (os_instant OS s) \<and>
     fst (os_instant OS s) < a + health_cache_ttl \<and> D (snd (os_instant OS s)))"

abbreviation (input) lasts where
  "lasts D \<equiv> steps (\<lambda>w w'. D (outside w) \<longrightarrow> D (outside w')) (\<lambda>_. True)"

lemma within_fresh:
  "within_second OS a D \<Longrightarrow> D s \<Longrightarrow> a \<le> t \<Longrightarrow> health_cache_fresh (fst (os_instant OS s)) t v"
  by (auto simp: within_second_def health_cache_fresh_def health_cache_ttl_def health_error_cache_ttl_def
      dest!: spec [of _ s])

text \<open>A cache of the world that only the health functions write, with a counter of the probes.\<close>

locale health_counter = health_slot peek fill
  for peek :: "('r, 'd, 'o) world \<Rightarrow> health_cache" and fill +
  fixes E :: "('r, 'd, 'o) env" and cnt :: "('r, 'd, 'o) world \<Rightarrow> nat" and probe :: "(('r, 'd, 'o) world, json) prog"
  assumes cnt_fill: "cnt (fill x w) = cnt w"
    and cnt_clock: "cnt (w\<lparr>outside := snd (os_instant (e_os E) (outside w))\<rparr>) = cnt w"
    and cnt_probe: "costs cnt 1 probe"
begin

text \<open>Before the first probe of the stretch, or after it with its value in the cache; \<open>n\<close> are the probes so far that left nothing there.\<close>

definition one_probe :: "nat \<Rightarrow> ('o \<Rightarrow> bool) \<Rightarrow> nat \<Rightarrow> ('r, 'd, 'o) world \<Rightarrow> bool" where
  "one_probe a D n w \<longleftrightarrow> D (outside w) \<and>
     (cnt w \<le> n \<or> (\<exists>t v. peek w = Some (t, v) \<and> a \<le> t \<and> cnt w \<le> n + 1))"

lemma one_probe_mono: "one_probe a D n w \<Longrightarrow> n \<le> m \<Longrightarrow> one_probe a D m w"
  by (auto simp: one_probe_def)

lemma look_keeps:
  assumes "within_second (e_os E) a D" and "run (cached_if_fresh E peek) w = (r, w1)" and "one_probe a D n w"
  shows "one_probe a D n w1"
    and "r = None \<Longrightarrow> cnt w1 \<le> n"
proof -
  have D: "D (outside w)" using assms(3) by (simp add: one_probe_def)
  from assms(2) have w1: "w1 = w \<or> w1 = w\<lparr>outside := snd (os_instant (e_os E) (outside w))\<rparr>"
    by (auto simp: cached_if_fresh_def run_act split: option.splits prod.splits)
  then have same: "cnt w1 = cnt w" "peek w1 = peek w" "D (outside w1)"
    using D assms(1) by (auto simp: cnt_clock peek_outside within_second_def)
  with assms(3) show "one_probe a D n w1" by (simp add: one_probe_def)
  assume "r = None"
  then show "cnt w1 \<le> n"
    using assms(3) same cached_if_fresh_None [OF assms(2) [unfolded \<open>r = None\<close>]] within_fresh [OF assms(1) D]
    by (fastforce simp: one_probe_def)
qed

text \<open>
  \<open>probing a D m p\<close>: the holder is in its probe or after it; \<open>p\<close> raises the counter by at most \<open>m\<close> more, and when it ends
  the cache is filled.
\<close>

inductive probing :: "nat \<Rightarrow> ('o \<Rightarrow> bool) \<Rightarrow> nat \<Rightarrow> (('r, 'd, 'o) world, json) prog \<Rightarrow> bool" for a D where
  step: "(\<And>w p w'. D (outside w) \<Longrightarrow> f w = (p, w') \<Longrightarrow> D (outside w') \<and>
      (\<exists>k. cnt w' + k \<le> cnt w + m \<and>
        ((\<exists>v. p = Ret v) \<and> (\<exists>t v. peek w' = Some (t, v) \<and> a \<le> t) \<or> probing a D k p))) \<Longrightarrow>
    probing a D m (Act f)"

lemma probing_not_Ret [simp]: "\<not> probing a D m (Ret v)"
  by (auto elim: probing.cases)

lemma probing_mono: "probing a D m p \<Longrightarrow> m \<le> n \<Longrightarrow> probing a D n p"
proof (induction arbitrary: n rule: probing.induct)
  case (step f m)
  show ?case
  proof (rule probing.step)
    fix w p w' assume D: "D (outside w)" and f: "f w = (p, w')"
    from step.IH [OF D f] obtain k where "D (outside w')" "cnt w' + k \<le> cnt w + m"
      "(\<exists>v. p = Ret v) \<and> (\<exists>t v. peek w' = Some (t, v) \<and> a \<le> t) \<or> probing a D k p" by blast
    moreover from this(2) step.prems have "cnt w' + k \<le> cnt w + n" by simp
    ultimately show "D (outside w') \<and> (\<exists>k. cnt w' + k \<le> cnt w + n \<and>
        ((\<exists>v. p = Ret v) \<and> (\<exists>t v. peek w' = Some (t, v) \<and> a \<le> t) \<or> probing a D k p))" by blast
  qed
qed

lemma fill_probing:
  assumes "within_second (e_os E) a D"
  shows "probing a D 0 (store_value E fill v)"
proof -
  have put: "probing a D 0 (bind (act (\<lambda>w. ((), fill (Some (now, v)) w))) (\<lambda>_. Ret v))" if "a \<le> now" for now
    unfolding act_def bind.simps
    by (rule probing.step) (use that in \<open>auto simp: outside_fill cnt_fill peek_fill\<close>)
  show ?thesis
    unfolding store_value_def os_act_def act_def [of "\<lambda>w. case os_instant (e_os E) (outside w) of (x, o') \<Rightarrow> (x, w\<lparr>outside := o'\<rparr>)"] bind.simps
  proof (rule probing.step)
    fix w w' :: "('r, 'd, 'o) world" and p
    assume D: "D (outside w)" and f: "map_prod (\<lambda>p. bind p (\<lambda>now. bind (act (\<lambda>w. ((), fill (Some (now, v)) w))) (\<lambda>_. Ret v))) id
        (case case os_instant (e_os E) (outside w) of (x, o') \<Rightarrow> (x, w\<lparr>outside := o'\<rparr>) of (a, w') \<Rightarrow> (Ret a, w')) = (p, w')"
    obtain now o' where i: "os_instant (e_os E) (outside w) = (now, o')" by (cases "os_instant (e_os E) (outside w)")
    then have "p = bind (act (\<lambda>w. ((), fill (Some (now, v)) w))) (\<lambda>_. Ret v)" and w': "w' = w\<lparr>outside := o'\<rparr>"
      using f by auto
    moreover have "a \<le> now" "D o'" using assms D i by (auto simp: within_second_def dest!: spec [of _ "outside w"])
    moreover have "cnt w' = cnt w" using cnt_clock [of w] i w' by simp
    ultimately show "D (outside w') \<and> (\<exists>k. cnt w' + k \<le> cnt w + 0 \<and>
        ((\<exists>v. p = Ret v) \<and> (\<exists>t v. peek w' = Some (t, v) \<and> a \<le> t) \<or> probing a D k p))"
      using put by auto
  qed
qed

lemma bind_probing:
  assumes "within_second (e_os E) a D" and "costs cnt m p" and "lasts D p"
  shows "probing a D m (bind p (store_value E fill))"
  using assms(2,3)
proof (induction rule: costs.induct)
  case (Ret n v)
  have "probing a D 0 q \<Longrightarrow> probing a D n q" for q by (erule probing_mono) simp
  then show ?case using fill_probing [OF assms(1)] by simp
next
  case (Act f n)
  let ?K = "store_value E fill"
  show ?case
    unfolding bind.simps
  proof (rule probing.step)
    fix w q w' assume D: "D (outside w)" and "map_prod (\<lambda>p. bind p ?K) id (f w) = (q, w')"
    then obtain p' where f: "f w = (p', w')" and q: "q = bind p' ?K" by (cases "f w") auto
    from Act.prems f D have "D (outside w')" "lasts D p'" by (auto elim: steps_ActE)
    moreover from Act.IH [OF f] this(2) obtain k where "cnt w' + k \<le> cnt w + n" "probing a D k q" unfolding q by blast
    ultimately show "D (outside w') \<and> (\<exists>k. cnt w' + k \<le> cnt w + n \<and>
        ((\<exists>v. q = Ret v) \<and> (\<exists>t v. peek w' = Some (t, v) \<and> a \<le> t) \<or> probing a D k q))" by blast
  qed
qed

text \<open>The first step of the critical section is the second look.\<close>

lemma section_step:
  assumes "health_section E peek fill probe = Act f" and "f w = (p, w')"
  obtains hit where "run (cached_if_fresh E peek) w = (hit, w')"
    and "p = (case hit of Some v \<Rightarrow> Ret v | None \<Rightarrow> bind probe (store_value E fill))"
proof -
  obtain g where g: "cached_if_fresh E peek = act g" by (simp add: cached_if_fresh_def)
  obtain hit v where h: "g w = (hit, v)" by (cases "g w")
  show thesis
    by (rule that [of hit]) (use assms g h in \<open>auto simp: health_section_def act_def run_act\<close>)
qed

text \<open>The invariant of the requests: at most one holds the lock, and what that one may still do.\<close>

definition burst_inv ::
  "nat \<Rightarrow> ('o \<Rightarrow> bool) \<Rightarrow> nat \<Rightarrow> ('r, 'd, 'o) world \<times> (('r, 'd, 'o) world, json) health_request list \<Rightarrow> bool" where
  "burst_inv a D n c \<longleftrightarrow> (case c of (w, ps) \<Rightarrow> D (outside w) \<and>
     (\<forall>i < length ps. \<forall>j < length ps. (\<exists>q. ps ! i = Holding q) \<longrightarrow> (\<exists>q. ps ! j = Holding q) \<longrightarrow> i = j) \<and>
     (if write_locked ps then \<forall>q. Holding q \<in> set ps \<longrightarrow>
          q = health_section E peek fill probe \<and> one_probe a D (n + dropped_probes ps) w \<or>
          (\<exists>m. probing a D m q \<and> cnt w + m \<le> n + dropped_probes ps + 1)
      else one_probe a D (n + dropped_probes ps) w))"

lemma burst_inv_bound: "burst_inv a D n (w, ps) \<Longrightarrow> cnt w \<le> n + dropped_probes ps + 1"
  by (auto simp: burst_inv_def one_probe_def write_locked_def split: if_splits)

end

lemma dropped_update:
  "i < length ps \<Longrightarrow> ps ! i \<noteq> Dropped True \<Longrightarrow>
   dropped_probes (ps[i := p]) = dropped_probes ps + (if p = Dropped True then 1 else 0)"
proof (induction ps arbitrary: i)
  case (Cons x ps)
  then show ?case by (cases i) (auto simp: dropped_probes_def)
qed simp

lemma unlocked_update:
  "\<not> write_locked ps \<Longrightarrow> write_locked (ps[i := p]) \<Longrightarrow> i < length ps \<Longrightarrow> \<exists>q. p = Holding q"
  using set_update_subset_insert [of ps i p] by (auto simp: write_locked_def)

lemma unlocked_Holding: "\<not> write_locked ps \<Longrightarrow> i < length ps \<Longrightarrow> ps ! i \<noteq> Holding q"
  by (metis nth_mem write_locked_def)

context health_counter
begin

text \<open>A move that leaves nobody in the critical section, and one that leaves its request there.\<close>

lemma burst_unlocked:
  "\<not> write_locked ps \<Longrightarrow> one_probe a D (n + dropped_probes ps) w \<Longrightarrow> burst_inv a D n (w, ps)"
  using unlocked_Holding by (auto simp: burst_inv_def one_probe_def)

lemma burst_locked:
  assumes "i < length ps" and "\<And>j q. j < length ps \<Longrightarrow> j \<noteq> i \<Longrightarrow> ps ! j \<noteq> Holding q" and "ps ! i = Holding q" and "D (outside w)"
    and "q = health_section E peek fill probe \<and> one_probe a D (n + dropped_probes ps) w \<or>
      (\<exists>m. probing a D m q \<and> cnt w + m \<le> n + dropped_probes ps + 1)"
  shows "burst_inv a D n (w, ps)"
proof -
  have one: "j = i" if "ps ! j = Holding q'" "j < length ps" for j q' using assms(2) that by blast
  have "write_locked ps" using assms(1,3) by (metis nth_mem write_locked_def)
  moreover have "q' = q" if q': "Holding q' \<in> set ps" for q'
  proof -
    obtain j where "j < length ps" "ps ! j = Holding q'" using q' by (auto simp: in_set_conv_nth)
    with one assms(3) show ?thesis by auto
  qed
  moreover have "\<forall>j < length ps. \<forall>k < length ps. (\<exists>q. ps ! j = Holding q) \<longrightarrow> (\<exists>q. ps ! k = Holding q) \<longrightarrow> j = k"
    using one by metis
  ultimately show ?thesis using assms(4,5) by (auto simp: burst_inv_def)
qed

lemma burst_holder:
  assumes "burst_inv a D n (w, ps)" and "i < length ps" and "ps ! i = Holding q"
  shows "D (outside w)" and "\<And>j q'. j < length ps \<Longrightarrow> j \<noteq> i \<Longrightarrow> ps ! j \<noteq> Holding q'"
    and "q = health_section E peek fill probe \<and> one_probe a D (n + dropped_probes ps) w \<or>
      (\<exists>m. probing a D m q \<and> cnt w + m \<le> n + dropped_probes ps + 1)"
proof -
  have "Holding q \<in> set ps" using assms(2,3) by (metis nth_mem)
  then have l: "write_locked ps" "Holding q \<in> set ps" by (auto simp: write_locked_def)
  with assms(1) show "D (outside w)" "q = health_section E peek fill probe \<and> one_probe a D (n + dropped_probes ps) w \<or>
      (\<exists>m. probing a D m q \<and> cnt w + m \<le> n + dropped_probes ps + 1)"
    by (simp_all add: burst_inv_def)
  show "ps ! j \<noteq> Holding q'" if "j < length ps" "j \<noteq> i" for j q'
    using assms that unfolding burst_inv_def by blast
qed

lemma probing_ActD:
  "probing a D m (Act f) \<Longrightarrow> D (outside w) \<Longrightarrow> f w = (p, w') \<Longrightarrow> D (outside w') \<and> (\<exists>k. cnt w' + k \<le> cnt w + m \<and>
     ((\<exists>v. p = Ret v) \<and> (\<exists>t v. peek w' = Some (t, v) \<and> a \<le> t) \<or> probing a D k p))"
  by (erule probing.cases) blast

lemma burst_works:
  assumes W: "within_second (e_os E) a D" and lasts: "lasts D probe" and inv: "burst_inv a D n (w, ps)"
    and i: "i < length ps" "ps ! i = Holding (Act f)" and f: "f w = (p, w')"
  shows "burst_inv a D n (w', ps[i := (case p of Ret v \<Rightarrow> Answered v | Act _ \<Rightarrow> Holding p)])" (is "burst_inv a D n (w', ?ps)")
proof -
  note h = burst_holder [OF inv i]
  have drop: "dropped_probes ?ps = dropped_probes ps" using i by (subst dropped_update) (auto split: prog.split)
  have free: "\<not> write_locked ?ps" if "p = Ret v" for v
    using h(2) that i(1) by (auto simp: write_locked_def in_set_conv_nth nth_list_update)
  have held: "burst_inv a D n (w', ?ps)" if "D (outside w')" "probing a D m p" "cnt w' + m \<le> n + dropped_probes ps + 1" for m
  proof (rule burst_locked [of i ?ps p])
    have "\<nexists>v. p = Ret v" using that(2) by auto
    then show "?ps ! i = Holding p" using i(1) by (cases p) auto
  qed (use i(1) h(2) that drop in auto)
  from h(3) show ?thesis
  proof (elim disjE exE conjE)
    assume s: "Act f = health_section E peek fill probe" and o: "one_probe a D (n + dropped_probes ps) w"
    obtain hit where hit: "run (cached_if_fresh E peek) w = (hit, w')"
      and p: "p = (case hit of Some v \<Rightarrow> Ret v | None \<Rightarrow> bind probe (store_value E fill))"
      by (rule section_step [OF s [symmetric] f])
    note look = look_keeps [OF W hit o]
    show ?thesis
    proof (cases hit)
      case (Some v)
      with p have "p = Ret v" by simp
      from burst_unlocked [OF free [OF this]] look(1) drop show ?thesis by simp
    next
      case None
      have "D (outside w')" using look(1) by (simp add: one_probe_def)
      then show ?thesis using held [of 1] bind_probing [OF W cnt_probe lasts] look(2) None p by simp
    qed
  next
    fix m assume pr: "probing a D m (Act f)" and m: "cnt w + m \<le> n + dropped_probes ps + 1"
    then obtain k where D: "D (outside w')" and k: "cnt w' + k \<le> cnt w + m"
      and "(\<exists>v. p = Ret v) \<and> (\<exists>t v. peek w' = Some (t, v) \<and> a \<le> t) \<or> probing a D k p"
      using probing_ActD [OF pr h(1) f] by blast
    from this(3) show ?thesis
    proof
      assume r: "(\<exists>v. p = Ret v) \<and> (\<exists>t v. peek w' = Some (t, v) \<and> a \<le> t)"
      then obtain v where "p = Ret v" by blast
      with r D k m drop show ?thesis by (intro burst_unlocked free [of v]) (auto simp: one_probe_def)
    next
      assume "probing a D k p"
      from held [OF D this] k m show ?thesis by simp
    qed
  qed
qed

lemma burst_step:
  assumes W: "within_second (e_os E) a D" and lasts: "lasts D probe"
    and F: "\<And>w w'. F w w' \<Longrightarrow> peek w' = peek w \<and> cnt w' = cnt w \<and> (D (outside w) \<longrightarrow> D (outside w'))"
    and inv: "burst_inv a D n c" and step: "health_move F E peek fill probe c c'"
  shows "burst_inv a D n c'"
  using step inv
proof cases
  case (arrives w ps)
  have "write_locked (ps @ [Looking]) = write_locked ps" "dropped_probes (ps @ [Looking]) = dropped_probes ps"
    by (auto simp: write_locked_def dropped_probes_def)
  moreover have "Holding q \<in> set (ps @ [Looking]) \<longleftrightarrow> Holding q \<in> set ps" for q by simp
  ultimately show ?thesis using inv unfolding arrives burst_inv_def
    by (cases "write_locked ps") (simp_all add: nth_append less_Suc_eq all_conj_distrib)
next
  case (looks i ps w hit w')
  have "\<not> write_locked (ps[i := (case hit of Some v \<Rightarrow> Answered v | None \<Rightarrow> Waiting)])"
    using unlocked_update [OF looks(5) _ looks(3)] by (auto split: option.splits)
  moreover have "one_probe a D (n + dropped_probes ps) w" using inv looks(1,5) by (simp add: burst_inv_def)
  ultimately show ?thesis
    using look_keeps(1) [OF W looks(6)] looks(2-4)
    by (auto intro!: burst_unlocked simp: dropped_update split: option.split)
next
  case (locks i ps w)
  have "one_probe a D (n + dropped_probes ps) w" using inv locks(1,5) by (simp add: burst_inv_def)
  then show ?thesis
    unfolding locks(2)
    by (intro burst_locked [of i _ "health_section E peek fill probe"])
      (use locks(3-5) unlocked_Holding [OF locks(5)] in \<open>auto simp: dropped_update one_probe_def\<close>)
next
  case (works i ps f w p w')
  then show ?thesis using burst_works [OF W lasts] inv by simp
next
  case (drops i ps w)
  have drop: "dropped_probes (ps[i := Dropped (\<exists>q. ps ! i = Holding q)]) = dropped_probes ps + (if \<exists>q. ps ! i = Holding q then 1 else 0)"
    using drops(3,4) by (subst dropped_update) auto
  show ?thesis
  proof (cases "\<exists>q. ps ! i = Holding q")
    case True
    then obtain q where q: "ps ! i = Holding q" by blast
    note h = burst_holder [OF inv [unfolded drops(1)] drops(3) q]
    have "\<not> write_locked (ps[i := Dropped True])"
      using h(2) drops(3) by (auto simp: write_locked_def in_set_conv_nth nth_list_update)
    moreover have "one_probe a D (n + dropped_probes ps + 1) w"
      using burst_inv_bound [OF inv [unfolded drops(1)]] h(1) by (simp add: one_probe_def)
    ultimately show ?thesis using drop True unfolding drops(2) by (intro burst_unlocked) simp_all
  next
    case False
    have kept: "Holding q \<in> set (ps[i := Dropped False])" if hq: "Holding q \<in> set ps" for q
    proof -
      obtain j where j: "j < length ps" "ps ! j = Holding q" using hq by (auto simp: in_set_conv_nth)
      then have "(ps[i := Dropped False]) ! j = Holding q" using False by (cases "j = i") auto
      with j(1) show ?thesis by (metis length_list_update nth_mem)
    qed
    have lost: "Holding q \<in> set ps" if hq: "Holding q \<in> set (ps[i := Dropped False])" for q
      using hq set_update_subset_insert [of ps i "Dropped False"] by auto
    have l: "write_locked (ps[i := Dropped False]) = write_locked ps"
      using kept lost by (auto simp: write_locked_def)
    note lost
    moreover have "(ps[i := Dropped False]) ! j = Holding q \<Longrightarrow> j < length ps \<Longrightarrow> ps ! j = Holding q" for j q
      using drops(3) by (auto simp: nth_list_update split: if_splits)
    ultimately show ?thesis
      using inv l drop False unfolding drops(1,2) burst_inv_def by (auto split: if_splits)
  qed
next
  case (other w w' ps)
  have D: "D (outside w)" using inv other(1) by (simp add: burst_inv_def)
  have "one_probe a D k w' = one_probe a D k w" for k using F [OF other(3)] D by (simp add: one_probe_def)
  with F [OF other(3)] D inv show ?thesis unfolding other(1,2) burst_inv_def by (cases "write_locked ps") simp_all
qed

lemma probed_once:
  assumes moves: "(health_move F E peek fill probe)\<^sup>*\<^sup>* (w, ps) (w', ps')"
    and free: "\<not> write_locked ps" "dropped_probes ps = 0"
    and W: "within_second (e_os E) a D" and lasts: "lasts D probe" and D: "D (outside w)"
    and F: "\<And>w w'. F w w' \<Longrightarrow> peek w' = peek w \<and> cnt w' = cnt w \<and> (D (outside w) \<longrightarrow> D (outside w'))"
  shows "cnt w' \<le> cnt w + 1 + dropped_probes ps'"
proof -
  have "burst_inv a D (cnt w) (w', ps')"
    using moves
  proof (induction rule: rtranclp_induct)
    case base
    show ?case using free D by (intro burst_unlocked) (simp_all add: one_probe_def)
  next
    case (step c c')
    from burst_step [OF W lasts F step(3,2)] show ?case by blast
  qed
  from burst_inv_bound [OF this] show ?thesis by simp
qed

end

section \<open>A burst of health requests\<close>

lemma steps_cut_off: "steps T (\<lambda>_. True) p \<Longrightarrow> steps T (\<lambda>_. True) t \<Longrightarrow> steps T (\<lambda>_. True) (cut_off t p)"
proof (induction rule: steps.induct)
  case (Act f)
  have "steps T (\<lambda>_. True) (Act (\<lambda>w. map_prod (cut_off t) id (f w)))"
  proof (rule steps.Act)
    fix w q w'
    assume "map_prod (cut_off t) id (f w) = (q, w')"
    then obtain p' where "f w = (p', w')" and q: "q = cut_off t p'" by (cases "f w") auto
    with Act show "T w w' \<and> steps T (\<lambda>_. True) q" by blast
  qed
  then show ?case using Act.prems by (auto intro!: steps_bind_any)
qed simp

text \<open>\<open>counts_queries\<close>: a counter of the \<open>SELECT 1\<close> statements the database has seen.\<close>

definition counts_queries :: "'d db_ops \<Rightarrow> ('d \<Rightarrow> nat) \<Rightarrow> bool" where
  "counts_queries DB v \<longleftrightarrow> (\<forall>d. v (snd (q_one DB d)) \<le> v d + 1)"

lemma db_counter:
  fixes E :: "('r, 'd, 'o) env"
  assumes "counts_queries (e_db E) v"
  shows "health_counter db_health put_db_health E (\<lambda>w. v (db w)) (db_probe E N H)"
proof unfold_locales
  have q: "costs (\<lambda>w. v (db w)) 1 (db_act E q_one)"
    unfolding db_act_def
  proof (rule costs_act)
    fix w :: "('r, 'd, 'o) world"
    show "v (db (snd (case q_one (e_db E) (db w) of (x, d) \<Rightarrow> (x, w\<lparr>db := d\<rparr>)))) \<le> v (db w) + 1"
      using assms by (auto simp: counts_queries_def split: prod.split dest: spec [of _ "db w"])
  qed
  have t: "costs (\<lambda>w. v (db w)) 0 (net_act E (nt_elapsed N ms))" for ms
    unfolding net_act_def os_act_def by (rule costs_act) (simp split: prod.split)
  have "costs (\<lambda>w. v (db w)) (1 + 0) (health_check E N Connected)"
    unfolding health_check_def with_timeout_def db_status.case
    by (intro costs_bind costs_cut_off q t costs.Ret)
  then show "costs (\<lambda>w. v (db w)) 1 (db_probe E N H)"
    unfolding db_probe_def by (auto intro: costs_map costs.Ret split: db_status.split)
qed (simp_all add: put_db_health_def)

text \<open>
  C35. However many health requests arrive and however their steps interleave under the lock of the cache, and with the rest
  of the server, with requests dropped at any point when their client goes away: in a stretch of time shorter than one
  second, at whose start nobody holds the write lock, the database sees at most one health query, and one more for each
  request that was dropped while it held the write lock, for its query may have been sent with nothing put in the cache.
\<close>

theorem health_burst_probes_once:
  assumes "(health_move F E db_health put_db_health (db_probe E N H))\<^sup>*\<^sup>* (w, ps) (w', ps')"
    and "\<not> write_locked ps" and "dropped_probes ps = 0"
    and "counts_queries (e_db E) v" and "within_second (e_os E) a D" and "D (outside w)"
    and N: "\<And>s. D s \<Longrightarrow> D (snd (nt_elapsed N query_timeout s))"
    and "\<And>w w'. F w w' \<Longrightarrow> db_health w' = db_health w \<and> v (db w') = v (db w) \<and> (D (outside w) \<longrightarrow> D (outside w'))"
  shows "v (db w') \<le> v (db w) + 1 + dropped_probes ps'"
proof -
  have "lasts D (db_probe E N H)"
  proof -
    have t: "lasts D (net_act E (nt_elapsed N query_timeout))"
      unfolding net_act_def os_act_def
    proof (rule steps_act)
      fix w :: "('a, 'b, 'c) world" and x w'
      assume "(case nt_elapsed N query_timeout (outside w) of (x, o') \<Rightarrow> (x, w\<lparr>outside := o'\<rparr>)) = (x, w')"
      then show "(D (outside w) \<longrightarrow> D (outside w')) \<and> True"
        using N [of "outside w"] by (auto split: prod.splits)
    qed
    have q: "lasts D (db_act E q_one)"
      unfolding db_act_def by (rule steps_act) (auto split: prod.splits)
    have "lasts D (health_check E N Connected)"
      unfolding health_check_def with_timeout_def db_status.case
      by (intro steps_bind_any steps_cut_off q t steps_Ret_any)
    then show ?thesis
      unfolding db_probe_def map_result_def by (auto intro!: steps_bind_any split: db_status.split)
  qed
  then show ?thesis
    by (rule health_counter.probed_once [OF db_counter [OF assms(4)] assms(1-3,5) _ assms(6,8)])
qed

text \<open>
  An example: a database that keeps a row for each health query. The first request is dropped after its query, the second
  sends its own.
\<close>

definition logging_env :: "(rdb, pg, osstate) env" where
  "logging_env = (ref_env 0 Map.empty)\<lparr>e_db := ref_db\<lparr>q_one := (\<lambda>p. (Inr (), p\<lparr>users := ann_row # users p\<rparr>))\<rparr>\<rparr>"

definition queried :: "nat \<Rightarrow> (rdb, pg, osstate) world" where
  "queried n = ann_world\<lparr>db := (db ann_world)\<lparr>users := replicate n ann_row @ users (db ann_world)\<rparr>\<rparr>"

abbreviation (input) demo_probe :: "((rdb, pg, osstate) world, json) prog" where
  "demo_probe \<equiv> db_probe logging_env refusing_net (as_health demo_app)"

abbreviation (input) demo_moves where
  "demo_moves \<equiv> (health_move (\<lambda>_ _. False) logging_env db_health put_db_health demo_probe)\<^sup>*\<^sup>*"

text \<open>The critical section by its steps.\<close>

primrec after_steps :: "nat \<Rightarrow> ('w, 'a) prog \<times> 'w \<Rightarrow> ('w, 'a) prog \<times> 'w" where
  "after_steps 0 c = c"
| "after_steps (Suc n) c = (case fst c of Ret _ \<Rightarrow> c | Act f \<Rightarrow> after_steps n (f (snd c)))"

lemma works_on:
  assumes "i < length ps" and "ps ! i = Holding q" and "after_steps n (q, w) = (Act g, w')"
  shows "(health_move F E peek fill probe)\<^sup>*\<^sup>* (w, ps) (w', ps[i := Holding (Act g)])"
  using assms
proof (induction n arbitrary: q w ps)
  case 0
  then show ?case by (metis after_steps.simps(1) list_update_id prod.inject rtranclp.rtrancl_refl)
next
  case (Suc n)
  obtain f where q: "q = Act f"
    using Suc.prems(3) by (cases q) auto
  obtain p v where f: "f w = (p, v)" by (cases "f w")
  have rest: "after_steps n (p, v) = (Act g, w')" using Suc.prems(3) q f by simp
  obtain h where p: "p = Act h"
    using rest by (cases p; cases n) auto
  have "health_move F E peek fill probe (w, ps) (v, ps[i := Holding p])"
    using health_move.works [OF Suc.prems(1) Suc.prems(2) [unfolded q] f, of F E peek fill probe] by (simp add: p)
  moreover have "(health_move F E peek fill probe)\<^sup>*\<^sup>* (v, ps[i := Holding p]) (w', ps[i := Holding p, i := Holding (Act g)])"
    by (rule Suc.IH [OF _ _ rest]) (use Suc.prems(1) in simp_all)
  ultimately show ?case by (simp add: converse_rtranclp_into_rtranclp)
qed

lemma after_query: "\<exists>g. after_steps 3 (health_section logging_env db_health put_db_health demo_probe, queried n) = (Act g, queried (Suc n))"
  by (simp add: eval_nat_numeral health_section_def cached_if_fresh_def db_probe_def demo_app_def health_check_def with_timeout_def
      map_result_def net_act_def os_act_def db_act_def act_def logging_env_def refusing_net_def queried_def ann_world_def
      ref_world_def store_value_def)

theorem health_burst_probes_once_witness:
  "\<exists>q. demo_moves (queried 0, [Looking, Looking]) (queried 2, [Dropped True, Holding q]) \<and>
     length (users (db (queried 2))) \<le> length (users (db (queried 0))) + 1 + 1"
proof -
  let ?move = "health_move (\<lambda>_ _. False) logging_env db_health put_db_health demo_probe"
  let ?section = "health_section logging_env db_health put_db_health demo_probe"
  have miss: "run (cached_if_fresh logging_env db_health) (queried n) = (None, queried n)" for n
    by (simp add: cached_if_fresh_def run_act queried_def ann_world_def ref_world_def)
  have free: "\<not> write_locked ps" if "\<And>p. p \<in> set ps \<Longrightarrow> p = Looking \<or> p = Waiting \<or> p = Dropped True"
    for ps :: "((rdb, pg, osstate) world, json) health_request list"
    using that by (auto simp: write_locked_def)
  obtain g where g: "after_steps 3 (?section, queried 0) = (Act g, queried 1)" using after_query [of 0] by auto
  obtain h where h: "after_steps 3 (?section, queried 1) = (Act h, queried 2)" using after_query [of 1] by (auto simp: eval_nat_numeral)
  have "demo_moves (queried 0, [Looking, Looking]) (queried 0, [Waiting, Looking])"
    using health_move.looks [of 0 "[Looking, Looking]", OF _ _ free miss] by fastforce
  also have "demo_moves (queried 0, [Waiting, Looking]) (queried 0, [Waiting, Waiting])"
    using health_move.looks [of 1 "[Waiting, Looking]", OF _ _ free miss] by fastforce
  also have "demo_moves (queried 0, [Waiting, Waiting]) (queried 0, [Holding ?section, Waiting])"
    using health_move.locks [of 0 "[Waiting, Waiting]", OF _ _ free] by fastforce
  also have "demo_moves (queried 0, [Holding ?section, Waiting]) (queried 1, [Holding (Act g), Waiting])"
    using works_on [of 0 "[Holding ?section, Waiting]", OF _ _ g] by simp
  also have "demo_moves (queried 1, [Holding (Act g), Waiting]) (queried 1, [Dropped True, Waiting])"
    using health_move.drops [of 0 "[Holding (Act g), Waiting]"] by fastforce
  also have "demo_moves (queried 1, [Dropped True, Waiting]) (queried 1, [Dropped True, Holding ?section])"
    using health_move.locks [of 1 "[Dropped True, Waiting]", OF _ _ free] by fastforce
  also have "demo_moves (queried 1, [Dropped True, Holding ?section]) (queried 2, [Dropped True, Holding (Act h)])"
    using works_on [of 1 "[Dropped True, Holding ?section]", OF _ _ h] by simp
  finally have moves: "demo_moves (queried 0, [Looking, Looking]) (queried 2, [Dropped True, Holding (Act h)])" .
  have "length (users (db (queried 2))) \<le> length (users (db (queried 0))) + 1 +
      dropped_probes [Dropped True, Holding (Act h) :: ((rdb, pg, osstate) world, json) health_request]"
    by (rule health_burst_probes_once [OF moves, of "\<lambda>p. length (users p)" 0 "\<lambda>s. oclock s < 1000"])
      (simp_all add: counts_queries_def logging_env_def within_second_def health_cache_ttl_def ref_env_def dropped_probes_def
        ref_sel refusing_net_def queried_def ann_world_def ref_world_sel write_locked_def)
  with moves show ?thesis by (auto simp: dropped_probes_def)
qed

end
