(* ===== verification/Api_Router.thy ===== *)
theory Api_Router
  imports Health
begin

text \<open>
  The composition of the backend (\<open>build_router\<close> in \<open>backend/api/src/lib.rs\<close>): which routes are mounted
  for a given application state, and which layers a request passes on its way to a handler.
\<close>

section \<open>Router expressions\<close>

datatype endpoint =
    EpHealth | EpHealthDb | EpHealthRedis | EpHealthStorage | EpHealthPython | EpHealthAuth
  | EpMetrics | EpMetricsPython | EpLive
  | EpRegister | EpLogin | EpLogout | EpForgotPassword | EpResetPassword | EpRefresh | EpProviders
  | EpMe | EpDeleteAccount | EpOAuthRedirect | EpOAuthCallback
  | EpUpload | EpDownload | EpDeleteObject | EpListObjects | EpPresign | EpInitMultipart | EpUploadPart
  | EpCompleteMultipart | EpAbortMultipart
  | EpListNotes | EpCreateNote | EpGetNote | EpUpdateNote | EpDeleteNote | EpNotesFallback
  | EpAuthMeDisabled

datatype layer =
    TrackMetrics
  | TrackAuthMetrics
  | BodyLimit nat
  | FlagsExtension feature_flags
  | MaintenanceLayer
  | DevUserExtension string
  | DevUserLayer
  | AuthExtension auth_service
  | RedisExtension
  | AuthLayer

text \<open>
  The calls of \<open>axum::Router\<close> that the code makes. \<open>RRoute R p verb e\<close> adds one method of one route;
  \<open>RNest R prefix S\<close> mounts \<open>S\<close> under a prefix.
\<close>

datatype router =
    RNew
  | RRoute router string string endpoint
  | RLayer router layer
  | RMerge router router
  | RNest router string router

definition add_routes :: "router \<Rightarrow> (string \<times> string \<times> endpoint) list \<Rightarrow> router" where
  "add_routes R xs = foldl (\<lambda>R (p, verb, e). RRoute R p verb e) R xs"

section \<open>The routes\<close>

definition health_table :: "(string \<times> string \<times> endpoint) list" where
  "health_table = [
     (''/health'', ''GET'', EpHealth), (''/health/db'', ''GET'', EpHealthDb),
     (''/health/redis'', ''GET'', EpHealthRedis), (''/health/storage'', ''GET'', EpHealthStorage),
     (''/health/python'', ''GET'', EpHealthPython), (''/health/auth'', ''GET'', EpHealthAuth)]"

definition health_routes :: router where
  "health_routes = add_routes RNew health_table"

definition metrics_table :: "(string \<times> string \<times> endpoint) list" where
  "metrics_table = [(''/metrics'', ''GET'', EpMetrics), (''/metrics/python'', ''GET'', EpMetricsPython),
     (''/live'', ''GET'', EpLive)]"

definition auth_routes :: "app_state \<Rightarrow> router option" where
  "auth_routes A =
     (if hs_db (as_health A) \<noteq> Connected then None
      else case as_auth A of None \<Rightarrow> None
      | Some auth_svc \<Rightarrow>
        if \<not> hs_redis (as_health A) then None
        else Some (RLayer (add_routes RNew [
          (''/register'', ''POST'', EpRegister), (''/login'', ''POST'', EpLogin), (''/logout'', ''POST'', EpLogout),
          (''/forgot-password'', ''POST'', EpForgotPassword), (''/reset-password'', ''POST'', EpResetPassword),
          (''/refresh'', ''POST'', EpRefresh), (''/providers'', ''GET'', EpProviders),
          (''/me'', ''GET'', EpMe), (''/me'', ''DELETE'', EpDeleteAccount),
          (''/oauth/{provider}'', ''GET'', EpOAuthRedirect),
          (''/oauth/{provider}/callback'', ''GET'', EpOAuthCallback)]) TrackAuthMetrics))"

text \<open>The state of the authentication handlers. The HTTP client is a parameter.\<close>

definition auth_handler_state :: "'o web \<Rightarrow> auth_service \<Rightarrow> 'o auth_state" where
  "auth_handler_state W auth_svc = \<lparr>st_auth = auth_svc,
     st_oauth = oauth_service_new (c_google_client_id (config auth_svc)) (c_google_client_secret (config auth_svc))
       (c_github_client_id (config auth_svc)) (c_github_client_secret (config auth_svc)), st_web = W\<rparr>"

definition storage_routes :: "app_state \<Rightarrow> router option" where
  "storage_routes A = (case as_storage A of None \<Rightarrow> None
     | Some storage_svc \<Rightarrow> Some (RLayer (add_routes RNew [
         (''/{key}'', ''PUT'', EpUpload), (''/{key}'', ''GET'', EpDownload), (''/{key}'', ''DELETE'', EpDeleteObject),
         (''/'', ''GET'', EpListObjects), (''/presign'', ''POST'', EpPresign),
         (''/multipart/init'', ''POST'', EpInitMultipart),
         (''/multipart/{key}/{upload_id}/part/{part_number}'', ''PUT'', EpUploadPart),
         (''/multipart/{key}/{upload_id}/complete'', ''POST'', EpCompleteMultipart),
         (''/multipart/{key}/{upload_id}'', ''DELETE'', EpAbortMultipart)]) (BodyLimit (10 * 1024 * 1024))))"

definition dev_user_id :: "lib \<Rightarrow> (string \<Rightarrow> string option) \<Rightarrow> string option" where
  "dev_user_id L vars = (case vars ''DEV_USER_ID'' of
       None \<Rightarrow> None
     | Some v \<Rightarrow> if v = [] then None else if is_uuid L v then Some v else None)"

text \<open>The notes: the real handlers, or the fallback. \<open>unwrap\<close> is reached only with a dev user.\<close>

definition notes_routes :: "app_state \<Rightarrow> string option \<Rightarrow> router" where
  "notes_routes A dev =
     (let mount_notes = as_auth A \<noteq> None \<or> dev \<noteq> None; db_connected = (hs_db (as_health A) = Connected) in
      if mount_notes \<and> db_connected then
        (let R = RLayer (add_routes RNew [
             (''/'', ''GET'', EpListNotes), (''/'', ''POST'', EpCreateNote), (''/{id}'', ''GET'', EpGetNote),
             (''/{id}'', ''PUT'', EpUpdateNote), (''/{id}'', ''DELETE'', EpDeleteNote)]) (BodyLimit (128 * 1024)) in
         case (as_auth A, dev) of
           (None, Some uid) \<Rightarrow> RLayer (RLayer R (DevUserExtension uid)) DevUserLayer
         | _ \<Rightarrow> R)
      else add_routes RNew [
        (''/'', ''GET'', EpNotesFallback), (''/'', ''POST'', EpNotesFallback), (''/{id}'', ''GET'', EpNotesFallback),
        (''/{id}'', ''PUT'', EpNotesFallback), (''/{id}'', ''DELETE'', EpNotesFallback)])"

definition build_router :: "lib \<Rightarrow> (string \<Rightarrow> string option) \<Rightarrow> app_state \<Rightarrow> router" where
  "build_router L vars A =
     (let R = RLayer (add_routes (RMerge RNew health_routes) metrics_table) TrackMetrics;
          flags = hs_flags (as_health A);
          R = RLayer (RLayer R MaintenanceLayer) (FlagsExtension flags);
          R = (case auth_routes A of Some S \<Rightarrow> RNest R ''/auth'' S | None \<Rightarrow> R);
          R = (case storage_routes A of Some S \<Rightarrow> RNest R ''/storage'' S | None \<Rightarrow> R);
          R = RNest R ''/notes'' (notes_routes A (dev_user_id L vars));
          R = (if as_auth A = None then RRoute R ''/auth/me'' ''GET'' EpAuthMeDisabled else R) in
      case as_auth A of
        Some auth_svc \<Rightarrow>
          (let R = RLayer (RLayer R AuthLayer) (AuthExtension auth_svc) in
           if hs_redis (as_health A) then RLayer R RedisExtension else R)
      | None \<Rightarrow> R)"

section \<open>A request on its way\<close>

text \<open>
  A layer passes the request on, possibly with more extensions, or answers itself. The metrics layers
  only observe; the body limit only bounds what a handler can read.
\<close>

definition layer_step ::
  "('r, 'd, 'o) env \<Rightarrow> layer \<Rightarrow> api_request \<Rightarrow> (('r, 'd, 'o) world, plain_response + response + api_request) prog" where
  "layer_step E l req = (case l of
       TrackMetrics \<Rightarrow> Ret (Inr (Inr req))
     | TrackAuthMetrics \<Rightarrow> Ret (Inr (Inr req))
     | BodyLimit n \<Rightarrow> Ret (Inr (Inr req))
     | FlagsExtension flags \<Rightarrow> Ret (Inr (Inr (req\<lparr>ext_flags := Some flags\<rparr>)))
     | MaintenanceLayer \<Rightarrow> Ret (case maintenance_middleware req of Some resp \<Rightarrow> Inl resp | None \<Rightarrow> Inr (Inr req))
     | DevUserExtension uid \<Rightarrow> Ret (Inr (Inr (req\<lparr>ext_dev := Some uid\<rparr>)))
     | DevUserLayer \<Rightarrow> Ret (Inr (Inr (dev_user_middleware req)))
     | AuthExtension svc \<Rightarrow> Ret (Inr (Inr (req\<lparr>ext_auth := Some svc\<rparr>)))
     | RedisExtension \<Rightarrow> Ret (Inr (Inr (req\<lparr>ext_redis := True\<rparr>)))
     | AuthLayer \<Rightarrow> map_result (\<lambda>r. case r of
           Inl resp \<Rightarrow> Inr (Inl resp)
         | Inr req' \<Rightarrow> Inr (Inr (req\<lparr>ext_user := ext_user req'\<rparr>))) (auth_decide E (request.truncate req)))"

text \<open>Outermost layer first: the answer of a layer, or the request as it reaches the handler.\<close>

primrec through_layers ::
  "('r, 'd, 'o) env \<Rightarrow> layer list \<Rightarrow> api_request \<Rightarrow> (('r, 'd, 'o) world, plain_response + response + api_request) prog" where
  "through_layers E [] req = Ret (Inr (Inr req))"
| "through_layers E (l # ls) req =
     bind (layer_step E l req) (\<lambda>r. case r of
         Inr (Inr req') \<Rightarrow> through_layers E ls req'
       | answer \<Rightarrow> Ret answer)"

section \<open>What the code relies on from axum\<close>

text \<open>
  \<open>candidates matches R verb path\<close>: the handlers, with the layers around them, that the documentation of
  \<open>axum::Router\<close> lets serve a request: a layer wraps what was added to the router before it, a nested
  router sees the path without the prefix. \<open>matches pattern path\<close> is the matching of one pattern.
  \<open>serves\<close> is the library's choice among them.
\<close>

definition admits :: "string \<Rightarrow> string \<Rightarrow> bool" where
  "admits verb m \<longleftrightarrow> m = verb \<or> verb = ''GET'' \<and> m = ''HEAD''"

definition below :: "string \<Rightarrow> string \<Rightarrow> string option" where
  "below prefix p = (case strip_prefix prefix p of
       None \<Rightarrow> None | Some q \<Rightarrow> Some (if q = [] then ''/'' else q))"

primrec candidates ::
  "(string \<Rightarrow> string \<Rightarrow> bool) \<Rightarrow> router \<Rightarrow> string \<Rightarrow> string \<Rightarrow> (layer list \<times> endpoint) list" where
  "candidates matches RNew m p = []"
| "candidates matches (RRoute R pattern verb e) m p =
     candidates matches R m p @ (if admits verb m \<and> matches pattern p then [([], e)] else [])"
| "candidates matches (RLayer R l) m p = map (\<lambda>(ls, e). (l # ls, e)) (candidates matches R m p)"
| "candidates matches (RMerge R S) m p = candidates matches R m p @ candidates matches S m p"
| "candidates matches (RNest R prefix S) m p = candidates matches R m p @
     (case below prefix p of None \<Rightarrow> [] | Some q \<Rightarrow> candidates matches S m q)"

type_synonym serving = "router \<Rightarrow> string \<Rightarrow> string \<Rightarrow> (layer list \<times> endpoint) option"

locale axum =
  fixes serves :: serving and matches :: "string \<Rightarrow> string \<Rightarrow> bool"
  assumes static: "CHR ''{'' \<notin> set pattern \<Longrightarrow> matches pattern p \<Longrightarrow> p = pattern"
    and sound: "serves R m p = Some x \<Longrightarrow> x \<in> set (candidates matches R m p)"

text \<open>A matcher: a segment in braces matches any nonempty segment. The last candidate is served.\<close>

definition segment_matches :: "string \<Rightarrow> string \<Rightarrow> bool" where
  "segment_matches a b \<longleftrightarrow> (if starts_with a ''{'' then b \<noteq> [] else a = b)"

definition ref_matches :: "string \<Rightarrow> string \<Rightarrow> bool" where
  "ref_matches pattern p \<longleftrightarrow> (if CHR ''{'' \<in> set pattern
     then list_all2 segment_matches (split_on (CHR ''/'') pattern) (split_on (CHR ''/'') p) else p = pattern)"

definition ref_serves :: serving where
  "ref_serves R m p = (case rev (candidates ref_matches R m p) of [] \<Rightarrow> None | x # _ \<Rightarrow> Some x)"

interpretation ref_axum: axum ref_serves ref_matches
proof unfold_locales
  fix R m p x
  assume "ref_serves R m p = Some x"
  then have "x \<in> set (rev (candidates ref_matches R m p))"
    by (cases "rev (candidates ref_matches R m p)") (auto simp: ref_serves_def)
  then show "x \<in> set (candidates ref_matches R m p)" by simp
qed (simp add: ref_matches_def)

section \<open>Which layers a route has\<close>

lemma candidates_add_routes:
  "x \<in> set (candidates matches (add_routes R xs) m p) \<longleftrightarrow> x \<in> set (candidates matches R m p) \<or>
     (\<exists>pattern verb e. (pattern, verb, e) \<in> set xs \<and> admits verb m \<and> matches pattern p \<and> x = ([], e))"
proof (induction xs arbitrary: R)
  case Nil
  then show ?case by (simp add: add_routes_def)
next
  case (Cons y xs)
  obtain pattern verb e where y: "y = (pattern, verb, e)" by (cases y)
  have "add_routes R (y # xs) = add_routes (RRoute R pattern verb e) xs" by (simp add: add_routes_def y)
  then show ?case
    unfolding y by (simp only: Cons candidates.simps set_append) auto
qed

text \<open>The layers that the whole router gets when authentication is configured.\<close>

definition auth_layers :: "app_state \<Rightarrow> layer list" where
  "auth_layers A = (case as_auth A of
       Some svc \<Rightarrow> (if hs_redis (as_health A) then [RedisExtension] else []) @ [AuthExtension svc, AuthLayer]
     | None \<Rightarrow> [])"

text \<open>The layers below them, by the part of the router a handler belongs to.\<close>

datatype part = OpenPart | AuthPart | StoragePart | NotesPart | FallbackPart | DisabledPart

definition part_of :: "endpoint \<Rightarrow> part" where
  "part_of e =
     (if e \<in> {EpHealth, EpHealthDb, EpHealthRedis, EpHealthStorage, EpHealthPython, EpHealthAuth, EpMetrics,
        EpMetricsPython, EpLive} then OpenPart
      else if e \<in> {EpRegister, EpLogin, EpLogout, EpForgotPassword, EpResetPassword, EpRefresh, EpProviders, EpMe,
        EpDeleteAccount, EpOAuthRedirect, EpOAuthCallback} then AuthPart
      else if e \<in> {EpListNotes, EpCreateNote, EpGetNote, EpUpdateNote, EpDeleteNote} then NotesPart
      else if e = EpNotesFallback then FallbackPart
      else if e = EpAuthMeDisabled then DisabledPart
      else StoragePart)"

definition inner_layers :: "lib \<Rightarrow> (string \<Rightarrow> string option) \<Rightarrow> app_state \<Rightarrow> endpoint \<Rightarrow> layer list" where
  "inner_layers L vars A e = (case part_of e of
       OpenPart \<Rightarrow> [FlagsExtension (hs_flags (as_health A)), MaintenanceLayer, TrackMetrics]
     | AuthPart \<Rightarrow> [TrackAuthMetrics]
     | StoragePart \<Rightarrow> [BodyLimit (10 * 1024 * 1024)]
     | NotesPart \<Rightarrow> (case (as_auth A, dev_user_id L vars) of
           (None, Some uid) \<Rightarrow> [DevUserLayer, DevUserExtension uid, BodyLimit (128 * 1024)]
         | _ \<Rightarrow> [BodyLimit (128 * 1024)])
     | _ \<Rightarrow> [])"

text \<open>What each part of the router needs.\<close>

definition needs :: "lib \<Rightarrow> (string \<Rightarrow> string option) \<Rightarrow> app_state \<Rightarrow> part \<Rightarrow> bool" where
  "needs L vars A pt = (case pt of
       OpenPart \<Rightarrow> True
     | AuthPart \<Rightarrow> hs_db (as_health A) = Connected \<and> as_auth A \<noteq> None \<and> hs_redis (as_health A)
     | StoragePart \<Rightarrow> as_storage A \<noteq> None
     | NotesPart \<Rightarrow> hs_db (as_health A) = Connected \<and> (as_auth A \<noteq> None \<or> dev_user_id L vars \<noteq> None)
     | FallbackPart \<Rightarrow> \<not> (hs_db (as_health A) = Connected \<and> (as_auth A \<noteq> None \<or> dev_user_id L vars \<noteq> None))
     | DisabledPart \<Rightarrow> as_auth A = None)"

text \<open>The first part of the router, the only one under the maintenance layer.\<close>

lemma open_routes_whitelisted:
  assumes "(pattern, verb, e) \<in> set (health_table @ metrics_table)"
  shows "is_whitelisted pattern \<and> CHR ''{'' \<notin> set pattern \<and> part_of e = OpenPart"
proof -
  have a: "list_all (\<lambda>(pattern, verb, e). is_whitelisted pattern \<and> CHR ''{'' \<notin> set pattern \<and> part_of e = OpenPart) (health_table @ metrics_table)"
    by code_simp
  show ?thesis using bspec [OF a [unfolded list_all_iff] assms] by simp
qed

lemma auth_candidates:
  assumes "auth_routes A = Some S" and "(ls, e) \<in> set (candidates matches S m q)"
  shows "ls = [TrackAuthMetrics] \<and> part_of e = AuthPart \<and> needs L vars A AuthPart"
  using assms
  by (auto simp: auth_routes_def candidates_add_routes needs_def split: if_splits option.splits) (simp_all add: part_of_def)

lemma storage_candidates:
  assumes "storage_routes A = Some S" and "(ls, e) \<in> set (candidates matches S m q)"
  shows "ls = [BodyLimit (10 * 1024 * 1024)] \<and> part_of e = StoragePart \<and> needs L vars A StoragePart"
  using assms
  by (auto simp: storage_routes_def candidates_add_routes needs_def split: if_splits option.splits) (simp_all add: part_of_def)

lemma notes_candidates:
  assumes "(ls, e) \<in> set (candidates matches (notes_routes A (dev_user_id L vars)) m q)"
  shows "ls = inner_layers L vars A e \<and> part_of e \<in> {NotesPart, FallbackPart} \<and> needs L vars A (part_of e)"
  using assms
  by (auto simp: notes_routes_def Let_def candidates_add_routes needs_def inner_layers_def part_of_def
      split: if_splits option.splits)

lemma open_candidates:
  assumes "(ls, e) \<in> set (candidates matches (add_routes (RMerge RNew health_routes) metrics_table) m p)"
    and "\<And>pattern. CHR ''{'' \<notin> set pattern \<Longrightarrow> matches pattern p \<Longrightarrow> p = pattern"
  shows "ls = [] \<and> part_of e = OpenPart \<and> is_whitelisted p"
proof -
  from assms(1) obtain pattern verb where "(pattern, verb, e) \<in> set (health_table @ metrics_table)" and "matches pattern p" and "ls = []"
    by (auto simp: candidates_add_routes health_routes_def)
  with open_routes_whitelisted [of pattern verb e] assms(2) [of pattern] show ?thesis by auto
qed

text \<open>A property of the handlers, with their layers, that a router can serve.\<close>

definition all_served :: "(string \<Rightarrow> string \<Rightarrow> bool) \<Rightarrow> string \<Rightarrow> string \<Rightarrow> (layer list \<Rightarrow> endpoint \<Rightarrow> bool) \<Rightarrow> router \<Rightarrow> bool" where
  "all_served matches m p P R \<longleftrightarrow> (\<forall>(ls, e) \<in> set (candidates matches R m p). P ls e)"

lemma all_served_layer: "all_served matches m p (\<lambda>ls. P (l # ls)) R \<Longrightarrow> all_served matches m p P (RLayer R l)"
  by (auto simp: all_served_def)

lemma all_served_nest:
  assumes "all_served matches m p P R" and "\<And>S q. x = Some S \<Longrightarrow> all_served matches m q P S"
  shows "all_served matches m p P (case x of Some S \<Rightarrow> RNest R prefix S | None \<Rightarrow> R)"
  using assms by (fastforce simp: all_served_def split: option.splits)

lemma all_served_nest1:
  "all_served matches m p P R \<Longrightarrow> (\<And>q. all_served matches m q P S) \<Longrightarrow> all_served matches m p P (RNest R prefix S)"
  by (fastforce simp: all_served_def split: option.splits)

lemma all_served_if_route:
  "all_served matches m p P R \<Longrightarrow> (c \<Longrightarrow> P [] e) \<Longrightarrow> all_served matches m p P (if c then RRoute R pattern verb e else R)"
  by (auto simp: all_served_def)

lemma all_served_if_layer:
  "all_served matches m p (\<lambda>ls. P ((if c then [l] else []) @ ls)) R \<Longrightarrow>
   all_served matches m p P (if c then RLayer R l else R)"
  by (auto simp: all_served_def)

lemma all_served_mono:
  "all_served matches m p P R \<Longrightarrow> (\<And>ls e. P ls e \<Longrightarrow> Q ls e) \<Longrightarrow> all_served matches m p Q R"
  by (auto simp: all_served_def)

definition as_mounted :: "lib \<Rightarrow> (string \<Rightarrow> string option) \<Rightarrow> app_state \<Rightarrow> string \<Rightarrow> layer list \<Rightarrow> endpoint \<Rightarrow> bool" where
  "as_mounted L vars A p ls e \<longleftrightarrow> ls = inner_layers L vars A e \<and> needs L vars A (part_of e) \<and>
     (part_of e = OpenPart \<longrightarrow> is_whitelisted p)"

lemma mounted_open:
  assumes "\<And>pattern. CHR ''{'' \<notin> set pattern \<Longrightarrow> matches pattern p \<Longrightarrow> p = pattern"
  shows "all_served matches m p (as_mounted L vars A p)
     (RLayer (RLayer (RLayer (add_routes (RMerge RNew health_routes) metrics_table) TrackMetrics) MaintenanceLayer)
       (FlagsExtension (hs_flags (as_health A))))"
  by (intro all_served_layer)
    (use open_candidates [OF _ assms] in \<open>fastforce simp: all_served_def as_mounted_def inner_layers_def needs_def\<close>)

lemma mounted_parts:
  "auth_routes A = Some S \<Longrightarrow> all_served matches m q (as_mounted L vars A p) S"
  "storage_routes A = Some S \<Longrightarrow> all_served matches m q (as_mounted L vars A p) S"
  "all_served matches m q (as_mounted L vars A p) (notes_routes A (dev_user_id L vars))"
  "as_auth A = None \<Longrightarrow> as_mounted L vars A p [] EpAuthMeDisabled"
proof -
  show "all_served matches m q (as_mounted L vars A p) S" if "auth_routes A = Some S"
    using auth_candidates [OF that] by (fastforce simp: all_served_def as_mounted_def inner_layers_def)
  show "all_served matches m q (as_mounted L vars A p) S" if "storage_routes A = Some S"
    using storage_candidates [OF that] by (fastforce simp: all_served_def as_mounted_def inner_layers_def)
  show "all_served matches m q (as_mounted L vars A p) (notes_routes A (dev_user_id L vars))"
    using notes_candidates by (fastforce simp: all_served_def as_mounted_def)
  show "as_auth A = None \<Longrightarrow> as_mounted L vars A p [] EpAuthMeDisabled"
    by (simp add: as_mounted_def inner_layers_def part_of_def needs_def)
qed

lemma build_candidates:
  assumes "\<And>pattern. CHR ''{'' \<notin> set pattern \<Longrightarrow> matches pattern p \<Longrightarrow> p = pattern"
  shows "all_served matches m p (\<lambda>ls e. \<exists>ls'. ls = auth_layers A @ ls' \<and> as_mounted L vars A p ls' e)
    (build_router L vars A)"
proof -
  let ?all = "all_served matches m p (as_mounted L vars A p)"
  define R0 where "R0 = RLayer (RLayer (RLayer (add_routes (RMerge RNew health_routes) metrics_table) TrackMetrics) MaintenanceLayer)
       (FlagsExtension (hs_flags (as_health A)))"
  define R1 where "R1 = (case auth_routes A of Some S \<Rightarrow> RNest R0 ''/auth'' S | None \<Rightarrow> R0)"
  define R2 where "R2 = (case storage_routes A of Some S \<Rightarrow> RNest R1 ''/storage'' S | None \<Rightarrow> R1)"
  define R3 where "R3 = RNest R2 ''/notes'' (notes_routes A (dev_user_id L vars))"
  define R4 where "R4 = (if as_auth A = None then RRoute R3 ''/auth/me'' ''GET'' EpAuthMeDisabled else R3)"
  have "?all R0" unfolding R0_def by (rule mounted_open [OF assms])
  then have "?all R1" unfolding R1_def by (rule all_served_nest) (rule mounted_parts)
  then have "?all R2" unfolding R2_def by (rule all_served_nest) (rule mounted_parts)
  then have "?all R3"
    unfolding R3_def by (rule all_served_nest1) (rule mounted_parts)
  then have R4: "?all R4" unfolding R4_def by (rule all_served_if_route) (rule mounted_parts)
  have build: "build_router L vars A = (case as_auth A of
      Some auth_svc \<Rightarrow> (if hs_redis (as_health A) then RLayer (RLayer (RLayer R4 AuthLayer) (AuthExtension auth_svc)) RedisExtension
        else RLayer (RLayer R4 AuthLayer) (AuthExtension auth_svc))
    | None \<Rightarrow> R4)"
    unfolding build_router_def Let_def R0_def R1_def R2_def R3_def R4_def by (rule refl)
  show ?thesis
  proof (cases "as_auth A")
    case None
    with R4 show ?thesis unfolding build by (simp add: auth_layers_def all_served_def)
  next
    case (Some svc)
    then show ?thesis
      unfolding build option.case Some
      by (intro all_served_if_layer all_served_layer) (rule all_served_mono [OF R4], simp add: auth_layers_def Some)
  qed
qed

text \<open>What the router of the code serves.\<close>

lemma serves_build:
  assumes "axum serves matches" and "serves (build_router L vars A) m p = Some (ls, e)"
  obtains ls' where "ls = auth_layers A @ ls'" and "as_mounted L vars A p ls' e"
proof -
  have "(ls, e) \<in> set (candidates matches (build_router L vars A) m p)"
    by (rule axum.sound [OF assms])
  moreover have "all_served matches m p (\<lambda>ls e. \<exists>ls'. ls = auth_layers A @ ls' \<and> as_mounted L vars A p ls' e)
      (build_router L vars A)"
    by (rule build_candidates) (rule axum.static [OF assms(1)])
  ultimately show thesis using that by (fastforce simp: all_served_def)
qed

section \<open>Layers on a request\<close>

text \<open>The maintenance layer is the only one that answers with a text; it never does on a whitelisted path.\<close>

lemma layer_step_path:
  assumes "run (layer_step E l req) w = (Inr (Inr req'), w')"
  shows "path req' = path req"
  using assms
  by (auto simp: layer_step_def run_simps run_Ret_iff dev_user_middleware_def split: layer.splits option.splits sum.splits prod.splits)

lemma layer_step_whitelisted:
  assumes "is_whitelisted (path req)"
  shows "fst (run (layer_step E l req) w) \<noteq> Inl resp"
  using assms
  by (auto simp: layer_step_def run_simps maintenance_middleware_def split: layer.splits option.splits sum.splits prod.splits)

lemma layer_step_other: "l \<noteq> MaintenanceLayer \<Longrightarrow> fst (run (layer_step E l req) w) \<noteq> Inl resp"
  by (auto simp: layer_step_def run_simps split: layer.splits sum.splits prod.splits)

lemma through_no_text:
  assumes "MaintenanceLayer \<in> set ls \<longrightarrow> is_whitelisted (path req)"
  shows "fst (run (through_layers E ls req) w) \<noteq> Inl resp"
  using assms
proof (induction ls arbitrary: req w)
  case Nil
  then show ?case by (simp add: run_simps)
next
  case (Cons l ls)
  obtain r v where r: "run (layer_step E l req) w = (r, v)" by (cases "run (layer_step E l req) w")
  have no: "r \<noteq> Inl x" for x
    using layer_step_other [of l E req w x] layer_step_whitelisted [of req E l w x] Cons.prems r by (cases "l = MaintenanceLayer") auto
  then show ?case
  proof (cases r)
    case (Inr s)
    then show ?thesis
    proof (cases s)
      case (Inr req')
      with r \<open>r = Inr s\<close> have "path req' = path req" by (simp add: layer_step_path)
      with Cons Inr \<open>r = Inr s\<close> r show ?thesis by (simp add: run_bind)
    qed (use r in \<open>simp add: run_bind run_Ret\<close>)
  qed (simp add: no)
qed

text \<open>
  C29. Maintenance mode stops no request that has a route: the layer is only
  around the health, metrics and live routes, and all of those are on its whitelist. So whatever the
  feature flags say, a request to any mounted route passes the layers without the 503 answer.
\<close>

theorem maintenance_blocks_no_route:
  assumes "axum serves matches" and "serves (build_router L vars A) m (path req) = Some (ls, e)"
  shows "fst (run (through_layers E ls req) w) \<noteq> Inl resp"
proof (rule through_no_text)
  obtain ls' where ls: "ls = auth_layers A @ ls'" and m: "as_mounted L vars A (path req) ls' e"
    using assms by (rule serves_build)
  have "MaintenanceLayer \<notin> set (auth_layers A)" by (auto simp: auth_layers_def split: option.splits if_splits)
  moreover have "MaintenanceLayer \<in> set (inner_layers L vars A e) \<Longrightarrow> part_of e = OpenPart"
    by (auto simp: inner_layers_def split: part.splits option.splits)
  ultimately show "MaintenanceLayer \<in> set ls \<longrightarrow> is_whitelisted (path req)"
    using ls m by (auto simp: as_mounted_def)
qed

section \<open>Where the user of a request comes from\<close>

lemma inner_user:
  assumes "run (through_layers E (inner_layers L vars A e) req) w = (Inr (Inr req'), w')" and "ext_dev req = None"
  shows "ext_user req' = ext_user req"
  using assms
  by (auto simp: inner_layers_def layer_step_def dev_user_middleware_def run_bind run_Ret
      split: part.splits option.splits)

text \<open>The credentials look at the headers and the method only.\<close>

lemma credentials_of_parts:
  fixes r r' :: request
  assumes "headers r' = headers r" and "req_method r' = req_method r"
  shows "bearer_credentials E r' svc clock u = bearer_credentials E r svc clock u"
    and "cookie_credentials E r' w u = cookie_credentials E r w u"
    and "extract_bearer E r' svc = extract_bearer E r svc"
  using assms
  by (simp_all add: bearer_credentials_def cookie_credentials_def csrf_pair_def extract_bearer_def)

lemma auth_layers_user:
  assumes "as_auth A = Some svc" and "run (through_layers E (auth_layers A @ inner_layers L vars A e) req) w = (Inr (Inr req'), w')"
    and "ext_dev req = None"
  obtains r q v where "headers r = headers req" "req_method r = req_method req" "path r = path req"
    "ext_user r = ext_user req" "ext_auth r = Some svc" "ext_redis r \<longrightarrow> ext_redis req \<or> hs_redis (as_health A)"
    "run (auth_decide E r) w = (Inr q, v)" "ext_user req' = ext_user q"
proof -
  define req1 where "req1 = (if hs_redis (as_health A) then req\<lparr>ext_redis := True\<rparr> else req)\<lparr>ext_auth := Some svc\<rparr>"
  obtain r v where d: "run (auth_decide E (request.truncate req1)) w = (r, v)"
    by (cases "run (auth_decide E (request.truncate req1)) w")
  have "through_layers E (auth_layers A @ inner_layers L vars A e) req =
      bind (layer_step E AuthLayer req1) (\<lambda>r. case r of
         Inr (Inr req') \<Rightarrow> through_layers E (inner_layers L vars A e) req' | answer \<Rightarrow> Ret answer)"
    using assms(1) by (simp add: auth_layers_def req1_def layer_step_def)
  with assms(2) d obtain q where q: "r = Inr q"
    and t: "run (through_layers E (inner_layers L vars A e) (req1\<lparr>ext_user := ext_user q\<rparr>)) v = (Inr (Inr req'), w')"
    by (auto simp: layer_step_def run_bind run_map_result run_Ret split: sum.splits prod.splits)
  have "ext_user req' = ext_user q"
    using inner_user [OF t] assms(3) by (simp add: req1_def)
  with d q show thesis
    by (intro that [of "request.truncate req1" q v]) (simp_all add: req1_def request.truncate_def)
qed

text \<open>
  C4. The composition of the router with the authentication middleware: on a request that arrives without
  extensions, a handler only ever sees a user if authentication is configured, the path is not public, and
  the request itself carries that user's credentials. In particular, without authentication there is no
  user at all, not even the one \<open>DEV_USER_ID\<close> names: its layer runs before the layer that would tell it the name.
\<close>

theorem handlers_see_authenticated_users:
  assumes "axum serves matches" and "serves (build_router L vars A) m (path req) = Some (ls, e)"
    and "run (through_layers E ls req) w = (Inr (Inr req'), w')"
    and "ext_user req = None" and "ext_dev req = None" and "\<not> ext_redis req" and "ext_user req' = Some u"
  shows "\<exists>svc. as_auth A = Some svc \<and> \<not> public_path (path req) \<and>
    (c_auth_mode (config svc) \<noteq> CookieMode
       \<and> bearer_credentials E (request.truncate req) svc (fst (os_now (e_os E) (outside w))) u
     \<or> c_auth_mode (config svc) \<noteq> BearerMode \<and> hs_redis (as_health A)
       \<and> cookie_credentials E (request.truncate req) (snd (run (extract_bearer E (request.truncate req) svc) w)) u)"
proof -
  obtain ls' where "ls = auth_layers A @ ls'" and "as_mounted L vars A (path req) ls' e"
    using assms(1,2) by (rule serves_build)
  then have ls: "ls = auth_layers A @ inner_layers L vars A e" by (simp add: as_mounted_def)
  show ?thesis
  proof (cases "as_auth A")
    case None
    with assms ls inner_user [of E L vars A e req w req' w'] show ?thesis by (simp add: auth_layers_def)
  next
    case (Some svc)
    obtain r q v where r: "headers r = headers req" "req_method r = req_method req" "path r = path req"
      "ext_user r = ext_user req" "ext_auth r = Some svc" "ext_redis r \<longrightarrow> ext_redis req \<or> hs_redis (as_health A)"
      and d: "run (auth_decide E r) w = (Inr q, v)" and q: "ext_user req' = ext_user q"
      using Some assms(3) [unfolded ls] assms(5) by (rule auth_layers_user)
    have same: "headers r = headers (request.truncate req)" "req_method r = req_method (request.truncate req)"
      using r by (simp_all add: request.truncate_def)
    from decide_credentials [OF d, of u] q assms r Some show ?thesis
      by (auto simp: credentials_of_parts [OF same])
  qed
qed

text \<open>
  C30. No route is served without what its handler needs: the routes of the
  authentication crate are mounted only with the database, Redis and the auth service, the storage routes only
  with the object store, the notes only with the database and either authentication or a development user,
  and the fallback of the notes only otherwise.
\<close>

theorem routes_have_their_services:
  assumes "axum serves matches" and "serves (build_router L vars A) m p = Some (ls, e)"
  shows "needs L vars A (part_of e)"
  using assms by (rule serves_build) (simp add: as_mounted_def)

section \<open>Examples\<close>

text \<open>A request to the notes, and the application with the maintenance flag.\<close>

definition notes_request :: "(string \<times> string) list \<Rightarrow> api_request" where
  "notes_request hs = \<lparr>req_method = ''POST'', path = ''/notes'', headers = hs, ext_auth = None, ext_redis = False,
     ext_user = None, ext_flags = None, ext_dev = None\<rparr>"

definition maintained_app :: app_state where
  "maintained_app = demo_app\<lparr>as_health := as_health demo_app\<lparr>hs_flags := \<lparr>maintenance_mode = True\<rparr>\<rparr>\<rparr>"

lemma below_values:
  "below ''/auth'' ''/notes'' = None" "below ''/storage'' ''/notes'' = None" "below ''/notes'' ''/notes'' = Some ''/''"
  by code_simp+

lemma ref_matches_static: "CHR ''{'' \<notin> set pattern \<Longrightarrow> ref_matches pattern p \<longleftrightarrow> p = pattern"
  by (simp add: ref_matches_def)

lemma ref_matches_id: "\<not> ref_matches ''/{id}'' ''/''"
  by code_simp

lemma notes_served:
  "ref_serves (build_router ref_lib Map.empty maintained_app) ''POST'' ''/notes'' =
     Some ([RedisExtension, AuthExtension (auth_service_new (demo_config BothMode)), AuthLayer, BodyLimit 131072], EpCreateNote)"
  by (simp add: ref_serves_def build_router_def maintained_app_def demo_app_def auth_routes_def storage_routes_def
      notes_routes_def health_routes_def health_table_def metrics_table_def add_routes_def below_values
      ref_matches_static ref_matches_id admits_def)

theorem maintenance_blocks_no_route_witness:
  "maintenance_mode (hs_flags (as_health maintained_app)) \<and> (\<forall>w. fst (run (through_layers (ref_env 0 Map.empty) [RedisExtension,
     AuthExtension (auth_service_new (demo_config BothMode)), AuthLayer, BodyLimit 131072] (notes_request [])) w)
     \<noteq> Inl (503, ''{'' @ quote ''error'' @ '':'' @ quote ''maintenance mode'' @ ''}''))"
proof -
  have p: "path (notes_request []) = ''/notes''" by (simp add: notes_request_def)
  show ?thesis
    using maintenance_blocks_no_route [OF ref_axum.axum_axioms notes_served [folded p]]
    by (intro conjI allI) (simp_all add: maintained_app_def del: through_layers.simps)
qed

theorem routes_have_their_services_witness: "needs ref_lib Map.empty maintained_app NotesPart"
  using routes_have_their_services [OF ref_axum.axum_axioms notes_served] by (simp add: part_of_def)

theorem handlers_see_authenticated_users_witness:
  "bearer_credentials (ref_env 0 Map.empty) (request.truncate (notes_request (headers bearer_request)))
     (auth_service_new (demo_config BothMode)) 1000000000000 (user_of_claims demo_claims)"
proof -
  let ?q = "notes_request (headers bearer_request)"
  have d: "request.truncate (?q\<lparr>ext_redis := True, ext_auth := Some (auth_service_new (demo_config BothMode))\<rparr>) =
      bearer_request"
    by (simp add: notes_request_def bearer_request_def demo_request_def request.truncate_def)
  have r: "run (through_layers (ref_env 0 Map.empty) [RedisExtension, AuthExtension (auth_service_new (demo_config BothMode)),
      AuthLayer, BodyLimit 131072] ?q) demo_world =
     (Inr (Inr (?q\<lparr>ext_redis := True, ext_auth := Some (auth_service_new (demo_config BothMode)),
        ext_user := Some (user_of_claims demo_claims)\<rparr>)), demo_world)"
    by (simp add: layer_step_def run_bind run_map_result run_Ret d bearer_request_user)
  have p: "path ?q = ''/notes''" by (simp add: notes_request_def)
  have t: "fst (os_now ref_os (outside demo_world)) = 1000000000000"
    by (simp add: ref_os_def demo_world_def ref_world_def)
  have c: "header_text L (headers bearer_request) ''cookie'' = None" for L
    by (simp add: bearer_request_def demo_request_def header_text_def)
  from handlers_see_authenticated_users [OF ref_axum.axum_axioms notes_served [folded p] r, of "user_of_claims demo_claims"]
  show ?thesis
    by (auto simp: t c cookie_credentials_def notes_request_def request.truncate_def maintained_app_def demo_app_def)
qed

end
