(* ===== verification/Consistency.thy ===== *)
theory Consistency
  imports Api_Router Table_Frames
begin

text \<open>
  The tables of the database under the whole server: every handler that reaches the database, interleaved
  with all others, keeps the constraints of the tables and the rules the code itself enforces.
\<close>

section \<open>The calls of the server\<close>

datatype server_call =
    CallRegister "(string \<times> string) list" "ip_addr option" register_request
  | CallLogin "(string \<times> string) list" "ip_addr option" login_request
  | CallLogout auth_user "string option"
  | CallDeleteAccount auth_user
  | CallForgot "(string \<times> string) list" "ip_addr option" string
  | CallReset string string
  | CallRefresh "(string \<times> string) list" "string option"
  | CallOAuthRedirect "(string \<times> string) list" string
  | CallOAuthCallback "(string \<times> string) list" "ip_addr option" string string string
  | CallNotes auth_user note_call

text \<open>The handler of a call; of the answer only whether it is one.\<close>

definition answered :: "('w, 'e + 'a) prog \<Rightarrow> ('w, bool) prog" where
  "answered p = map_result (\<lambda>r. case r of Inl _ \<Rightarrow> False | Inr _ \<Rightarrow> True) p"

definition serve_call ::
  "('r, 'd, 'o) env \<Rightarrow> 'o auth_state \<Rightarrow> app_state \<Rightarrow> server_call \<Rightarrow> (('r, 'd, 'o) world, bool) prog" where
  "serve_call E A app call = (case call of
       CallRegister hs peer b \<Rightarrow> answered (register E A hs peer b)
     | CallLogin hs peer b \<Rightarrow> answered (login E A hs peer b)
     | CallLogout u b \<Rightarrow> answered (logout E A u b)
     | CallDeleteAccount u \<Rightarrow> answered (delete_account E A u)
     | CallForgot hs peer mail \<Rightarrow> answered (forgot_password E A hs peer mail)
     | CallReset token password \<Rightarrow> answered (reset_password E token password)
     | CallRefresh hs b \<Rightarrow> answered (refresh E A hs b)
     | CallOAuthRedirect hs name \<Rightarrow> answered (oauth_redirect E A hs name)
     | CallOAuthCallback hs peer name code_text state_text \<Rightarrow> answered (oauth_callback E A hs peer name code_text state_text)
     | CallNotes u call \<Rightarrow> answered (serve_note E app u call))"

section \<open>Consistent tables\<close>

text \<open>What the code checks before it writes an account or a note.\<close>

definition account_ok :: "user_row \<Rightarrow> bool" where
  "account_ok u \<longleftrightarrow> (u_provider u = ''local'' \<longrightarrow>
     u_email u \<noteq> [] \<and> CHR ''@'' \<in> set (u_email u) \<and> u_password_hash u \<noteq> None)"

definition note_ok :: "note_row \<Rightarrow> bool" where
  "note_ok n \<longleftrightarrow> trim (n_title n) \<noteq> [] \<and> length (n_title n) \<le> 255 \<and> length (n_body n) \<le> 100000"

definition tables_ok :: "canon \<Rightarrow> pg \<Rightarrow> bool" where
  "tables_ok canon p \<longleftrightarrow> pg_ok canon p \<and> (\<forall>u \<in> set (users p). account_ok u) \<and> (\<forall>n \<in> set (note_rows p). note_ok n)"

abbreviation (input) stays_ok :: "canon \<Rightarrow> pg \<Rightarrow> pg \<Rightarrow> bool" where
  "stays_ok canon p p' \<equiv> tables_ok canon p \<longrightarrow> tables_ok canon p'"

lemma stays_ok_reflp: "reflp (stays_ok canon)"
  by (simp add: reflp_def)

text \<open>A cast of a canonical text gives that text.\<close>

definition canon_ok :: "canon \<Rightarrow> bool" where
  "canon_ok canon \<longleftrightarrow> (\<forall>i y. canon i = Some y \<longrightarrow> canon y = Some y)"

subsection \<open>One statement\<close>

lemma insert_user_ok:
  "insert_user_spec canon e n h p y p' \<Longrightarrow> e \<noteq> [] \<Longrightarrow> CHR ''@'' \<in> set e \<Longrightarrow> stays_ok canon p p'"
  by (auto simp: insert_user_spec_def tables_ok_def pg_ok_def account_ok_def)

lemma map_user_ok:
  assumes "\<And>u. u_id (f u) = u_id u" and "\<And>u. u_email (f u) = u_email u" and "\<And>u. account_ok u \<Longrightarrow> account_ok (f u)"
  shows "stays_ok canon p (p\<lparr>users := map f (users p)\<rparr>)"
  using assms(3) by (auto simp: tables_ok_def pg_ok_def comp_def assms(1,2) image_image)

lemma map_note_ok:
  assumes "\<And>n. n_id (f n) = n_id n" and "\<And>n. n_user_id (f n) = n_user_id n" and "\<And>n. note_ok n \<Longrightarrow> note_ok (f n)"
  shows "stays_ok canon p (p\<lparr>note_rows := map f (note_rows p)\<rparr>)"
  using assms(3) by (auto simp: tables_ok_def pg_ok_def comp_def assms(1,2))

lemma upsert_user_ok:
  assumes "upsert_user_spec canon i e n prov p y p'" and "prov \<noteq> ''local''" and "canon_ok canon"
  shows "stays_ok canon p p'"
proof (cases "find (\<lambda>u. u_email u = e) (users p)")
  case None
  then have "e \<notin> u_email ` set (users p)" by (auto simp: find_None_iff)
  with None assms show ?thesis
    by (auto simp: upsert_user_spec_def tables_ok_def pg_ok_def account_ok_def canon_ok_def)
next
  case (Some u)
  with assms(1) have p': "p' = p\<lparr>users := map (\<lambda>v. if u_email v = e then v\<lparr>u_name := n\<rparr> else v) (users p)\<rparr>"
    by (simp add: upsert_user_spec_def)
  show ?thesis unfolding p' by (rule map_user_ok) (auto simp: account_ok_def)
qed

lemma update_password_ok: "update_password_spec canon h i p y p' \<Longrightarrow> stays_ok canon p p'"
  unfolding update_password_spec_def
  by (elim conjE) (simp only:, rule map_user_ok, auto simp: account_ok_def)

lemma filter_notes_ok: "stays_ok canon p (p\<lparr>note_rows := filter P (note_rows p)\<rparr>)"
  by (auto simp: tables_ok_def pg_ok_def distinct_map_filter)

lemma delete_notes_ok:
  "delete_notes_of_spec canon i p y p' \<Longrightarrow> stays_ok canon p p'"
  "delete_note_spec canon i u p y p' \<Longrightarrow> stays_ok canon p p'"
  unfolding delete_notes_of_spec_def delete_note_spec_def by (metis filter_notes_ok)+

lemma delete_user_ok: "delete_user_spec canon i p y p' \<Longrightarrow> stays_ok canon p p'"
  by (auto simp: delete_user_spec_def tables_ok_def pg_ok_def distinct_map_filter image_iff) metis

lemma insert_note_ok:
  "insert_note_spec canon u t b p y p' \<Longrightarrow> trim t \<noteq> [] \<Longrightarrow> length t \<le> 255 \<Longrightarrow> length b \<le> 100000 \<Longrightarrow> stays_ok canon p p'"
  by (auto simp: insert_note_spec_def tables_ok_def pg_ok_def note_ok_def)

lemma update_note_ok:
  assumes "update_note_spec canon t b i u p y p'" and "trim t \<noteq> []" "length t \<le> 255" "length b \<le> 100000"
  shows "stays_ok canon p p'"
proof -
  obtain now where p': "p' = p\<lparr>note_rows := map (\<lambda>n. if owned canon i u n
      then n\<lparr>n_title := t, n_body := b, n_updated_at := now\<rparr> else n) (note_rows p)\<rparr>"
    using assms(1) by (auto simp: update_note_spec_def Let_def)
  show ?thesis unfolding p' by (rule map_note_ok) (use assms(2-4) in \<open>auto simp: note_ok_def\<close>)
qed

section \<open>One handler\<close>

text \<open>A check whose result the rest of the handler can rely on.\<close>

lemma changes_check:
  "(\<And>a. r = Inr a \<Longrightarrow> changes f T (h a)) \<Longrightarrow> changes f T (attempt (Ret r) h)"
  by (cases r) (simp_all add: changes_Ret)

context postgres_service
begin

lemma db_stays_ok:
  assumes "e_db E = D" and "runs_as pg_of sp (q D)" and "\<And>p y p'. sp p y p' \<Longrightarrow> stays_ok canon p p'"
  shows "changes pg_of (stays_ok canon) (db_act E q)"
  by (rule changes_db_act, rule assms(1), rule assms(2), rule stays_ok_reflp, erule assms(3))

lemma reads_stay_ok:
  assumes "e_db E = D"
  shows "changes pg_of (stays_ok canon) (db_act E (\<lambda>D. q_user_id_by_email D e))"
    and "changes pg_of (stays_ok canon) (db_act E (\<lambda>D. q_user_by_email D e))"
    and "changes pg_of (stays_ok canon) (db_act E (\<lambda>D. q_user_by_id D i))"
    and "changes pg_of (stays_ok canon) (db_act E (\<lambda>D. q_notes D i cur lim))"
    and "changes pg_of (stays_ok canon) (db_act E (\<lambda>D. q_note D i u))"
  by (rule db_stays_ok [OF assms], rule user_id_by_email user_by_email user_by_id notes_page note_by_id,
      simp add: user_id_by_email_spec_def user_by_email_spec_def user_by_id_spec_def notes_spec_def note_spec_def)+

lemma writes_stay_ok:
  assumes "e_db E = D"
  shows "changes pg_of (stays_ok canon) (db_act E (\<lambda>D. q_update_password D h i))"
    and "changes pg_of (stays_ok canon) (db_act E (\<lambda>D. q_delete_notes_of D i))"
    and "changes pg_of (stays_ok canon) (db_act E (\<lambda>D. q_delete_user D i))"
    and "changes pg_of (stays_ok canon) (db_act E (\<lambda>D. q_delete_note D i u))"
    and "e \<noteq> [] \<Longrightarrow> CHR ''@'' \<in> set e \<Longrightarrow> changes pg_of (stays_ok canon) (db_act E (\<lambda>D. q_insert_user D e n h))"
    and "prov \<noteq> ''local'' \<Longrightarrow> canon_ok canon \<Longrightarrow> changes pg_of (stays_ok canon) (db_act E (\<lambda>D. q_upsert_user D i e n prov))"
  by (rule db_stays_ok [OF assms], rule update_password delete_notes_of delete_user delete_note insert_user upsert_user,
      erule update_password_ok delete_notes_ok delete_user_ok insert_user_ok upsert_user_ok; assumption)+

lemma notes_stay_ok:
  assumes "e_db E = D" and "trim t \<noteq> []" "length t \<le> 255" "length b \<le> 100000"
  shows "changes pg_of (stays_ok canon) (db_act E (\<lambda>D. q_insert_note D u t b))"
    and "changes pg_of (stays_ok canon) (db_act E (\<lambda>D. q_update_note D t b i u))"
  by (rule db_stays_ok [OF assms(1)], rule insert_note update_note, erule insert_note_ok update_note_ok; rule assms)+

lemma keep_ok: "keeps db p \<Longrightarrow> changes pg_of (stays_ok canon) p"
  by (rule changes_keeps [OF stays_ok_reflp])

lemma account_calls_stay_ok:
  assumes "e_db E = D"
  shows "changes pg_of (stays_ok canon) (register E A hs peer b)"
    and "changes pg_of (stays_ok canon) (login E A hs peer lb)"
    and "changes pg_of (stays_ok canon) (logout E A u rt)"
    and "changes pg_of (stays_ok canon) (delete_account E A u)"
    and "changes pg_of (stays_ok canon) (forgot_password E A hs peer mail)"
    and "changes pg_of (stays_ok canon) (reset_password E token password)"
    and "changes pg_of (stays_ok canon) (refresh E A hs rt)"
    and "changes pg_of (stays_ok canon) (oauth_redirect E A hs pname)"
proof -
  have email: "rr_email b \<noteq> []" "CHR ''@'' \<in> set (rr_email b)" if "validate_registration b = Inr x" for x
    using that by (auto simp: validate_registration_def split: if_splits)
  show "changes pg_of (stays_ok canon) (register E A hs peer b)"
    unfolding register_def Let_def
    by (intro changes_check changing reads_stay_ok [OF assms] writes_stay_ok [OF assms] email; (assumption | (rule keep_ok, (intro frame; simp))))
  show "changes pg_of (stays_ok canon) (login E A hs peer lb)"
    unfolding login_def Let_def
    by (intro changes_check changing reads_stay_ok [OF assms]; (rule keep_ok, (intro frame keeps_Ret; simp)))
  show "changes pg_of (stays_ok canon) (logout E A u rt)"
    unfolding logout_def Let_def
    by (intro changes_check changing; (rule keep_ok, (intro frame; simp)))
  show "changes pg_of (stays_ok canon) (delete_account E A u)"
    unfolding delete_account_def
    by (intro changes_check changing writes_stay_ok [OF assms]; (rule keep_ok, (intro frame; simp)))
  show "changes pg_of (stays_ok canon) (forgot_password E A hs peer mail)"
    unfolding forgot_password_def Let_def
    by (intro changes_check changing reads_stay_ok [OF assms]; (rule keep_ok, (intro frame; simp)))
  show "changes pg_of (stays_ok canon) (reset_password E token password)"
    unfolding reset_password_def
    by (intro changes_check changing writes_stay_ok [OF assms]; (rule keep_ok, (intro frame; simp)))
  show "changes pg_of (stays_ok canon) (refresh E A hs rt)"
    unfolding refresh_def Let_def
    by (intro changes_check changing reads_stay_ok [OF assms]; (rule keep_ok, (intro frame; simp)))
  show "changes pg_of (stays_ok canon) (oauth_redirect E A hs pname)"
    unfolding oauth_redirect_def Let_def
    by (intro changes_check changing; (rule keep_ok, (intro frame exchange_code_keeps; simp)))
qed

lemma oauth_stays_ok:
  assumes "e_db E = D" and "canon_ok canon"
  shows "changes pg_of (stays_ok canon) (oauth_callback E A hs peer pname code_text state_text)"
proof -
  have prov: "provider_text pr \<noteq> ''local''" for pr by (cases pr) simp_all
  have fin: "changes pg_of (stays_ok canon) (oauth_finish E A hs pr code_text stored)" for pr stored
    unfolding oauth_finish_def Let_def
    by (intro changes_check changing writes_stay_ok(6) [OF assms(1) prov assms(2)];
        (rule keep_ok, (intro frame exchange_code_keeps; simp)))
  show ?thesis
    unfolding oauth_callback_def Let_def
    by (intro changes_check changing fin; (rule keep_ok, (intro frame; simp)))
qed

lemma notes_calls_stay_ok:
  assumes "e_db E = D"
  shows "changes pg_of (stays_ok canon) (serve_note E app u call)"
proof -
  have ok: "trim (in_title input) \<noteq> []" "length (in_title input) \<le> 255" "length (in_body input) \<le> 100000"
    if "validate_note input = Inr x" for x input
    using that by (auto simp: validate_note_def split: if_splits)
  show ?thesis
    unfolding serve_note_def map_ok_def list_notes_def create_note_def get_note_def update_note_def delete_note_def Let_def
    by (cases call; simp only: note_call.case;
        intro changes_check changing reads_stay_ok [OF assms] writes_stay_ok [OF assms] notes_stay_ok [OF assms] ok; assumption)
qed

lemma serve_call_stays_ok:
  assumes "e_db E = D" and "canon_ok canon"
  shows "changes pg_of (stays_ok canon) (serve_call E A app call)"
  by (cases call; simp only: serve_call_def server_call.case answered_def;
      intro changes_map account_calls_stay_ok oauth_stays_ok notes_calls_stay_ok assms)

end

text \<open>
  C18. Whatever requests the server has in flight and however their steps interleave, also with those of
  requests that fail midway, the tables stay consistent: addresses and identifiers are unique, every note
  belongs to an account, every local account has an address with an at sign and a password hash,
  and every note has a title that is not blank and a title and body within their limits.
\<close>

theorem tables_stay_consistent:
  assumes "postgres_service (e_db E) pg_of canon" and "canon_ok canon"
    and "pool_reaches F (w, map (serve_call E A app) calls) (w', ps')"
    and "\<And>w w'. F w w' \<Longrightarrow> pg_of (db w') = pg_of (db w)" and "tables_ok canon (pg_of (db w))"
  shows "tables_ok canon (pg_of (db w'))"
proof -
  let ?T = "\<lambda>w w'. stays_ok canon (pg_of (db w)) (pg_of (db w'))"
  have "?T w w' \<and> (\<forall>p \<in> set ps'. steps ?T (\<lambda>_. True) p)"
  proof (rule pool_steps [OF assms(3)])
    show "steps ?T (\<lambda>_. True) p" if "p \<in> set (map (serve_call E A app) calls)" for p
      using that postgres_service.serve_call_stays_ok [OF assms(1) refl assms(2)] by auto
  qed (use assms(4) in \<open>auto simp: reflp_def transp_def\<close>)
  with assms(5) show ?thesis by simp
qed

definition write_note :: server_call where
  "write_note = CallNotes user_ann (CreateNote \<lparr>in_title = ''a'', in_body = ''x''\<rparr>)"

theorem tables_stay_consistent_witness:
  "\<exists>w'. run (serve_call (ref_env 0 Map.empty) demo_state demo_app write_note) ann_world = (True, w') \<and>
     note_rows (db w') \<noteq> [] \<and> tables_ok Some (db w')"
proof -
  let ?E = "ref_env 0 Map.empty"
  have t: "trim ''a'' = ''a''" by code_simp
  have "\<exists>w'. run (serve_call ?E demo_state demo_app write_note) ann_world = (True, w') \<and> note_rows (db w') \<noteq> []"
    by (simp add: serve_call_def write_note_def answered_def serve_note_def run_map_ok create_note_def db_pool_def
        demo_app_def validate_note_def t eval_defs ann_world_def ann_row_def user_ann_def ref_insert_note_def
        ref_db_def Let_def)
  then obtain w' where r: "run (serve_call ?E demo_state demo_app write_note) ann_world = (True, w')"
    and n: "note_rows (db w') \<noteq> []" by blast
  have reach: "pool_reaches (\<lambda>_ _. False) (ann_world, map (serve_call ?E demo_state demo_app) [write_note]) (w', [Ret True])"
    using pool_run [OF r, of 0 "[serve_call ?E demo_state demo_app write_note]"] by simp
  have pg: "postgres_service (e_db ?E) (\<lambda>p. p) Some" by (simp add: ref_db.postgres_service_axioms)
  have "tables_ok Some (db w')"
    by (rule tables_stay_consistent [OF pg _ reach])
      (simp_all add: canon_ok_def tables_ok_def pg_ok_def account_ok_def ann_world_def ref_world_sel ann_row_def)
  with r n show ?thesis by blast
qed

end
