(* ===== verification/Store_Types.thy ===== *)
theory Store_Types
  imports Consistency
begin

text \<open>
  The types of the store's keys. Redis keys are untyped, and a command on a key of the wrong kind fails.
  Each namespace of the code holds one kind of value, and every handler of the server keeps it so.
\<close>

section \<open>Kinds of keys\<close>

datatype rkind = KStr | KSet | KZset

fun kind_of :: "rdata \<Rightarrow> rkind" where
  "kind_of (RStr v) = KStr"
| "kind_of (RSet xs) = KSet"
| "kind_of (RZset z) = KZset"

text \<open>The namespace of a key of this server, by the layout of \<open>make_key\<close>.\<close>

definition namespace_of :: "('r, 'd, 'o) env \<Rightarrow> string \<Rightarrow> string option" where
  "namespace_of E k =
     map_option (takeWhile (\<lambda>c. c \<noteq> CHR '':'')) (strip_prefix (e_prefix E @ '':'') k)"

definition kind_in :: "string \<Rightarrow> rkind" where
  "kind_in ns = (if ns = ''user_sessions'' then KSet else if ns = ''ratelimit'' then KZset else KStr)"

text \<open>Keys that are not the server's may hold anything.\<close>

definition fits :: "('r, 'd, 'o) env \<Rightarrow> string \<Rightarrow> rkind \<Rightarrow> bool" where
  "fits E k kd \<longleftrightarrow> (case namespace_of E k of None \<Rightarrow> True | Some ns \<Rightarrow> kd = kind_in ns)"

definition typed_store :: "('r, 'd, 'o) env \<Rightarrow> rdb \<Rightarrow> bool" where
  "typed_store E d \<longleftrightarrow> (\<forall>k v e. keys d k = Some (v, e) \<longrightarrow> fits E k (kind_of v))"

lemma namespace_of_key [simp]: "CHR '':'' \<notin> set ns \<Longrightarrow> namespace_of E (make_key E ns k @ r) = Some ns"
proof -
  have "make_key E ns k @ r = (e_prefix E @ '':'') @ ns @ '':'' @ k @ r" by (simp add: make_key_def)
  then have "namespace_of E (make_key E ns k @ r) = Some (takeWhile (\<lambda>c. c \<noteq> CHR '':'') (ns @ '':'' @ k @ r))"
    unfolding namespace_of_def by (simp only: strip_prefix_append option.map)
  also assume "CHR '':'' \<notin> set ns"
  then have "takeWhile (\<lambda>c. c \<noteq> CHR '':'') (ns @ '':'' @ k @ r) = ns"
    by (subst takeWhile_append2) auto
  finally show ?thesis .
qed

lemma fits_key: "CHR '':'' \<notin> set ns \<Longrightarrow> fits E (make_key E ns k @ r) kd \<longleftrightarrow> kd = kind_in ns"
  by (simp add: fits_def)

lemma fits_make_key: "CHR '':'' \<notin> set ns \<Longrightarrow> fits E (make_key E ns k) kd \<longleftrightarrow> kd = kind_in ns"
  using fits_key [where r = "[]"] by simp

lemma typed_storeD: "typed_store E d \<Longrightarrow> keys d k = Some (v, e) \<Longrightarrow> fits E k (kind_of v)"
  by (simp add: typed_store_def)

lemma typed_elapse: "typed_store E d \<Longrightarrow> typed_store E (elapse dt d)"
  unfolding typed_store_def by (metis elapse_mono)

section \<open>Commands\<close>

text \<open>A command that keeps the store typed.\<close>

definition well_typed :: "('r, 'd, 'o) env \<Rightarrow> (rdb, 'a) cmd \<Rightarrow> bool" where
  "well_typed E c \<longleftrightarrow> (\<forall>d. typed_store E d \<longrightarrow> typed_store E (snd (c d)))"

named_theorems typing "commands and handlers that keep the store typed"

lemma well_typed_run: "well_typed E c \<Longrightarrow> c d = (x, d') \<Longrightarrow> typed_store E d \<Longrightarrow> typed_store E d'"
  by (metis snd_conv well_typed_def)

lemma well_typed_cret [typing]: "well_typed E (cret x)"
  by (simp add: well_typed_def cret_def)

lemma well_typed_fail [typing]: "well_typed E (\<lambda>d. (Inl e, d))" "well_typed E (\<lambda>d. (Inr a, d))"
  by (simp_all add: well_typed_def)

lemma well_typed_cbind [typing]: "well_typed E c \<Longrightarrow> (\<And>x. well_typed E (h x)) \<Longrightarrow> well_typed E (cbind c h)"
  by (fastforce simp: well_typed_def cbind_def split: sum.splits prod.splits dest: spec)

lemma well_typed_cases [typing]:
  "(\<And>x. well_typed E (h x)) \<Longrightarrow> well_typed E c \<Longrightarrow> well_typed E (case o1 of None \<Rightarrow> c | Some x \<Rightarrow> h x)"
  "well_typed E c \<Longrightarrow> well_typed E c' \<Longrightarrow> well_typed E (if b then c else c')"
  "(\<And>c d. well_typed E (m c d)) \<Longrightarrow> well_typed E (case pr of (c, d) \<Rightarrow> m c d)"
  "(\<And>e. well_typed E (g e)) \<Longrightarrow> (\<And>a. well_typed E (k a)) \<Longrightarrow> well_typed E (case s of Inl e \<Rightarrow> g e | Inr a \<Rightarrow> k a)"
  by (simp_all split: option.split prod.split sum.split)

text \<open>Commands that read, delete, or only move an expiry can run on any key.\<close>

lemma well_typed_any [typing]:
  "well_typed E (ref_get k)" "well_typed E (ref_ttl k)" "well_typed E (ref_zcard k)" "well_typed E (ref_zfirst k)"
  "well_typed E (ref_smembers k)" "well_typed E (ref_del ks)" "well_typed E (ref_getdel k)" "well_typed E (ref_expire k s)"
  by (auto simp: well_typed_def typed_store_def ref_get_def ref_ttl_def ref_zcard_def ref_zfirst_def ref_smembers_def
      ref_del_def ref_getdel_def ref_expire_def split: option.splits rdata.splits sum.splits if_splits)

lemma well_typed_strings [typing]:
  "fits E k KStr \<Longrightarrow> well_typed E (ref_set_ex k v s)" "fits E k KStr \<Longrightarrow> well_typed E (ref_incr k)"
  by (auto simp: well_typed_def typed_store_def ref_set_ex_def ref_incr_def
      split: option.splits rdata.splits sum.splits if_splits)

lemma well_typed_sets [typing]:
  "fits E k KSet \<Longrightarrow> well_typed E (ref_sadd k m)" "fits E k KSet \<Longrightarrow> well_typed E (ref_srem k m)"
  by (auto simp: well_typed_def typed_store_def ref_sadd_def ref_srem_def put_set_def
      split: option.splits rdata.splits sum.splits if_splits)

lemma well_typed_zsets [typing]:
  "fits E k KZset \<Longrightarrow> well_typed E (ref_zadd k n m)" "fits E k KZset \<Longrightarrow> well_typed E (ref_zremrangebyscore k mx)"
  by (auto simp: well_typed_def typed_store_def ref_zadd_def ref_zremrangebyscore_def put_zset_def
      split: option.splits rdata.splits sum.splits if_splits)

lemma well_typed_rename [typing]:
  assumes "\<And>kd. fits E a kd \<Longrightarrow> fits E b kd"
  shows "well_typed E (ref_rename a b)"
  using assms by (auto simp: well_typed_def typed_store_def ref_rename_def split: option.splits if_splits)

section \<open>Handlers\<close>

abbreviation keeps_types ::
  "('r, 'd, 'o) env \<Rightarrow> ('r \<Rightarrow> rdb) \<Rightarrow> (('r, 'd, 'o) world, 'a) prog \<Rightarrow> bool" where
  "keeps_types E f \<equiv> steps (\<lambda>w w'. typed_store E (rdb_of f w) \<longrightarrow> typed_store E (rdb_of f w')) (\<lambda>_. True)"

lemma keeps_types_keeps: "keeps redis p \<Longrightarrow> keeps_types E f p"
  by (erule steps_mono) (simp_all add: rdb_of_def)

lemma keeps_types_rules [typing]:
  "keeps_types E f (Ret a)"
  "keeps_types E f p \<Longrightarrow> (\<And>a. keeps_types E f (h a)) \<Longrightarrow> keeps_types E f (bind p h)"
  "keeps_types E f p' \<Longrightarrow> (\<And>a. keeps_types E f (h' a)) \<Longrightarrow> keeps_types E f (attempt p' h')"
  "keeps_types E f p \<Longrightarrow> keeps_types E f (map_result g p)"
  "keeps_types E f p' \<Longrightarrow> keeps_types E f (lift_err g' p')"
  by (auto intro: steps_map_result simp: lift_err_def)

lemma keeps_types_cases [typing]:
  "(\<And>x. keeps_types E f (h x)) \<Longrightarrow> keeps_types E f c \<Longrightarrow> keeps_types E f (case o1 of None \<Rightarrow> c | Some x \<Rightarrow> h x)"
  "keeps_types E f c \<Longrightarrow> keeps_types E f c' \<Longrightarrow> keeps_types E f (if b then c else c')"
  "(\<And>c d. keeps_types E f (m c d)) \<Longrightarrow> keeps_types E f (case pr of (c, d) \<Rightarrow> m c d)"
  "(\<And>e. keeps_types E f (g e)) \<Longrightarrow> (\<And>a. keeps_types E f (k a)) \<Longrightarrow> keeps_types E f (case s of Inl e \<Rightarrow> g e | Inr a \<Rightarrow> k a)"
  by (simp_all split: option.split prod.split sum.split)

lemma keeps_types_join [typing]:
  assumes "keeps_types E f p" and "keeps_types E f q"
  shows "keeps_types E f (join_all2 E' p q)"
proof -
  have "steps (\<lambda>w w'. typed_store E (rdb_of f w) \<longrightarrow> typed_store E (rdb_of f w')) (\<lambda>x. True \<and> True)
      (join2 (os_pick_world E') p q)"
    by (rule steps_join2 [OF _ _ assms]) (auto simp: os_pick_world_def transp_def split: prod.split)
  then show ?thesis by (simp add: join_all2_def)
qed

text \<open>Everything that is not a command of Redis.\<close>

lemma keeps_redis_local [frame]:
  "keeps redis (session_cache_get E sid)" "keeps redis (session_cache_put E sid s)"
  "keeps redis (session_cache_remove sid)" "keeps redis (session_cache_retain P)"
  unfolding session_cache_get_def session_cache_put_def session_cache_remove_def session_cache_retain_def
  by (rule keeps_act; simp split: prod.split option.split)+

context redis_env
begin

lemma keeps_types_act:
  assumes "simulates db_of c c'" and "well_typed E c'"
  shows "keeps_types E db_of (redis_act E c)"
  unfolding redis_act_def
proof (rule steps_act)
  fix w w' :: "('r, 'd, 'o) world" and x
  assume "(case redis_send (e_redis E) c (redis w) of (x, r) \<Rightarrow> (map_err CommandFailed x, w\<lparr>redis := r\<rparr>))
    = (x, w')"
  then have "run (redis_act E c) w = (x, w')" by (simp add: run_redis_act)
  then obtain y where "wire_step (rdb_of db_of w) c' y (rdb_of db_of w')"
    by (rule redis_act_run [OF assms(1)])
  then have "typed_store E (rdb_of db_of w) \<Longrightarrow> typed_store E (rdb_of db_of w')"
    by (rule wire_step_cases) (metis well_typed_run [OF assms(2)] typed_elapse)+
  then show "(typed_store E (rdb_of db_of w) \<longrightarrow> typed_store E (rdb_of db_of w')) \<and> True" by blast
qed

text \<open>The requests of the code, each with the kind its key must have.\<close>

lemma command_types [typing]:
  "keeps_types E db_of (redis_act E (r_get (e_redis E) k))"
  "keeps_types E db_of (redis_act E (r_del (e_redis E) ks))"
  "keeps_types E db_of (redis_act E (r_getdel (e_redis E) k))"
  "keeps_types E db_of (redis_act E (r_expire (e_redis E) k s))"
  "keeps_types E db_of (redis_act E (r_smembers (e_redis E) k))"
  "fits E k KStr \<Longrightarrow> keeps_types E db_of (redis_act E (r_set_ex (e_redis E) k v s))"
  by (rule keeps_types_act, rule get set_ex del getdel expire smembers, intro typing, assumption?)+

lemma rename_types [typing]:
  "(\<And>kd. fits E k kd \<Longrightarrow> fits E k' kd) \<Longrightarrow> keeps_types E db_of (redis_act E (r_rename (e_redis E) k k'))"
  by (rule keeps_types_act [OF rename], rule well_typed_rename)

lemma rotate_types [typing]: "keeps_types E db_of (redis_act E (rotate_script (e_redis E) k))"
  by (rule keeps_types_act [OF rotate_sim], unfold rotate_script_def ref_ops, intro typing)

lemma create_types [typing]:
  "fits E k KStr \<Longrightarrow> fits E uk KSet \<Longrightarrow> keeps_types E db_of (redis_act E (session_create_script (e_redis E) k uk j sid t))"
  by (rule keeps_types_act [OF create_sim], unfold session_create_script_def ref_ops, intro typing)

lemma destroy_types [typing]:
  "(\<And>uid. fits E (pre @ '':'' @ uid) KSet) \<Longrightarrow>
     keeps_types E db_of (redis_act E (session_destroy_script cj (e_redis E) k sid pre))"
  by (rule keeps_types_act [OF destroy_sim], unfold session_destroy_script_def ref_ops Let_def, intro typing)

lemma backoff_types [typing]:
  "fits E k KStr \<Longrightarrow> keeps_types E db_of (redis_act E (backoff_increment_script (e_redis E) k t1 t2 t3 t4))"
  "keeps_types E db_of (redis_act E (backoff_check_script (e_redis E) k))"
  by (rule keeps_types_act [OF increment_sim], unfold backoff_increment_script_def ref_ops Let_def, intro typing, assumption)
    (rule keeps_types_act [OF check_sim], unfold backoff_check_script_def ref_ops, intro typing)

lemma limiter_types:
  "fits E k KZset \<Longrightarrow> uint start \<le> 2 ^ 53 \<Longrightarrow> unat now \<le> 2 ^ 53 \<Longrightarrow>
     keeps_types E db_of (redis_act E (rate_limit_script (e_redis E) k start now mx m t))"
  by (rule keeps_types_act [OF rate_limit_script_sim], assumption, assumption,
      unfold rate_limit_script_def ref_ops, intro typing)

lemma cache_types [typing]:
  "keeps_types E db_of (cache_get E c ns k)"
  "keeps_types E db_of (cache_delete E ns k)"
  "keeps_types E db_of (cache_get_delete E c ns k)"
  "keeps_types E db_of (refresh_token_rotate E tok)"
  "CHR '':'' \<notin> set ns \<Longrightarrow> kind_in ns = KStr \<Longrightarrow> keeps_types E db_of (cache_set E c ns k v t)"
  unfolding cache_get_def cache_set_def cache_delete_def cache_get_delete_def refresh_token_rotate_def Let_def
  by (intro typing; simp add: fits_make_key)+

lemma session_types [typing]:
  "keeps_types E db_of (session_create E s t)"
  "keeps_types E db_of (session_get E sid)"
  "keeps_types E db_of (session_destroy E sid)"
  "keeps_types E db_of (session_destroy_all_for_user E uid)"
proof -
  note local_steps = keeps_redis_local [THEN keeps_types_keeps]
  have pre: "fits E ((e_prefix E @ '':user_sessions'') @ '':'' @ uid) kd \<longleftrightarrow> kd = KSet" for uid kd
    using fits_make_key [of "''user_sessions''" E uid kd] by (simp add: make_key_def kind_in_def)
  have os: "keeps_types E db_of (os_act E os_uuid)" by (rule keeps_types_keeps) (rule frame)
  show "keeps_types E db_of (session_create E s t)"
    unfolding session_create_def Let_def by (intro typing os; simp add: fits_make_key kind_in_def)
  show "keeps_types E db_of (session_get E sid)"
    unfolding session_get_def Let_def by (intro typing local_steps)
  show "keeps_types E db_of (session_destroy E sid)"
    unfolding session_destroy_def Let_def by (intro typing local_steps; simp only: pre)
  show "keeps_types E db_of (session_destroy_all_for_user E uid)"
    unfolding session_destroy_all_for_user_def Let_def
    by (intro typing local_steps; simp add: fits_make_key fits_key)
qed

lemma backoff_calls_types [typing]:
  "keeps_types E db_of (backoff_check E ip ep)" "keeps_types E db_of (backoff_increment E ip ep)"
  unfolding backoff_check_def backoff_increment_def Let_def
  by (intro typing; simp add: fits_make_key kind_in_def)+

text \<open>The scores of a limiter whose clock fits its window are exact.\<close>

lemma limiter_check_types [typing]:
  assumes "clock_fits E win"
  shows "keeps_types E db_of (rate_limit_check E k win mx)"
proof -
  let ?P = "\<lambda>now. uint (unix_epoch_ms now - as_millis win) \<le> 2 ^ 53 \<and> unat (unix_epoch_ms now) \<le> 2 ^ 53"
  have os: "keeps_types E db_of (os_act E os_uuid)" by (rule keeps_types_keeps) (rule frame)
  have now: "steps (\<lambda>w w'. typed_store E (rdb_of db_of w) \<longrightarrow> typed_store E (rdb_of db_of w')) ?P (os_act E os_now)"
    unfolding os_act_def
  proof (rule steps_act)
    fix w w' :: "('r, 'd, 'o) world" and now
    assume "(case os_now (e_os E) (outside w) of (x, o') \<Rightarrow> (x, w\<lparr>outside := o'\<rparr>)) = (now, w')"
    then obtain o' where o': "os_now (e_os E) (outside w) = (now, o')" and "w' = w\<lparr>outside := o'\<rparr>"
      by (auto split: prod.splits)
    with clock_fits_bounds [OF assms o'] show "(typed_store E (rdb_of db_of w) \<longrightarrow> typed_store E (rdb_of db_of w')) \<and> ?P now"
      by simp
  qed
  have limiter: "keeps_types E db_of (bind (os_act E os_uuid) (\<lambda>member_id.
        attempt (redis_act E (rate_limit_script (e_redis E) (make_key E ''ratelimit'' k)
            (unix_epoch_ms now - as_millis win) (unix_epoch_ms now) mx member_id (win + 60))) (\<lambda>result.
          Ret (Inr \<lparr>allowed = result ! 0 = 1, remaining = word_of_int (max (result ! 1) 0),
                    reset_at = word_of_int (result ! 2)\<rparr>))))" if "?P now" for now
    using that by (intro typing os limiter_types) (simp_all add: fits_make_key kind_in_def)
  show ?thesis
    unfolding rate_limit_check_def Let_def by (rule steps_bind [OF now limiter])
qed

lemma check_rate_limit_types [typing]:
  "clock_fits E win \<Longrightarrow> keeps_types E db_of (check_rate_limit E key win mx)"
  unfolding check_rate_limit_def
  by (intro typing keeps_types_keeps frame)

end

text \<open>Every window of a configuration fits the clock.\<close>

definition windows_fit :: "('r, 'd, 'o) env \<Rightarrow> rate_limit_config \<Rightarrow> bool" where
  "windows_fit E c \<longleftrightarrow> list_all (clock_fits E) [register_window_secs c, login_email_window_secs c,
     login_ip_window_secs c, forgot_window_secs c, oauth_callback_window_secs c]"

lemma windows_fitD:
  assumes "windows_fit E c"
  shows "clock_fits E (register_window_secs c)" "clock_fits E (login_email_window_secs c)"
    "clock_fits E (login_ip_window_secs c)" "clock_fits E (forgot_window_secs c)"
    "clock_fits E (oauth_callback_window_secs c)"
  using assms by (simp_all add: windows_fit_def)

text \<open>Steps of the handlers that are not requests to Redis.\<close>

lemma local_types [typing]:
  "keeps_types E f (os_act E g)" "keeps_types E f (db_act E q)"
  "keeps_types E f (create_token E J u m n p)" "keeps_types E f (set_auth_cookies E h a r s je re sec)"
  "keeps_types E f (hash_password E pw)"
  "keeps_types E f (exchange_code E W svc prov c)" "keeps_types E f (get_redirect_url E W svc prov u)"
  by (rule keeps_types_keeps, intro frame auth_core_frame exchange_code_keeps; simp)+

context redis_env
begin

lemma handler_parts_types [typing]:
  "keeps_types E db_of (issue_refresh_token E A uid)" "keeps_types E db_of (open_session E A uid m n p)"
  "keeps_types E db_of (login_failed E ip :: ('r, 'd, 'o, 'a) handler)"
  "keeps_types E db_of h \<Longrightarrow> keeps_types E db_of (spawn_blocking E msg h)"
  "windows_fit E (c_rate_limits (cfg A)) \<Longrightarrow> keeps_types E db_of (login_checks E A ip mail)"
  unfolding issue_refresh_token_def open_session_def login_failed_def spawn_blocking_def login_checks_def Let_def
  by (intro typing; (assumption | (drule windows_fitD; assumption) | simp add: kind_in_def split: cache_error.split))+

lemma account_types [typing]:
  assumes "windows_fit E (c_rate_limits (cfg A))"
  shows "keeps_types E db_of (register E A hs peer b)" and "keeps_types E db_of (login E A hs peer lb)"
    and "keeps_types E db_of (logout E A u rt)" and "keeps_types E db_of (delete_account E A u)"
    and "keeps_types E db_of (forgot_password E A hs peer mail)" and "keeps_types E db_of (reset_password E token password)"
    and "keeps_types E db_of (refresh E A hs rt)" and "keeps_types E db_of (oauth_redirect E A hs pname)"
    and "keeps_types E db_of (oauth_callback E A hs peer pname code_text state_text)"
  unfolding register_def login_def logout_def delete_account_def forgot_password_def reset_password_def
    refresh_def oauth_redirect_def oauth_callback_def oauth_finish_def Let_def
  by (intro typing windows_fitD [OF assms] assms; simp add: kind_in_def)+

lemma note_types [typing]: "keeps_types E db_of (serve_note E app u call)"
  unfolding serve_note_def map_ok_def list_notes_def create_note_def get_note_def update_note_def delete_note_def Let_def
  by (cases call; simp only: note_call.case; intro typing)

lemma serve_call_types: "windows_fit E (c_rate_limits (cfg A)) \<Longrightarrow> keeps_types E db_of (serve_call E A app call)"
  by (cases call; simp only: serve_call_def server_call.case answered_def; intro typing; assumption?)

end

text \<open>A read of a key of the right namespace is answered with a value.\<close>

definition reads_answered :: "('r, 'd, 'o) env \<Rightarrow> 'r \<Rightarrow> bool" where
  "reads_answered E r \<longleftrightarrow> (\<forall>ns k. CHR '':'' \<notin> set ns \<longrightarrow> (case kind_in ns of
       KStr \<Rightarrow> \<exists>v r'. r_get (e_redis E) (make_key E ns k) r = (Inr v, r')
     | KSet \<Rightarrow> \<exists>xs r'. r_smembers (e_redis E) (make_key E ns k) r = (Inr xs, r')
     | KZset \<Rightarrow> \<exists>n r'. r_zcard (e_redis E) (make_key E ns k) r = (Inr n, r')))"

lemma simulates_Inr: "simulates f c c' \<Longrightarrow> c' (f r) = (Inr a, d) \<Longrightarrow> \<exists>r'. c r = (Inr a, r')"
  by (cases "c r") (auto dest: simulatesD)

lemma ref_reads:
  "typed_store E d \<Longrightarrow> fits E k KStr \<and> \<not> fits E k KSet \<and> \<not> fits E k KZset \<Longrightarrow> \<exists>v. ref_get k d = (Inr v, d)"
  "typed_store E d \<Longrightarrow> fits E k KSet \<and> \<not> fits E k KStr \<and> \<not> fits E k KZset \<Longrightarrow> \<exists>v. ref_smembers k d = (Inr v, d)"
  "typed_store E d \<Longrightarrow> fits E k KZset \<and> \<not> fits E k KStr \<and> \<not> fits E k KSet \<Longrightarrow> \<exists>n. ref_zcard k d = (Inr n, d)"
  by (auto simp: typed_store_def ref_get_def ref_smembers_def ref_zcard_def set_of_def zset_of_def
      split: option.splits rdata.splits) (metis kind_of.simps)+

context redis_env
begin

lemma typed_reads:
  assumes "typed_store E (db_of r)"
  shows "reads_answered E r"
  unfolding reads_answered_def
proof (intro allI impI)
  fix ns k :: string
  assume ns: "CHR '':'' \<notin> set ns"
  note fits = fits_make_key [OF ns, of E k]
  show "case kind_in ns of
       KStr \<Rightarrow> \<exists>v r'. r_get (e_redis E) (make_key E ns k) r = (Inr v, r')
     | KSet \<Rightarrow> \<exists>xs r'. r_smembers (e_redis E) (make_key E ns k) r = (Inr xs, r')
     | KZset \<Rightarrow> \<exists>n r'. r_zcard (e_redis E) (make_key E ns k) r = (Inr n, r')"
    using ref_reads [OF assms, of "make_key E ns k"] fits
      simulates_Inr [OF get, of _ r] simulates_Inr [OF smembers, of _ r] simulates_Inr [OF zcard, of _ r]
    by (cases "kind_in ns"; simp) blast+
qed

end

text \<open>
  C19. Whatever requests the server has in flight and however their steps interleave, every key of
  the store holds the kind of value of its namespace: the session index holds sets, the limiter's
  windows sorted sets, everything else strings. So no read of the code fails on a value of the wrong type.
\<close>

theorem store_stays_typed:
  assumes "redis_env E db_of" and "windows_fit E (c_rate_limits (cfg A))"
    and "pool_reaches F (w, map (serve_call E A app) calls) (w', ps')"
    and "\<And>w w'. F w w' \<Longrightarrow> typed_store E (rdb_of db_of w) \<Longrightarrow> typed_store E (rdb_of db_of w')"
    and "typed_store E (rdb_of db_of w)"
  shows "typed_store E (rdb_of db_of w') \<and> reads_answered E (redis w')"
proof -
  let ?T = "\<lambda>w w'. typed_store E (rdb_of db_of w) \<longrightarrow> typed_store E (rdb_of db_of w')"
  have "?T w w' \<and> (\<forall>p \<in> set ps'. steps ?T (\<lambda>_. True) p)"
  proof (rule pool_steps [OF assms(3)])
    show "steps ?T (\<lambda>_. True) p" if "p \<in> set (map (serve_call E A app) calls)" for p
      using that redis_env.serve_call_types [OF assms(1,2)] by auto
  qed (use assms(4) in \<open>auto simp: reflp_def transp_def\<close>)
  with assms(5) have "typed_store E (rdb_of db_of w')" by simp
  with redis_env.typed_reads [OF assms(1), of "redis w'"] show ?thesis by (simp add: rdb_of_def)
qed

definition callback_call :: server_call where
  "callback_call = CallOAuthCallback [] None ''google'' ''code'' ''st''"

theorem store_stays_typed_witness:
  "\<exists>w'. run (serve_call still_env demo_state demo_app callback_call) state_world = (True, w')
     \<and> typed_store still_env (redis w') \<and> reads_answered still_env (redis w')"
proof -
  obtain x w' where l: "run demo_callback state_world = (Inr x, w')"
    using first_callback by blast
  then have r: "run (serve_call still_env demo_state demo_app callback_call) state_world = (True, w')"
    by (simp add: serve_call_def answered_def run_map_result callback_call_def demo_callback_def)
  have reach: "pool_reaches (\<lambda>_ _. False) (state_world, map (serve_call still_env demo_state demo_app) [callback_call])
      (w', [Ret True])"
    using pool_run [OF r, of 0 "[serve_call still_env demo_state demo_app callback_call]"] by simp
  have env: "redis_env still_env (\<lambda>d. d)"
    by (simp add: redis_env_def ref.redis_service_axioms)
  have "make_key still_env ''oauth_csrf'' ''st'' = ''app:oauth_csrf:st''" by (simp add: make_key_def)
  then have key: "fits still_env ''app:oauth_csrf:st'' KStr"
    using fits_make_key [of "''oauth_csrf''" still_env "''st''" KStr] by (simp add: kind_in_def)
  have "typed_store still_env (rdb_of (\<lambda>d. d) w') \<and> reads_answered still_env (redis w')"
    by (rule store_stays_typed [OF env _ reach])
      (simp_all add: windows_fit_def clock_fits_def demo_state_def auth_service_new_def demo_config_def
        rate_limit_config_default_def typed_store_def state_world_def ref_world_sel rdb_of_def key)
  with r show ?thesis by (auto simp: rdb_of_def)
qed

end
