(* ===== verification/Logout.thy ===== *)
theory Logout
  imports Auth_Flows
begin

text \<open>
  What logging out does: the token of the caller stops authenticating. A cookie caller has no token, and
  the code then blacklists the empty identifier, which every cookie caller has.
\<close>

section \<open>Sessions and the rest of the store\<close>





section \<open>Example\<close>











end
