(* ===== verification/Account_Ends.thy ===== *)
theory Account_Ends
  imports Logout
begin

text \<open>
  What resetting a password and deleting an account do to the tables and the store when they succeed.
\<close>

section \<open>Deleting an account\<close>

text \<open>The tables without an account: its row and its notes are gone, everything else is as it was.\<close>

definition without_account :: "canon \<Rightarrow> string \<Rightarrow> pg \<Rightarrow> pg" where
  "without_account canon uid p = p\<lparr>users := filter (\<lambda>u. Some (u_id u) \<noteq> canon uid) (users p),
     note_rows := filter (\<lambda>n. Some (n_user_id n) \<noteq> canon uid) (note_rows p)\<rparr>"

context postgres_service
begin

lemma delete_account_run:
  assumes E: "e_db E = D" and run: "run (delete_account E A u) w = (Inr st, w')"
  shows "st = 204" and "\<exists>r \<in> set (users (pg_of (db w))). Some (u_id r) = canon (au_user_id u)"
    and "pg_of (db w') = without_account canon (au_user_id u) (pg_of (db w))"
proof -
  let ?uid = "au_user_id u"
  let ?destroy = "case au_session_id u of Some sid \<Rightarrow> map_result (\<lambda>_. ()) (session_destroy E sid) | None \<Rightarrow> Ret ()"
  obtain w1 w2 w3 x n where
    b: "run (cache_set E (bool_codec (e_lib E)) ''blacklist'' (au_jti u) True (c_jwt_expiry (cfg A))) w = (Inr (), w1)"
    and s: "run ?destroy w1 = ((), w2)"
    and dn: "run (db_act E (\<lambda>D. q_delete_notes_of D ?uid)) w2 = (Inr x, w3)"
    and du: "run (db_act E (\<lambda>D. q_delete_user D ?uid)) w3 = (Inr n, w')"
    and n: "n \<noteq> 0" and st: "st = 204"
    using run unfolding delete_account_def
    by (auto elim!: attempt_InrE bindE split: if_splits)
  have "keeps db ?destroy" by (auto intro!: keeps_map_result frame split: option.split)
  then have same: "db w2 = db w"
    using keepsD [OF cache_frame(4) b] keepsD [OF _ s] by simp
  note 1 = db_act_Inr [OF E delete_notes_of dn, unfolded delete_notes_of_spec_def same]
  note 2 = db_act_Inr [OF E delete_user du, unfolded delete_user_spec_def]
  show "st = 204" by (rule st)
  show "pg_of (db w') = without_account canon ?uid (pg_of (db w))"
    using 1 2 by (auto simp: without_account_def filter_filter conj_commute intro!: filter_cong)
  show "\<exists>r \<in> set (users (pg_of (db w))). Some (u_id r) = canon ?uid"
    using 1 2 n by (auto simp: filter_empty_conv)
qed

end

text \<open>
  C16. A deletion that succeeds found the account, and afterwards the account and all its notes are
  gone from the tables, while every other account and note is as it was.
\<close>

theorem delete_account_erases:
  assumes "postgres_service (e_db E) pg_of canon" and "run (delete_account E A u) w = (Inr st, w')"
  shows "st = 204 \<and> (\<exists>r \<in> set (users (pg_of (db w))). Some (u_id r) = canon (au_user_id u)) \<and>
    pg_of (db w') = without_account canon (au_user_id u) (pg_of (db w))"
  using postgres_service.delete_account_run [OF assms(1) refl assms(2)] by blast

section \<open>Resetting a password\<close>

text \<open>The tables with a new password hash for the local account of an identifier.\<close>

definition with_password :: "canon \<Rightarrow> string \<Rightarrow> string \<Rightarrow> pg \<Rightarrow> pg" where
  "with_password canon uid h p =
     p\<lparr>users := map (\<lambda>u. if resettable canon uid u then u\<lparr>u_password_hash := Some h\<rparr> else u) (users p)\<rparr>"

lemma inert_destroy_all_keys:
  "k \<noteq> a \<Longrightarrow> k \<noteq> b \<Longrightarrow> inert k (ref_rename a b)"
  by (auto simp: inert_def ref_rename_def split: option.split)

context redis_env
begin

lemma destroy_all_spares:
  assumes "\<And>r. k \<noteq> make_key E ''user_sessions'' r" and "\<And>sid. k \<noteq> make_key E ''session'' sid"
  shows "spares db_of k (session_destroy_all_for_user E uid)"
proof -
  have t: "k \<noteq> make_key E ''user_sessions'' uid @ '':destroying''"
    using assms(1) [of "uid @ '':destroying''"] by (simp add: make_key_def)
  have 1: "spares db_of k (redis_act E (r_rename (e_redis E) (make_key E ''user_sessions'' uid)
      (make_key E ''user_sessions'' uid @ '':destroying'')))"
    by (rule spares_redis_act [OF rename]) (rule inert_destroy_all_keys [OF assms(1) t])
  have 2: "spares db_of k (redis_act E (r_smembers (e_redis E) x))" for x
    by (rule spares_redis_act [OF smembers]) (rule inert_reads)
  have 3: "spares db_of k (redis_act E (r_del (e_redis E) [make_key E ''user_sessions'' uid @ '':destroying'']))"
    by (rule spares_redis_act [OF del]) (rule inert_writes(9), simp add: t)
  have 4: "spares db_of k (redis_act E (r_del (e_redis E) (map (make_key E ''session'') xs)))" for xs
    by (rule spares_redis_act [OF del]) (rule inert_writes(9), use assms(2) in auto)
  show ?thesis
    unfolding session_destroy_all_for_user_def Let_def
    by (auto intro!: sparing 1 2 3 4 split: sum.split)
qed

text \<open>A deletion that is answered leaves nothing at its key.\<close>

lemma cache_delete_gone:
  assumes "run (cache_delete E ns k) w = (Inr (), w')"
  shows "keys (rdb_of db_of w') (make_key E ns k) = None"
proof -
  obtain dt where "ref_del [make_key E ns k] (elapse dt (rdb_of db_of w)) = (Inr (), rdb_of db_of w')"
    by (rule redis_act_Inr [OF del assms [unfolded cache_delete_def Let_def]])
  then have "rdb_of db_of w' = drop_keys [make_key E ns k] (elapse dt (rdb_of db_of w))" by (simp add: ref_del_def)
  then show ?thesis by simp
qed

lemma reset_password_run:
  assumes pg: "postgres_service (e_db E) pg_of canon" and run: "run (reset_password E token password) w = (Inr x, w')"
  obtains uid h s where "8 \<le> length password" and "length password \<le> 1024"
    and "fst (run (cache_get E (str_codec (e_lib E)) ''reset'' token) w) = Inr (Some uid)"
    and "fst (os_argon2 (e_os E) password s) = Inr h"
    and "\<exists>u \<in> set (users (pg_of (db w))). resettable canon uid u"
    and "pg_of (db w') = with_password canon uid h (pg_of (db w))"
    and "keys (rdb_of db_of w') (make_key E ''reset'' token) = None"
proof -
  obtain uid h n w1 w2 w3 w4 w5 where len: "8 \<le> length password" "length password \<le> 1024"
    and g: "run (cache_get E (str_codec (e_lib E)) ''reset'' token) w = (Inr (Some uid), w1)"
    and j: "run (os_act E os_join) w1 = (None, w2)" and h: "run (hash_password E password) w2 = (Inr h, w3)"
    and q: "run (db_act E (\<lambda>D. q_update_password D h uid)) w3 = (Inr n, w4)"
    and d: "run (cache_delete E ''reset'' token) w4 = (Inr (), w5)" and n: "n \<noteq> 0"
    and a: "run (session_destroy_all_for_user E uid) w5 = ((), w')"
    using run unfolding reset_password_def
    by (auto elim!: attempt_InrE bindE spawn_blocking_InrE simp: ok_or_def not_less split: if_splits option.splits)
  have same: "db w3 = db w" "db w5 = db w4" "db w' = db w5"
    using keepsD [OF cache_frame(1) g] keepsD [OF keeps_os_act j] hash_password_Inr [OF h]
      keepsD [OF cache_frame(7) d] keepsD [OF session_frame(7) a] by simp_all
  have "update_password_spec canon h uid (pg_of (db w3)) n (pg_of (db w4))"
    using postgres_service.db_act_Inr [OF pg refl postgres_service.update_password [OF pg] q] .
  then have "pg_of (db w') = with_password canon uid h (pg_of (db w))"
    and "\<exists>u \<in> set (users (pg_of (db w))). resettable canon uid u"
    using n same by (auto simp: update_password_spec_def with_password_def filter_empty_conv)
  moreover have "spares db_of (make_key E ''reset'' token) (session_destroy_all_for_user E uid)"
    by (rule destroy_all_spares) (simp_all add: make_key_inject)
  then have "aged db_of (make_key E ''reset'' token) w5 w'" using a by (rule spares_run)
  then have "keys (rdb_of db_of w') (make_key E ''reset'' token) = None"
    using cache_delete_gone [OF d] by (auto simp: aged_def dest: later_absent)
  ultimately show thesis
    using that [OF len, of uid "outside w2" h] g hash_password_Inr [OF h] by simp
qed

end

text \<open>
  C14. A password reset that succeeds was given a password of acceptable length and a token that was
  stored for the identifier of a local account; afterwards that account has the hash of the new password,
  no other row has changed, and the token is gone.
\<close>

theorem reset_password_takes_effect:
  assumes "redis_env E db_of" and "postgres_service (e_db E) pg_of canon"
    and "run (reset_password E token password) w = (Inr x, w')"
  shows "8 \<le> length password \<and> length password \<le> 1024 \<and>
    (\<exists>uid h s. fst (run (cache_get E (str_codec (e_lib E)) ''reset'' token) w) = Inr (Some uid) \<and>
       fst (os_argon2 (e_os E) password s) = Inr h \<and> (\<exists>u \<in> set (users (pg_of (db w))). resettable canon uid u) \<and>
       pg_of (db w') = with_password canon uid h (pg_of (db w))) \<and>
    keys (rdb_of db_of w') (make_key E ''reset'' token) = None"
  by (rule redis_env.reset_password_run [OF assms]) blast

section \<open>Examples\<close>

definition ann_caller :: auth_user where
  "ann_caller = \<lparr>au_user_id = u_id ann_row, au_email = ''a@x'', au_name = None, au_provider = ''local'',
     au_jti = ''j'', au_session_id = None\<rparr>"

theorem delete_account_erases_witness:
  "\<exists>w'. run (delete_account (ref_env 0 Map.empty) demo_state ann_caller) ann_world = (Inr 204, w')
     \<and> users (db w') = [] \<and> users (db ann_world) = [ann_row]"
proof -
  obtain w' where r: "run (delete_account (ref_env 0 Map.empty) demo_state ann_caller) ann_world = (Inr 204, w')"
    by (simp add: delete_account_def eval_defs ann_world_def ann_caller_def ann_row_def ref_bool_codec_def
        ref_db_def owned_def)
  have "postgres_service (e_db (ref_env 0 Map.empty)) (\<lambda>p. p) Some" by (simp add: ref_db.postgres_service_axioms)
  from delete_account_erases [OF this r] r show ?thesis
    by (simp add: ann_world_def ref_world_sel ref_sel ann_caller_def without_account_def)
qed

definition reset_world :: "(rdb, pg, osstate) world" where
  "reset_world = ann_world\<lparr>redis := put ''app:reset:t'' (RStr (CHR ''q'' # u_id ann_row), None) empty_rdb\<rparr>"

lemma ann_reset_run:
  "\<exists>x w'. run (reset_password (ref_env 0 Map.empty) ''t'' ''new password'') reset_world = (Inr x, w')"
  by (simp add: reset_password_def eval_defs ann_world_def ann_row_def reset_world_def hash_password_def
      ref_db_def resettable_def ref_rename_def)

theorem reset_password_takes_effect_witness:
  "\<exists>x w'. run (reset_password (ref_env 0 Map.empty) ''t'' ''new password'') reset_world = (Inr x, w')
     \<and> users (db w') = [ann_row\<lparr>u_password_hash := Some ''h:new password''\<rparr>]"
proof -
  let ?E = "ref_env 0 Map.empty"
  obtain x w' where r: "run (reset_password ?E ''t'' ''new password'') reset_world = (Inr x, w')"
    using ann_reset_run by blast
  have "postgres_service (e_db ?E) (\<lambda>p. p) Some" by (simp add: ref_db.postgres_service_axioms)
  from reset_password_takes_effect [OF ref_env.redis_env_axioms this r] r show ?thesis
    by (auto simp: reset_world_def ann_world_def ref_world_sel ref_sel with_password_def)
qed

end
