(* ===== verification/Credentials.thy ===== *)
theory Credentials
  imports Account_Ends
begin

text \<open>
  Registration, password reset and login together: which password an account accepts afterwards.
\<close>

section \<open>Handlers that do not blame the credentials\<close>

definition bad_credentials :: api_error where
  "bad_credentials = Unauthorized ''Invalid credentials''"

definition quiet :: "api_error + 'a \<Rightarrow> bool" where
  "quiet r \<longleftrightarrow> r \<noteq> Inl bad_credentials"

abbreviation hushed :: "('w, api_error + 'a) prog \<Rightarrow> bool" where
  "hushed \<equiv> steps (\<lambda>_ _. True) quiet"

lemma quiet_simps [simp]:
  "quiet (Inr a)" "quiet (Inl (InternalError m))" "quiet (Inl (ServiceUnavailable m))" "quiet (Inl (RateLimited m))"
  "quiet (Inl (api_error_of_cache e))"
  by (auto simp: quiet_def bad_credentials_def) (cases e; simp)

lemma steps_all: "(\<And>a. R a) \<Longrightarrow> steps (\<lambda>_ _. True) R p"
proof (induction p)
  case (Act f)
  show ?case
  proof (intro steps.Act conjI TrueI)
    fix w p' w' assume "f w = (p', w')"
    then have "p' \<in> Basic_BNFs.fsts (f w)" by simp
    then show "steps (\<lambda>_ _. True) R p'" by (rule Act.IH [OF rangeI]) (rule Act.prems)
  qed
qed (rule steps.Ret)

lemma hushed_Ret: "quiet r \<Longrightarrow> hushed (Ret r)"
  by (rule steps.Ret)

lemma hushed_attempt: "hushed p \<Longrightarrow> (\<And>a. hushed (k a)) \<Longrightarrow> hushed (attempt p k)"
  by (erule steps_attempt) (auto simp: quiet_def)

lemma hushed_bind: "(\<And>a. hushed (k a)) \<Longrightarrow> hushed (bind p k)"
  by (rule steps_bind [OF steps_all]) auto

lemma hushed_map_err: "(\<And>e. quiet (Inl (f e) :: api_error + 'a)) \<Longrightarrow> hushed (map_result (map_err f) (p :: ('w, 'e + 'a) prog))"
  by (intro steps_map_result steps_all) (auto simp: map_err_def split: sum.split)

lemma hushed_lift_err: "(\<And>e. quiet (Inl (f e) :: api_error + 'a)) \<Longrightarrow> hushed (lift_err f (p :: ('w, 'e + 'a) prog))"
  unfolding lift_err_def by (rule hushed_map_err)

lemma hushed_map_result: "(\<And>a. quiet (f a)) \<Longrightarrow> hushed (map_result f p)"
  by (intro steps_map_result steps_all)

lemmas hushing = hushed_attempt hushed_bind hushed_Ret hushed_lift_err hushed_map_result

lemma hushed_cases:
  "(\<And>c d. hushed (k c d)) \<Longrightarrow> hushed (case pr of (c, d) \<Rightarrow> k c d)"
  "hushed p \<Longrightarrow> hushed q \<Longrightarrow> hushed (if bb then p else q)"
  by (simp_all split: prod.split)

lemma quiet_set_cookie [simp]: "quiet (set_cookie L h name v age http secure)"
  by (simp add: set_cookie_def Let_def split: option.split)

lemma hushed_check_rate_limit: "hushed (check_rate_limit E key win mx)"
  unfolding check_rate_limit_def by (intro hushing hushed_cases) simp_all

lemma hushed_create_token: "hushed (create_token E J uid mail name prov)"
  unfolding create_token_def Let_def by (intro hushing) (simp add: map_err_def split: sum.split)

lemma hushed_issue_refresh_token: "hushed (issue_refresh_token E A uid)"
  unfolding issue_refresh_token_def Let_def by (intro hushing) (simp_all add: map_err_def split: sum.split)

lemma hushed_open_session: "hushed (open_session E A uid mail name prov)"
  unfolding open_session_def by (intro hushing hushed_cases) simp_all

lemma hushed_set_auth_cookies: "hushed (set_auth_cookies E h a r s je re sec)"
  unfolding set_auth_cookies_def Let_def generate_csrf_token_def
  by (intro hushing) (simp_all split: option.split sum.split)

lemma steps_join_all2:
  "steps (\<lambda>_ _. True) R p \<Longrightarrow> steps (\<lambda>_ _. True) S q \<Longrightarrow>
   steps (\<lambda>_ _. True) (\<lambda>x. R (fst x) \<and> S (snd x)) (join_all2 E p q)"
  unfolding join_all2_def by (rule steps_join2) (simp_all add: transp_def)

lemma hushed_login_checks: "hushed (login_checks E A ip mail)"
  unfolding login_checks_def Let_def
  by (rule steps_bind [OF steps_join_all2 [where R = "\<lambda>_. True", OF steps_all
        steps_join_all2 [OF hushed_check_rate_limit hushed_check_rate_limit]]])
    (auto intro!: hushing split: sum.split cache_error.split)

section \<open>Login with the right and with a wrong password\<close>

text \<open>The documented behaviour of Argon2: a hash it made matches the password it was made from, and no other.\<close>

definition argon2_ok :: "'o os_ops \<Rightarrow> lib \<Rightarrow> bool" where
  "argon2_ok OS L \<longleftrightarrow> (\<forall>p s h. fst (os_argon2 OS p s) = Inr h \<longrightarrow>
     argon2_parse L h = Inr () \<and> (\<forall>q. argon2_matches L q h \<longleftrightarrow> q = p))"

text \<open>The answer \<open>r\<close> to a login with the password \<open>q\<close> for the account \<open>u\<close> whose password is \<open>p\<close>.\<close>

definition login_answers :: "string \<Rightarrow> string \<Rightarrow> user_row \<Rightarrow> api_error + cookies \<times> token_response \<Rightarrow> bool" where
  "login_answers p q u r \<longleftrightarrow>
     (q = p \<longrightarrow> quiet r \<and> (\<forall>cks tr. r = Inr (cks, tr) \<longrightarrow> tr_user tr = info_of_row u)) \<and>
     (q \<noteq> p \<longrightarrow> (\<exists>e. r = Inl e))"

lemma hushed_login_tail:
  assumes "u_password_hash u = Some h" and "argon2_parse (e_lib E) h = Inr ()" and "argon2_matches (e_lib E) (lr_password b) h"
  shows "hushed (login_tail E A ip b (Some u))"
proof -
  have right: "verify_password (e_lib E) (lr_password b) h = Inr True"
    using assms(2,3) by (simp add: verify_password_def)
  have checked: "steps (\<lambda>_ _. True) (\<lambda>r. case r of Inl e \<Rightarrow> quiet (Inl e :: api_error + unit) | Inr m \<Rightarrow> m)
      (spawn_blocking E msg (Ret (Inr True)))" for msg
    unfolding spawn_blocking_def by (rule steps_bind [OF steps_all]) (auto intro!: steps.Ret split: option.split)
  show ?thesis
    unfolding login_tail_def Let_def option.case assms(1) right
  proof (rule steps_attempt [OF checked])
    fix matches assume "case Inr matches of Inl e \<Rightarrow> quiet (Inl e :: api_error + unit) | Inr m \<Rightarrow> m"
    then have matches by simp
    then show "hushed (if \<not> matches then login_failed E ip else
      attempt (create_token E (jwt (st_auth A)) (u_id u) (u_email u) (u_name u) (u_provider u)) (\<lambda>access_token.
      attempt (issue_refresh_token E A (u_id u)) (\<lambda>refresh_token.
      attempt (set_auth_cookies E [] access_token refresh_token None (c_jwt_expiry (cfg A)) (c_refresh_expiry (cfg A))
        (c_cookie_secure (cfg A))) (\<lambda>(hd, csrf_token).
      attempt (open_session E A (u_id u) (u_email u) (u_name u) (u_provider u)) (\<lambda>session_id.
      attempt (Ret (set_cookie (e_lib E) hd ''session'' session_id (c_jwt_expiry (cfg A)) True (c_cookie_secure (cfg A)))) (\<lambda>hd.
      Ret (Inr (hd, token_response_of A access_token refresh_token csrf_token
        \<lparr>ui_id = u_id u, ui_email = u_email u, ui_name = u_name u, ui_provider = u_provider u\<rparr>))))))))"
      by (simp only: not_True_eq_False if_False)
        (intro hushed_attempt hushed_cases(1) hushed_create_token hushed_issue_refresh_token hushed_open_session
          hushed_set_auth_cookies hushed_Ret quiet_set_cookie quiet_simps)
  qed (simp add: quiet_def)
qed

lemma hushed_run: "hushed p \<Longrightarrow> run p w = (r, w') \<Longrightarrow> quiet r"
  by (drule steps_run) (auto simp: reflp_def transp_def)

context postgres_service
begin

lemma login_right:
  assumes E: "e_db E = D" and argon: "argon2_ok (e_os E) (e_lib E)"
    and row: "find (\<lambda>v. u_email v = lr_email b) (users (pg_of (db w))) = Some u" "u_password_hash u = Some h"
    and hash: "fst (os_argon2 (e_os E) p s) = Inr h" and run: "run (login E A hs peer b) w = (r, w')"
  shows "login_answers p (lr_password b) u r"
proof -
  have good: "argon2_parse (e_lib E) h = Inr ()" "argon2_matches (e_lib E) q h \<longleftrightarrow> q = p" for q
    using argon hash by (auto simp: argon2_ok_def)
  have inr: "lr_password b = p \<and> tr_user tr = info_of_row u" if r: "r = Inr (cks, tr)" for cks tr
  proof -
    have "run (login E A hs peer b) w = (Inr (cks, tr), w')" using run r by simp
    from login_run [OF E this] row good show ?thesis by (auto simp: signs_in_def)
  qed
  have "quiet r" if "lr_password b = p"
  proof -
    have tail: "hushed (login_tail E A ip b (Some u))" for ip
      using hushed_login_tail [OF row(2) good(1)] good(2) that by blast
    obtain c w1 where c: "run (login_checks E A (client_ip E hs peer) (lr_email b)) w = (c, w1)" by fastforce
    have "db w1 = db w" using keepsD [OF routes_frame(4) c] .
    moreover obtain y w2 where q: "run (db_act E (\<lambda>D. q_user_by_email D (lr_email b))) w1 = (y, w2)" by fastforce
    ultimately have "y = Inr user \<Longrightarrow> user = Some u" for user
      using db_act_Inr [where q = "\<lambda>D. q_user_by_email D (lr_email b)", OF E user_by_email] row(1)
      by (fastforce simp: user_by_email_spec_def)
    then show ?thesis
      using run hushed_run [OF hushed_login_checks c] hushed_run [OF tail] q
      unfolding login_split by (auto simp: run_attempt c run_lift_err internal_def map_err_def quiet_def bad_credentials_def split: sum.splits)
  qed
  with inr show ?thesis
    by (cases r) (auto simp: login_answers_def)
qed

end

section \<open>After a registration\<close>

text \<open>The two states of the tables have the same account under an email.\<close>

definition same_account :: "string \<Rightarrow> pg \<Rightarrow> pg \<Rightarrow> bool" where
  "same_account e p p' \<longleftrightarrow> find (\<lambda>v. u_email v = e) (users p') = find (\<lambda>v. u_email v = e) (users p)"

lemma find_last: "e \<notin> u_email ` set us \<Longrightarrow> u_email u = e \<Longrightarrow> find (\<lambda>v. u_email v = e) (us @ [u]) = Some u"
  by (induction us) auto

text \<open>
  C13. After a registration that succeeded, and for as long as the account's row is as it was, a login with its
  email is never told that the credentials are invalid if it gives the password of the registration, it never
  succeeds if it gives another one, and if it succeeds it answers with the registered user.
\<close>

theorem registered_password_logs_in:
  assumes "postgres_service (e_db E) pg_of canon" and "argon2_ok (e_os E) (e_lib E)"
    and "run (register E A hs peer b) w = (Inr (n, cks, tr), w1)"
    and "same_account (rr_email b) (pg_of (db w1)) (pg_of (db w2))"
    and "run (login E A hs' peer' \<lparr>lr_email = rr_email b, lr_password = q\<rparr>) w2 = (r, w3)"
  shows "\<exists>u. tr_user tr = info_of_row u \<and> login_answers (rr_password b) q u r"
proof -
  obtain uid h s where new: "rr_email b \<notin> u_email ` set (users (pg_of (db w)))"
    and h: "fst (os_argon2 (e_os E) (rr_password b) s) = Inr h" and tr: "tr_user tr = info_of_row (account_of b uid h)"
    and p: "pg_of (db w1) = (pg_of (db w))\<lparr>users := users (pg_of (db w)) @ [account_of b uid h]\<rparr>"
    by (rule postgres_service.register_run [OF assms(1) refl assms(3)])
  have "find (\<lambda>v. u_email v = rr_email b) (users (pg_of (db w2))) = Some (account_of b uid h)"
    using assms(4) find_last [OF new, of "account_of b uid h"] by (simp add: same_account_def p account_of_def)
  then have "login_answers (rr_password b) (lr_password \<lparr>lr_email = rr_email b, lr_password = q\<rparr>) (account_of b uid h) r"
    by (intro postgres_service.login_right [OF assms(1) refl assms(2) _ _ h assms(5)]) (simp_all add: account_of_def)
  with tr show ?thesis by auto
qed

section \<open>After a reset\<close>

lemma find_changed:
  assumes "distinct (map u_email us)" and "u \<in> set us" and "\<And>v. u_email (f v) = u_email v"
  shows "find (\<lambda>v. u_email v = u_email u) (map f us) = Some (f u)"
  using assms(1,2)
proof (induction us)
  case (Cons v us)
  then show ?case using assms(3) by (cases "v = u") (auto simp: image_iff)
qed simp

text \<open>
  C15. After a password reset that succeeded there is an account that accepts the new password and no other, the
  old one included, for as long as its row is as the reset left it.
\<close>

theorem reset_password_logs_in:
  assumes "redis_env E db_of" and "postgres_service (e_db E) pg_of canon" and "argon2_ok (e_os E) (e_lib E)"
    and "distinct (map u_email (users (pg_of (db w))))" and "run (reset_password E token p) w = (Inr x, w1)"
  shows "\<exists>u \<in> set (users (pg_of (db w))). \<forall>A hs peer q w2 r w3.
    same_account (u_email u) (pg_of (db w1)) (pg_of (db w2)) \<longrightarrow>
    run (login E A hs peer \<lparr>lr_email = u_email u, lr_password = q\<rparr>) w2 = (r, w3) \<longrightarrow> login_answers p q u r"
proof -
  obtain uid h s where h: "fst (os_argon2 (e_os E) p s) = Inr h"
    and ex: "\<exists>u \<in> set (users (pg_of (db w))). resettable canon uid u"
    and after: "pg_of (db w1) = with_password canon uid h (pg_of (db w))"
    by (rule redis_env.reset_password_run [OF assms(1,2,5)])
  obtain u where u: "u \<in> set (users (pg_of (db w)))" "resettable canon uid u" using ex by blast
  have row: "find (\<lambda>v. u_email v = u_email u) (users (pg_of (db w1))) = Some (u\<lparr>u_password_hash := Some h\<rparr>)"
    using find_changed [OF assms(4) u(1), of "\<lambda>v. if resettable canon uid v then v\<lparr>u_password_hash := Some h\<rparr> else v"] u(2)
    by (simp add: after with_password_def)
  have "login_answers p q u r"
    if "same_account (u_email u) (pg_of (db w1)) (pg_of (db w2))"
      and l: "run (login E A hs peer \<lparr>lr_email = u_email u, lr_password = q\<rparr>) w2 = (r, w3)" for A hs peer q w2 r w3
  proof -
    have "find (\<lambda>v. u_email v = u_email u) (users (pg_of (db w2))) = Some (u\<lparr>u_password_hash := Some h\<rparr>)"
      using that(1) row by (simp add: same_account_def)
    then have "login_answers p (lr_password \<lparr>lr_email = u_email u, lr_password = q\<rparr>) (u\<lparr>u_password_hash := Some h\<rparr>) r"
      by (intro postgres_service.login_right [OF assms(2) refl assms(3) _ _ h l]) simp_all
    then show ?thesis by (simp add: login_answers_def info_of_row_def)
  qed
  with u(1) show ?thesis by blast
qed

section \<open>Examples\<close>

lemma ref_argon2_ok: "argon2_ok ref_os ref_lib"
  by (auto simp: argon2_ok_def ref_os_def ref_lib_def starts_with_def)

text \<open>Bob registers, and then logs in with his password and with another one.\<close>

definition bob_login :: "string \<Rightarrow> ((rdb, pg, osstate) world, api_error + cookies \<times> token_response) prog" where
  "bob_login q = login (ref_env 0 Map.empty) demo_state [] None \<lparr>lr_email = rr_email bob_request, lr_password = q\<rparr>"

theorem registered_password_logs_in_witness:
  "\<exists>x w1. run (register (ref_env 0 Map.empty) demo_state [] None bob_request) ann_world = (Inr x, w1) \<and>
     quiet (fst (run (bob_login ''password'') w1)) \<and> (\<exists>e. fst (run (bob_login ''passwort'') w1) = Inl e)"
proof -
  let ?E = "ref_env 0 Map.empty"
  obtain n cks tr w1 where r: "run (register ?E demo_state [] None bob_request) ann_world = (Inr (n, cks, tr), w1)"
    using bob_register_run by blast
  have pg: "postgres_service (e_db ?E) (\<lambda>p. p) Some" by (simp add: ref_db.postgres_service_axioms)
  have argon: "argon2_ok (e_os ?E) (e_lib ?E)" by (simp add: ref_argon2_ok)
  have "\<exists>u. login_answers ''password'' q u (fst (run (bob_login q) w1))" for q
  proof -
    obtain y w3 where l: "run (bob_login q) w1 = (y, w3)" by fastforce
    from registered_password_logs_in [OF pg argon r _ l [unfolded bob_login_def]] l show ?thesis
      by (auto simp: same_account_def bob_request_def)
  qed
  from this [of "''password''"] this [of "''passwort''"] r show ?thesis by (auto simp: login_answers_def)
qed

theorem reset_password_logs_in_witness:
  "\<exists>x w1. run (reset_password (ref_env 0 Map.empty) ''t'' ''new password'') reset_world = (Inr x, w1) \<and>
     (\<forall>A hs peer q. login_answers ''new password'' q ann_row
        (fst (run (login (ref_env 0 Map.empty) A hs peer \<lparr>lr_email = u_email ann_row, lr_password = q\<rparr>) w1)))"
proof -
  let ?E = "ref_env 0 Map.empty"
  obtain x w1 where r: "run (reset_password ?E ''t'' ''new password'') reset_world = (Inr x, w1)"
    using ann_reset_run by blast
  have pg: "postgres_service (e_db ?E) (\<lambda>p. p) Some" by (simp add: ref_db.postgres_service_axioms)
  have argon: "argon2_ok (e_os ?E) (e_lib ?E)" by (simp add: ref_argon2_ok)
  have us: "users (db reset_world) = [ann_row]" by (simp add: reset_world_def ann_world_def ref_world_sel)
  have "distinct (map u_email (users (db reset_world)))" by (simp add: us)
  from reset_password_logs_in [OF ref_env.redis_env_axioms pg argon this r] have
    "login_answers ''new password'' q ann_row
       (fst (run (login ?E A hs peer \<lparr>lr_email = u_email ann_row, lr_password = q\<rparr>) w1))" for A hs peer q
    unfolding us by (auto simp: same_account_def) (metis prod.collapse)
  with r show ?thesis by blast
qed

end
