(* ===== verification/Metrics.thy ===== *)
theory Metrics
  imports App_State
begin

text \<open>
  What the server records about its requests (\<open>backend/api/src/metrics.rs\<close>, \<open>backend/auth/src/metrics.rs\<close>,
  \<open>backend/cache/src/metrics.rs\<close>). The recorder is the \<open>metrics\<close> crate's; a definition here gives the samples
  the code hands to it, in their order.
\<close>

section \<open>Samples\<close>

text \<open>A name with its labels; a counter goes up by one, a histogram takes milliseconds, a gauge is set.\<close>

datatype sample =
    Counter string "(string \<times> string) list"
  | Histogram string "(string \<times> string) list" nat
  | Gauge string "(string \<times> string) list" nat

definition normalize_auth_route :: "string \<Rightarrow> string" where
  "normalize_auth_route p = (case map_of
     [(''/auth/register'', ''/auth/register''), (''/auth/login'', ''/auth/login''), (''/auth/logout'', ''/auth/logout''),
      (''/auth/forgot-password'', ''/auth/forgot-password''), (''/auth/reset-password'', ''/auth/reset-password''),
      (''/auth/refresh'', ''/auth/refresh''), (''/auth/providers'', ''/auth/providers''), (''/auth/me'', ''/auth/me''),
      (''/auth/oauth/{provider}'', ''/auth/oauth''), (''/auth/oauth/{provider}/callback'', ''/auth/oauth/callback'')] p of
       Some r \<Rightarrow> r | None \<Rightarrow> ''unknown'')"

text \<open>The label of a request: the template of the route it matched, or its path made one of finitely many.\<close>

definition route_label :: "(string \<Rightarrow> string) \<Rightarrow> string option \<Rightarrow> string \<Rightarrow> string" where
  "route_label nrm matched p = (case matched of Some template \<Rightarrow> template | None \<Rightarrow> nrm p)"

section \<open>The middlewares\<close>

definition http_samples :: "string \<Rightarrow> string \<Rightarrow> nat \<Rightarrow> nat \<Rightarrow> sample list" where
  "http_samples meth route st duration =
     [Counter ''http_requests_total'' [(''method'', meth), (''route'', route), (''status'', show_nat st)],
      Histogram ''http_request_duration_seconds'' [(''method'', meth), (''route'', route)] duration]"

definition track_metrics ::
  "('r, 'd, 'o) env \<Rightarrow> string option \<Rightarrow> (request \<Rightarrow> (('r, 'd, 'o) world, response) prog) \<Rightarrow> request \<Rightarrow>
   (('r, 'd, 'o) world, response \<times> sample list) prog" where
  "track_metrics E matched next_layer req =
     bind (os_act E os_instant) (\<lambda>start.
     let route = route_label normalize_route matched (path req) in
     bind (next_layer req) (\<lambda>resp.
     bind (os_act E os_instant) (\<lambda>now.
     Ret (resp, http_samples (req_method req) route (status resp) (now - start)))))"

definition auth_samples :: "string \<Rightarrow> string \<Rightarrow> nat \<Rightarrow> nat \<Rightarrow> sample list" where
  "auth_samples meth route st latency =
     [Counter ''auth_requests_total'' [(''method'', meth), (''route'', route)],
      Histogram ''auth_latency_seconds'' [(''method'', meth), (''route'', route)] latency] @
     (if 400 \<le> st then [Counter ''auth_errors_total''
        [(''error_type'', if 500 \<le> st then ''server'' else ''client''), (''status'', show_nat st)]] else [])"

definition track_auth_metrics ::
  "('r, 'd, 'o) env \<Rightarrow> string option \<Rightarrow> (request \<Rightarrow> (('r, 'd, 'o) world, response) prog) \<Rightarrow> request \<Rightarrow>
   (('r, 'd, 'o) world, response \<times> sample list) prog" where
  "track_auth_metrics E matched next_layer req =
     bind (os_act E os_instant) (\<lambda>start.
     let route = route_label normalize_auth_route matched (path req) in
     bind (next_layer req) (\<lambda>resp.
     bind (os_act E os_instant) (\<lambda>now.
     Ret (resp, auth_samples (req_method req) route (status resp) (now - start)))))"

definition record_operation :: "string \<Rightarrow> string + unit \<Rightarrow> nat \<Rightarrow> sample list" where
  "record_operation operation result elapsed =
     [Counter ''redis_operations_total''
        [(''operation'', operation), (''status'', case result of Inr _ \<Rightarrow> ''success'' | Inl _ \<Rightarrow> ''error'')],
      Histogram ''redis_operation_duration_seconds'' [(''operation'', operation)] elapsed]"

section \<open>The recorder and the gauges\<close>

text \<open>
  The buckets of the two histograms in thousandths of a second; \<open>set_buckets\<close> is the builder's operation. A
  failure falls back to a new builder, for the second histogram also without the buckets of the first.
\<close>

definition metric_buckets :: "nat list" where
  "metric_buckets = [1, 5, 10, 25, 50, 100, 250, 500, 1000, 2500, 5000]"

definition recorder_builder :: "'b \<Rightarrow> (string \<Rightarrow> nat list \<Rightarrow> 'b \<Rightarrow> string + 'b) \<Rightarrow> 'b" where
  "recorder_builder new set_buckets =
     (let b = (case set_buckets ''http_request_duration_seconds'' metric_buckets new of Inr b \<Rightarrow> b | Inl _ \<Rightarrow> new) in
      case set_buckets ''auth_latency_seconds'' metric_buckets b of Inr b \<Rightarrow> b | Inl _ \<Rightarrow> new)"

text \<open>One tick of the gauge task: the size of the pool and its idle connections (\<open>usize\<close>, cast to 32 bits).\<close>

definition pool_gauges :: "u32 \<Rightarrow> nat \<Rightarrow> sample list" where
  "pool_gauges size_of_pool num_idle =
     (let idle = (of_nat num_idle :: u32); active = saturating_sub size_of_pool idle in
      [Gauge ''db_pool_connections'' [(''state'', ''idle'')] (unat idle),
       Gauge ''db_pool_connections'' [(''state'', ''used'')] (unat active)])"

text \<open>The task, over the sizes and idle connections it sees at its ticks, one every 15 seconds.\<close>

definition spawn_pool_gauge_task :: "(u32 \<times> nat) list \<Rightarrow> sample list" where
  "spawn_pool_gauge_task ticks = concat (map (\<lambda>(size_of_pool, num_idle). pool_gauges size_of_pool num_idle) ticks)"

section \<open>Facts\<close>

text \<open>
  The labels are bounded: an unmatched path of any form gets one of eleven names. So the number of counters does
  not grow with the requests.
\<close>

definition auth_labels :: "string list" where
  "auth_labels = [''/auth/register'', ''/auth/login'', ''/auth/logout'', ''/auth/forgot-password'',
     ''/auth/reset-password'', ''/auth/refresh'', ''/auth/providers'', ''/auth/me'', ''/auth/oauth'',
     ''/auth/oauth/callback'', ''unknown'']"

lemma normalize_auth_route_bounded: "normalize_auth_route p \<in> set auth_labels"
  by (simp add: normalize_auth_route_def auth_labels_def)

text \<open>The middlewares only observe: the response is the one of the next layer, and nothing else is done.\<close>

lemma track_metrics_transparent:
  assumes "\<And>v o'. v (w\<lparr>outside := o'\<rparr>) = v w"
  shows "run (track_metrics E matched next_layer req) w = ((resp, samples), w') \<Longrightarrow>
    \<exists>o1 w1 o2. run (next_layer req) (w\<lparr>outside := o1\<rparr>) = (resp, w1) \<and> w' = w1\<lparr>outside := o2\<rparr>"
    and "run (track_auth_metrics E matched next_layer req) w = ((resp, samples), w') \<Longrightarrow>
    \<exists>o1 w1 o2. run (next_layer req) (w\<lparr>outside := o1\<rparr>) = (resp, w1) \<and> w' = w1\<lparr>outside := o2\<rparr>"
  unfolding track_metrics_def track_auth_metrics_def Let_def
  by (auto simp: run_bind run_os_act run_Ret split: prod.splits)

text \<open>Idle and used connections add up to the size of the pool, as long as the pool is not smaller than its idle part.\<close>

lemma pool_gauges_add_up:
  assumes "num_idle \<le> unat size_of_pool"
  shows "\<exists>i u. pool_gauges size_of_pool num_idle = [Gauge ''db_pool_connections'' [(''state'', ''idle'')] i,
      Gauge ''db_pool_connections'' [(''state'', ''used'')] u] \<and> i + u = unat size_of_pool"
proof -
  have "unat size_of_pool < 2 ^ LENGTH(32)" by (rule unsigned_less)
  then have "num_idle < 2 ^ 32" using assms by simp
  then have "unat (of_nat num_idle :: u32) = num_idle" by (simp add: unsigned_of_nat take_bit_nat_eq_self)
  with assms show ?thesis by (simp add: pool_gauges_def Let_def unat_saturating_sub)
qed

end
