(* ===== verification/Server_Life.thy ===== *)
theory Server_Life
  imports Live Metrics
begin

text \<open>
  The life of the server process: \<open>router\<close> of \<open>backend/api/src/lib.rs\<close> with its outside effects, and \<open>main\<close> of
  \<open>backend/api/src/main.rs\<close>, from its start to its exit code, with the shutdown signal and what the open
  WebSockets hear of it.
\<close>

section \<open>Building the router\<close>

text \<open>The bucket is made sure of at start-up; a failure is logged only. The flag says whether the gauge task was spawned.\<close>

definition start_router ::
  "('r, 'd, 'o) env \<Rightarrow> 'o s3 \<Rightarrow> (string \<Rightarrow> string option) \<Rightarrow> startup \<Rightarrow>
   (('r, 'd, 'o) world, db_error + app_state \<times> bool) prog" where
  "start_router E S vars U = (case app_state_from_env vars U of
       Inl e \<Rightarrow> Ret (Inl e)
     | Inr A \<Rightarrow> bind (case as_storage A of Some c \<Rightarrow> map_result (\<lambda>_. ()) (ensure_bucket E S c) | None \<Rightarrow> Ret ())
         (\<lambda>_. Ret (Inr (A, hs_db (as_health A) = Connected))))"

text \<open>The recorder is installed by the first call only; \<open>made\<close> is the handle a call would make.\<close>

definition init_metrics_recorder :: "'h \<Rightarrow> 'h option \<Rightarrow> 'h \<times> 'h option" where
  "init_metrics_recorder made cell = (case cell of Some h \<Rightarrow> (h, cell) | None \<Rightarrow> (made, Some made))"

definition metrics_handler :: "('h \<Rightarrow> string) \<Rightarrow> 'h \<Rightarrow> nat \<times> string" where
  "metrics_handler render h = (200, render h)"

section \<open>The process\<close>

text \<open>
  Where a WebSocket is in \<open>handle_socket\<close>: before its loop, in the \<open>select\<close> that also waits for the shutdown, sending a message
  on (when the future that waits for the shutdown has been dropped), waiting and notified of the shutdown, or over.
\<close>

datatype socket_place = Subscribing | Selecting | Sending | Told | Over

text \<open>
  The branches of the \<open>select\<close>, with what they find: the notification; a message to forward, a gap in the messages, their
  end, or the idle timeout; a frame of the client, which may be its last.
\<close>

datatype wake = Notification | Payload | Lagged | ChannelClosed | IdleTimeout | Frame bool

fun after_select :: "wake \<Rightarrow> socket_place" where
  "after_select Notification = Over"
| "after_select Payload = Sending"
| "after_select Lagged = Selecting"
| "after_select ChannelClosed = Over"
| "after_select IdleTimeout = Over"
| "after_select (Frame ends) = (if ends then Over else Selecting)"

datatype stage = Launching | Binding | Serving | Draining | Exited nat

text \<open>The stages in their order; the exit codes are the last ones.\<close>

fun stage_rank :: "stage \<Rightarrow> nat" where
  "stage_rank Launching = 0" | "stage_rank Binding = 1" | "stage_rank Serving = 2" | "stage_rank Draining = 3"
| "stage_rank (Exited n) = 4 + n"

lemma stage_rank_inject: "stage_rank a = stage_rank b \<longleftrightarrow> a = b"
  by (cases a; cases b) simp_all

instantiation stage :: linorder
begin

definition less_eq_stage :: "stage \<Rightarrow> stage \<Rightarrow> bool" where
  "less_eq_stage a b \<longleftrightarrow> stage_rank a \<le> stage_rank b"

definition less_stage :: "stage \<Rightarrow> stage \<Rightarrow> bool" where
  "less_stage a b \<longleftrightarrow> stage_rank a < stage_rank b"

instance
  by standard (auto simp: less_eq_stage_def less_stage_def stage_rank_inject)

end

record server =
  sv_stage :: stage
  sv_gauge :: bool
  sv_sockets :: "socket_place list"

text \<open>
  What happens to the process. \<open>Built\<close> is the result of \<open>router\<close>; \<open>Signalled\<close> is SIGTERM or Ctrl-C; \<open>Drained\<close> is \<open>axum::serve\<close>
  returning after the shutdown. \<open>Subscribed i ok\<close> is the result of a socket's subscription. \<open>Woken i ready b\<close> is a poll of its
  \<open>select\<close> that finds the branches \<open>ready\<close>, of which the runtime takes any one, \<open>b\<close>, and drops the others: the
  \<open>select\<close> is not \<open>biased\<close>. \<open>Sent i ok\<close> ends the sending of a message; it is not \<open>ok\<close> if the client is gone.
\<close>

datatype server_event =
    Built "db_error + app_state \<times> bool"
  | AddressInvalid
  | Bound "string + unit"
  | SigtermUnavailable
  | Opened
  | Subscribed nat bool
  | Woken nat "wake list" wake
  | Sent nat bool
  | Signalled
  | Drained
  | ServeFailed

text \<open>The step of one socket; the notification is ready if the socket was told while it waited.\<close>

fun socket_step :: "socket_place \<Rightarrow> server_event \<Rightarrow> socket_place option" where
  "socket_step p (Subscribed i ok) = (if p = Subscribing then Some (if ok then Selecting else Over) else None)"
| "socket_step p (Woken i ready b) =
     (if p \<in> {Selecting, Told} \<and> b \<in> set ready \<and> (Notification \<in> set ready \<longleftrightarrow> p = Told) then Some (after_select b) else None)"
| "socket_step p (Sent i ok) = (if p = Sending then Some (if ok then Selecting else Over) else None)"
| "socket_step p _ = None"

definition move_socket :: "server \<Rightarrow> nat \<Rightarrow> server_event \<Rightarrow> server option" where
  "move_socket s i e =
     (if sv_stage s \<in> {Serving, Draining} \<and> i < length (sv_sockets s)
      then map_option (\<lambda>p. s\<lparr>sv_sockets := (sv_sockets s)[i := p]\<rparr>) (socket_step (sv_sockets s ! i) e) else None)"

text \<open>\<open>Notify::notify_waiters\<close> wakes the futures that wait now and leaves nothing for later ones.\<close>

definition notify_waiters :: "socket_place list \<Rightarrow> socket_place list" where
  "notify_waiters ps = map (\<lambda>p. if p = Selecting then Told else p) ps"

text \<open>The step of \<open>main\<close> for an event; \<open>None\<close>: the event cannot happen now.\<close>

fun main_step :: "server \<Rightarrow> server_event \<Rightarrow> server option" where
  "main_step s (Built r) = (if sv_stage s = Launching then Some (case r of
       Inl e \<Rightarrow> s\<lparr>sv_stage := Exited 1\<rparr>
     | Inr (A, gauge) \<Rightarrow> s\<lparr>sv_stage := Binding, sv_gauge := gauge\<rparr>) else None)"
| "main_step s AddressInvalid = (if sv_stage s = Binding then Some (s\<lparr>sv_stage := Exited 1\<rparr>) else None)"
| "main_step s (Bound r) = (if sv_stage s = Binding then Some (case r of
       Inl e \<Rightarrow> s\<lparr>sv_stage := Exited 1\<rparr>
     | Inr _ \<Rightarrow> s\<lparr>sv_stage := Serving\<rparr>) else None)"
| "main_step s SigtermUnavailable = (if sv_stage s = Serving then Some (s\<lparr>sv_stage := Exited 1\<rparr>) else None)"
| "main_step s Opened =
     (if sv_stage s \<in> {Serving, Draining} then Some (s\<lparr>sv_sockets := sv_sockets s @ [Subscribing]\<rparr>) else None)"
| "main_step s (Subscribed i ok) = move_socket s i (Subscribed i ok)"
| "main_step s (Woken i ready b) = move_socket s i (Woken i ready b)"
| "main_step s (Sent i ok) = move_socket s i (Sent i ok)"
| "main_step s Signalled =
     (if sv_stage s = Serving then Some (s\<lparr>sv_stage := Draining, sv_sockets := notify_waiters (sv_sockets s)\<rparr>) else None)"
| "main_step s Drained = (if sv_stage s = Draining then Some (s\<lparr>sv_stage := Exited 0, sv_gauge := False\<rparr>) else None)"
| "main_step s ServeFailed = (if sv_stage s \<in> {Serving, Draining} then Some (s\<lparr>sv_stage := Exited 1\<rparr>) else None)"

fun main_run :: "server \<Rightarrow> server_event list \<Rightarrow> server option" where
  "main_run s [] = Some s"
| "main_run s (e # es) = Option.bind (main_step s e) (\<lambda>t. main_run t es)"

definition launched :: server where
  "launched = \<lparr>sv_stage = Launching, sv_gauge = False, sv_sockets = []\<rparr>"

lemma main_run_append: "main_run s (es @ es') = Option.bind (main_run s es) (\<lambda>t. main_run t es')"
  by (induction es arbitrary: s) (auto split: Option.bind_split)

lemma main_run_snoc: "main_run s (es @ [e]) = Option.bind (main_run s es) (\<lambda>t. main_step t e)"
  by (simp add: main_run_append)

fun_cases socket_stepE: "socket_step p e = Some q"

lemma move_socketE:
  assumes "move_socket s i e = Some t"
  obtains p where "socket_step (sv_sockets s ! i) e = Some p" and "i < length (sv_sockets s)"
    and "t = s\<lparr>sv_sockets := (sv_sockets s)[i := p]\<rparr>"
  using assms by (auto simp: move_socket_def split: if_splits)

lemma main_step_forward: "main_step s e = Some t \<Longrightarrow> sv_stage s \<le> sv_stage t"
  by (cases e) (auto simp: less_eq_stage_def elim: move_socketE split: if_splits sum.splits prod.splits)

text \<open>The process never goes back to an earlier stage.\<close>

lemma main_run_forward: "main_run s es = Some t \<Longrightarrow> sv_stage s \<le> sv_stage t"
proof (induction es arbitrary: s)
  case (Cons e es)
  then obtain r where r: "main_step s e = Some r" "main_run r es = Some t" by (auto split: Option.bind_splits)
  show ?case by (rule order_trans [OF main_step_forward [OF r(1)] Cons.IH [OF r(2)]])
qed simp

text \<open>The start-up fails for the tables only; a bucket that cannot be made stops nothing.\<close>

lemma start_router_result:
  "fst (run (start_router E S vars U) w) = map_sum id (\<lambda>A. (A, hs_db (as_health A) = Connected)) (app_state_from_env vars U)"
  by (auto simp: start_router_def run_bind split: sum.split option.split prod.split)

section \<open>How the process ends\<close>

text \<open>The events after which the code calls \<open>std::process::exit(1)\<close>.\<close>

fun fatal :: "server_event \<Rightarrow> bool" where
  "fatal (Built (Inl _)) \<longleftrightarrow> True" | "fatal AddressInvalid \<longleftrightarrow> True" | "fatal (Bound (Inl _)) \<longleftrightarrow> True"
| "fatal SigtermUnavailable \<longleftrightarrow> True" | "fatal ServeFailed \<longleftrightarrow> True" | "fatal _ \<longleftrightarrow> False"

definition stopping :: "stage \<Rightarrow> bool" where
  "stopping st \<longleftrightarrow> Draining \<le> st"

lemma stopping_simps [simp]: "stopping Draining" "stopping (Exited n)" "\<not> stopping Launching" "\<not> stopping Binding" "\<not> stopping Serving"
  by (simp_all add: stopping_def less_eq_stage_def)

text \<open>The socket an event is about.\<close>

fun mover :: "server_event \<Rightarrow> nat option" where
  "mover (Subscribed i ok) = Some i"
| "mover (Woken i ready b) = Some i"
| "mover (Sent i ok) = Some i"
| "mover _ = None"

lemma step_mover: "main_step s e = Some t \<Longrightarrow> mover e = Some j \<Longrightarrow> move_socket s j e = Some t"
  by (cases e) simp_all

lemma move_socket_stage:
  "move_socket s j e = Some t \<Longrightarrow> sv_stage t = sv_stage s \<and> sv_gauge t = sv_gauge s \<and> sv_stage s \<in> {Serving, Draining}"
  by (auto simp: move_socket_def split: if_splits)

lemma step_no_mover:
  "main_step s e = Some t \<Longrightarrow> mover e = None \<Longrightarrow> stopping (sv_stage s) \<Longrightarrow>
   stopping (sv_stage t) \<and> (\<exists>xs. sv_sockets t = sv_sockets s @ xs)"
  by (cases e) (auto split: if_splits sum.splits prod.splits)

lemma mover_harmless: "mover e = Some j \<Longrightarrow> e \<noteq> Drained \<and> e \<noteq> Signalled \<and> \<not> fatal e"
  by (cases e) simp_all

text \<open>What is known of the state \<open>s\<close> after the events \<open>es\<close>.\<close>

definition ends_right :: "server_event list \<Rightarrow> server \<Rightarrow> bool" where
  "ends_right es s \<longleftrightarrow>
     (sv_stage s = Exited 0 \<longleftrightarrow> es \<noteq> [] \<and> last es = Drained) \<and>
     (sv_stage s = Exited 1 \<longleftrightarrow> es \<noteq> [] \<and> fatal (last es)) \<and>
     (\<forall>n. sv_stage s = Exited n \<longrightarrow> n \<le> 1) \<and>
     count_list es Signalled \<le> 1 \<and> (\<not> stopping (sv_stage s) \<longrightarrow> Signalled \<notin> set es) \<and>
     (sv_stage s = Draining \<or> sv_stage s = Exited 0 \<longrightarrow> Signalled \<in> set es) \<and>
     (sv_stage s = Exited 0 \<longrightarrow> \<not> sv_gauge s)"

lemma ends_right_step:
  assumes "ends_right es s" and "main_step s e = Some t"
  shows "ends_right (es @ [e]) t"
proof (cases "mover e")
  case None
  then show ?thesis
    using assms unfolding ends_right_def
    by (cases "sv_stage s"; cases e) (auto split: if_splits sum.splits prod.splits)
next
  case (Some j)
  with move_socket_stage [OF step_mover [OF assms(2) Some]] mover_harmless [OF Some] assms(1)
  show ?thesis by (auto simp: ends_right_def)
qed

lemma run_ends_right: "main_run launched es = Some s \<Longrightarrow> ends_right es s"
proof (induction es arbitrary: s rule: rev_induct)
  case Nil
  then have "s = launched" by simp
  then show ?case by (simp add: ends_right_def launched_def)
next
  case (snoc e es)
  then obtain r where "main_run launched es = Some r" "main_step r e = Some s"
    by (auto simp: main_run_snoc split: Option.bind_splits)
  with snoc.IH ends_right_step show ?case by blast
qed

text \<open>
  The process ends with code 0 exactly when the server has drained after a shutdown signal, with the task of
  the pool gauge aborted, and with code 1 exactly when a fatal event came last; it has no other codes, at most one
  signal is acted on, and it drains only after one.
\<close>

theorem server_ends_right:
  assumes "main_run launched es = Some s"
  shows "ends_right es s"
  using assms by (rule run_ends_right)

section \<open>What the sockets hear of the shutdown\<close>

text \<open>The branches a socket has taken in its \<open>select\<close>, in order, and whether nothing but the notification was ever ready.\<close>

primrec wakes :: "nat \<Rightarrow> server_event list \<Rightarrow> wake list" where
  "wakes i [] = []"
| "wakes i (e # es) = (case e of Woken j ready b \<Rightarrow> if j = i then b # wakes i es else wakes i es | _ \<Rightarrow> wakes i es)"

definition idle :: "nat \<Rightarrow> server_event list \<Rightarrow> bool" where
  "idle i es \<longleftrightarrow> (\<forall>ready b. Woken i ready b \<in> set es \<longrightarrow> set ready \<subseteq> {Notification})"

text \<open>What is left of the life of a socket that is told, or not told, when the server is stopping.\<close>

definition hears :: "socket_place \<Rightarrow> wake list \<Rightarrow> socket_place \<Rightarrow> bool" where
  "hears p ws q \<longleftrightarrow> (case p of
       Told \<Rightarrow> (case ws of [] \<Rightarrow> q = Told
         | b # vs \<Rightarrow> if b = Notification then vs = [] \<and> q = Over else Notification \<notin> set ws \<and> q \<noteq> Told)
     | Over \<Rightarrow> ws = [] \<and> q = Over
     | _ \<Rightarrow> Notification \<notin> set ws \<and> q \<noteq> Told)"

lemma after_select_not_told: "after_select b \<noteq> Told"
  by (cases b) simp_all

lemma socket_step_told: "socket_step p e = Some q \<Longrightarrow> q \<noteq> Told"
  by (cases e) (auto simp: after_select_not_told split: if_splits)

lemma wakes_other: "mover e \<noteq> Some i \<Longrightarrow> wakes i [e] = []"
  by (cases e) simp_all

text \<open>What a step means for one socket when the server is stopping.\<close>

definition socket_turn :: "socket_place \<Rightarrow> wake list \<Rightarrow> socket_place \<Rightarrow> bool" where
  "socket_turn p ws q \<longleftrightarrow> ws = [] \<and> (q = p \<or> p \<in> {Subscribing, Sending} \<and> q \<noteq> Told) \<or>
     (\<exists>b. ws = [b] \<and> p \<in> {Selecting, Told} \<and> (b = Notification \<longrightarrow> p = Told) \<and> q = after_select b)"

lemma socket_step_turn: "socket_step p e = Some q \<Longrightarrow> mover e = Some i \<Longrightarrow> socket_turn p (wakes i [e]) q"
  by (cases e) (auto simp: socket_turn_def split: if_splits)

lemma stopping_step:
  assumes "main_step s e = Some t" and "stopping (sv_stage s)" and "i < length (sv_sockets s)"
  shows "stopping (sv_stage t) \<and> i < length (sv_sockets t) \<and> socket_turn (sv_sockets s ! i) (wakes i [e]) (sv_sockets t ! i)"
proof (cases "mover e")
  case None
  then show ?thesis
    using step_no_mover [OF assms(1) None assms(2)] assms(3) wakes_other [of e i] by (auto simp: socket_turn_def nth_append)
next
  case (Some j)
  obtain p where p: "socket_step (sv_sockets s ! j) e = Some p" "j < length (sv_sockets s)"
      "t = s\<lparr>sv_sockets := (sv_sockets s)[j := p]\<rparr>"
    by (rule move_socketE [OF step_mover [OF assms(1) Some]])
  show ?thesis
    using p assms(2,3) Some socket_step_turn [OF p(1), of i] wakes_other [of e i]
    by (cases "j = i") (auto simp: socket_turn_def)
qed

lemma hears_not_told: "hears p ws q \<Longrightarrow> p \<noteq> Told \<Longrightarrow> Notification \<notin> set ws \<and> q \<noteq> Told"
  by (cases p) (simp_all add: hears_def)

lemma hears_append:
  assumes "socket_turn p vs r" and "hears r ws q"
  shows "hears p (vs @ ws) q"
proof (cases "vs = []")
  case True
  with assms have "r = p \<or> p \<in> {Subscribing, Sending}" by (auto simp: socket_turn_def)
  with assms True show ?thesis
    using hears_not_told [OF assms(2)] by (auto simp: socket_turn_def hears_def [of Subscribing] hears_def [of Sending])
next
  case False
  then obtain b where b: "vs = [b]" "p \<in> {Selecting, Told}" "b = Notification \<longrightarrow> p = Told" "r = after_select b"
    using assms(1) by (auto simp: socket_turn_def)
  have "Notification \<notin> set ws \<and> q \<noteq> Told" using hears_not_told [OF assms(2)] b(4) after_select_not_told by simp
  moreover have "b = Notification \<Longrightarrow> ws = [] \<and> q = Over" using assms(2) b(4) by (simp add: hears_def)
  ultimately show ?thesis using b(1-3) by (auto simp: hears_def)
qed

lemma run_hears:
  "main_run s es = Some t \<Longrightarrow> stopping (sv_stage s) \<Longrightarrow> i < length (sv_sockets s) \<Longrightarrow>
   hears (sv_sockets s ! i) (wakes i es) (sv_sockets t ! i)"
proof (induction es arbitrary: s)
  case Nil
  then show ?case by (simp add: hears_def split: socket_place.split)
next
  case (Cons e es)
  then obtain r where r: "main_step s e = Some r" "main_run r es = Some t" by (auto split: Option.bind_splits)
  from stopping_step [OF r(1) Cons.prems(2,3)] have st: "stopping (sv_stage r)" "i < length (sv_sockets r)"
    "socket_turn (sv_sockets s ! i) (wakes i [e]) (sv_sockets r ! i)" by blast+
  have "wakes i (e # es) = wakes i [e] @ wakes i es" by (cases e) simp_all
  with hears_append [OF st(3) Cons.IH [OF r(2) st(1,2)]] show ?case by simp
qed

lemma step_idle:
  "main_step s e = Some t \<Longrightarrow> idle i [e] \<Longrightarrow> set (wakes i [e]) \<subseteq> {Notification}"
  by (cases e) (auto simp: idle_def elim!: move_socketE split: if_splits)

lemma run_idle: "main_run s es = Some t \<Longrightarrow> idle i es \<Longrightarrow> set (wakes i es) \<subseteq> {Notification}"
proof (induction es arbitrary: s)
  case (Cons e es)
  then obtain r where r: "main_step s e = Some r" "main_run r es = Some t" by (auto split: Option.bind_splits)
  have "idle i [e]" "idle i es" using Cons.prems(2) by (auto simp: idle_def)
  with step_idle [OF r(1)] Cons.IH [OF r(2)] have "set (wakes i [e] @ wakes i es) \<subseteq> {Notification}" by auto
  moreover have "wakes i (e # es) = wakes i [e] @ wakes i es" by (cases e) simp_all
  ultimately show ?case by simp
qed simp

text \<open>Before the signal no socket is told.\<close>

lemma not_told_step:
  assumes "main_step s e = Some t" and "\<not> stopping (sv_stage t)" and "Told \<notin> set (sv_sockets s)"
  shows "\<not> stopping (sv_stage s) \<and> Told \<notin> set (sv_sockets t)"
proof -
  have "\<not> stopping (sv_stage s)"
    using main_step_forward [OF assms(1)] assms(2) by (auto simp: stopping_def dest: order_trans)
  moreover have "Told \<notin> set (xs[j := p])" if "p \<noteq> Told" "Told \<notin> set xs" for xs j p
    using that set_update_subset_insert [of xs j p] by auto
  ultimately show ?thesis
    using assms socket_step_told after_select_not_told by (cases e) (auto elim!: move_socketE split: if_splits sum.splits prod.splits)
qed

lemma serving_not_told:
  "main_run launched es = Some s \<Longrightarrow> \<not> stopping (sv_stage s) \<Longrightarrow> Told \<notin> set (sv_sockets s)"
proof (induction es arbitrary: s rule: rev_induct)
  case (snoc e es)
  then obtain r where r: "main_run launched es = Some r" "main_step r e = Some s"
    by (auto simp: main_run_snoc split: Option.bind_splits)
  have "\<not> stopping (sv_stage r)"
    using main_step_forward [OF r(2)] snoc.prems(2) by (auto simp: stopping_def dest: order_trans)
  with snoc.IH [OF r(1)] not_told_step [OF r(2) snoc.prems(2)] show ?case by blast
qed (auto simp: launched_def)

text \<open>
  C34. At the shutdown signal the WebSockets that wait in their \<open>select\<close> are notified, and no other ever is. A
  notified socket that finds nothing else ready closes at its next turn. One that also finds a message or a frame may
  take that branch instead, and then, as one that was sending or still subscribing at the signal, it never hears of
  the shutdown: the notification is taken at the first turn after the signal or lost.
\<close>

theorem shutdown_tells_waiting_sockets:
  assumes "main_run launched es = Some s" and "main_run s (Signalled # es') = Some t" and "i < length (sv_sockets s)"
  shows "(Notification \<in> set (wakes i es') \<longleftrightarrow> sv_sockets s ! i = Selecting \<and> wakes i es' = [Notification]) \<and>
    (sv_sockets s ! i = Selecting \<and> idle i es' \<longrightarrow> sv_sockets t ! i = (if wakes i es' = [] then Told else Over))"
proof -
  obtain r where r: "r = s\<lparr>sv_stage := Draining, sv_sockets := notify_waiters (sv_sockets s)\<rparr>" "main_run r es' = Some t"
    using assms(2) by (auto split: if_splits Option.bind_splits)
  have "\<not> stopping (sv_stage s)" using assms(2) by (cases "sv_stage s") (simp_all split: Option.bind_splits)
  then have n: "sv_sockets s ! i \<noteq> Told" using serving_not_told [OF assms(1)] assms(3) nth_mem by force
  have "hears (sv_sockets r ! i) (wakes i es') (sv_sockets t ! i)"
    by (rule run_hears [OF r(2)]) (use assms(3) in \<open>simp_all add: r(1) notify_waiters_def\<close>)
  then have h: "hears (if sv_sockets s ! i = Selecting then Told else sv_sockets s ! i) (wakes i es') (sv_sockets t ! i)"
    using assms(3) by (simp add: r(1) notify_waiters_def)
  show ?thesis
  proof (cases "sv_sockets s ! i = Selecting")
    case True
    with h show ?thesis
      using run_idle [OF r(2), of i] by (cases "wakes i es'") (auto simp: hears_def split: if_splits)
  next
    case False
    with h n hears_not_told show ?thesis by auto
  qed
qed

section \<open>Example\<close>

definition demo_life :: "server_event list" where
  "demo_life = [Built (Inr (demo_app, True)), Bound (Inr ()), Opened, Subscribed 0 True, Opened, Subscribed 1 True, Opened,
     Subscribed 2 True, Woken 2 [Payload] Payload]"

definition demo_serving :: server where
  "demo_serving = \<lparr>sv_stage = Serving, sv_gauge = True, sv_sockets = [Selecting, Selecting, Sending]\<rparr>"

lemma demo_run: "main_run launched demo_life = Some demo_serving"
  by (simp add: demo_life_def launched_def demo_serving_def move_socket_def)

theorem server_ends_right_witness:
  "ends_right (demo_life @ [Signalled, Woken 0 [Notification] Notification, Sent 2 True, Drained])
     \<lparr>sv_stage = Exited 0, sv_gauge = False, sv_sockets = [Over, Told, Selecting]\<rparr>"
  by (rule server_ends_right) (simp add: main_run_append demo_run demo_serving_def notify_waiters_def move_socket_def)

text \<open>
  Two sockets wait at the signal: the first closes; the second finds a frame too, takes it and waits on for good. The third
  was sending.
\<close>

definition demo_shutdown :: "server_event list" where
  "demo_shutdown = [Woken 0 [Notification] Notification, Woken 1 [Notification, Frame False] (Frame False), Sent 2 True]"

theorem shutdown_tells_waiting_sockets_witness:
  "\<exists>t. main_run demo_serving (Signalled # demo_shutdown) = Some t \<and> sv_sockets t = [Over, Selecting, Selecting] \<and>
     idle 0 demo_shutdown \<and> Notification \<notin> set (wakes 1 demo_shutdown)"
proof -
  obtain t where t: "main_run demo_serving (Signalled # demo_shutdown) = Some t" "sv_sockets t = [Over, Selecting, Selecting]"
    by (simp add: demo_serving_def demo_shutdown_def notify_waiters_def move_socket_def)
  have "idle 0 demo_shutdown" by (auto simp: idle_def demo_shutdown_def)
  with t show ?thesis
    using shutdown_tells_waiting_sockets [OF demo_run t(1), of 1]
    by (auto simp: demo_serving_def demo_shutdown_def)
qed

end
