(* ===== verification/Cache_Client.thy ===== *)
theory Cache_Client
  imports Store_Frames
begin

text \<open>
  The client of the cache crate: how it is made (\<open>backend/cache/src/lib.rs\<close>), and the deletion of all keys
  that match a pattern (\<open>cache.rs\<close>), which walks over the store page by page with \<open>SCAN\<close>.
\<close>

section \<open>Making a client\<close>

text \<open>
  The options the code sets on a client: timeouts in seconds, and the exponential reconnect policy (its
  attempts, shortest and longest pause in milliseconds, and base). \<open>fred_ops\<close> is the client library.
\<close>

record client_options =
  co_connection_timeout :: nat
  co_command_timeout :: "nat option"
  co_reconnect :: "(nat \<times> nat \<times> nat \<times> nat) option"

record ('f, 'c) fred_ops =
  fr_from_url :: "string \<Rightarrow> string + 'f"
  fr_build :: "'f \<Rightarrow> client_options \<Rightarrow> string + 'c"
  fr_init :: "'c \<Rightarrow> string + unit"

record 'c redis_client =
  rc_client :: 'c
  rc_key_prefix :: string

definition redis_client_new ::
  "('f, 'c) fred_ops \<Rightarrow> string \<Rightarrow> string \<Rightarrow> cache_error + 'c redis_client" where
  "redis_client_new F link key_prefix = (case fr_from_url F link of
       Inl e \<Rightarrow> Inl (ConnectionFailed e)
     | Inr cf \<Rightarrow> (case fr_build F cf \<lparr>co_connection_timeout = 5, co_command_timeout = None, co_reconnect = None\<rparr> of
         Inl e \<Rightarrow> Inl (ConnectionFailed e)
       | Inr c \<Rightarrow> (case fr_init F c of
           Inl e \<Rightarrow> Inl (ConnectionFailed e)
         | Inr _ \<Rightarrow> Inr \<lparr>rc_client = c, rc_key_prefix = key_prefix\<rparr>)))"

definition redis_client_from_env ::
  "(string \<Rightarrow> string option) \<Rightarrow> ('f, 'c) fred_ops \<Rightarrow> cache_error + 'c redis_client" where
  "redis_client_from_env vars F = (case vars ''REDIS_URL'' of
       None \<Rightarrow> Inl NotConfigured
     | Some link \<Rightarrow> (case fr_from_url F link of
         Inl e \<Rightarrow> Inl (ConnectionFailed e)
       | Inr cf \<Rightarrow> (case fr_build F cf \<lparr>co_connection_timeout = 5, co_command_timeout = Some 5,
             co_reconnect = Some (0, 100, 30000, 2)\<rparr> of
           Inl e \<Rightarrow> Inl (ConnectionFailed e)
         | Inr c \<Rightarrow> (case fr_init F c of
             Inl e \<Rightarrow> Inl (ConnectionFailed e)
           | Inr _ \<Rightarrow> Inr \<lparr>rc_client = c,
               rc_key_prefix = (case vars ''REDIS_KEY_PREFIX'' of Some p \<Rightarrow> p | None \<Rightarrow> ''fullstackhex'')\<rparr>))))"

text \<open>Redis counts as switched off exactly when its address is not set.\<close>

lemma from_env_not_configured:
  "redis_client_from_env vars F = Inl NotConfigured \<longleftrightarrow> vars ''REDIS_URL'' = None"
  by (simp add: redis_client_from_env_def split: option.split sum.split)

section \<open>Deleting by pattern\<close>

text \<open>
  \<open>scan pattern count cursor\<close> is one page of \<open>SCAN\<close>: its keys and the nx cursor, \<open>0\<close> at the end. The loop runs
  as long as there are pages; \<open>None\<close>: there were more pages than \<open>fuel\<close>.
\<close>

type_synonym 'r scan = "string \<Rightarrow> nat \<Rightarrow> string \<Rightarrow> ('r, string list \<times> string) cmd"

primrec invalidate_pages ::
  "('r, 'd, 'o) env \<Rightarrow> (string \<Rightarrow> ('r, string list \<times> string) cmd) \<Rightarrow> nat \<Rightarrow> string \<Rightarrow> u64 \<Rightarrow>
   (('r, 'd, 'o) world, (cache_error + u64) option) prog" where
  "invalidate_pages E page 0 cursor n = Ret None"
| "invalidate_pages E page (Suc fuel) cursor n =
     bind (redis_act E (page cursor)) (\<lambda>r. case r of
         Inl e \<Rightarrow> Ret (Some (Inl e))
       | Inr (ks, next_cursor) \<Rightarrow>
           bind (if ks = [] then Ret (Inr ()) else redis_act E (r_del (e_redis E) ks)) (\<lambda>d. case d of
               Inl e \<Rightarrow> Ret (Some (Inl e))
             | Inr _ \<Rightarrow>
                 let n' = n + of_nat (length ks) in
                 if next_cursor = ''0'' then Ret (Some (Inr n'))
                 else invalidate_pages E page fuel next_cursor n'))"

definition cache_invalidate_pattern ::
  "('r, 'd, 'o) env \<Rightarrow> 'r scan \<Rightarrow> nat \<Rightarrow> string \<Rightarrow> string \<Rightarrow> (('r, 'd, 'o) world, (cache_error + u64) option) prog" where
  "cache_invalidate_pattern E scan fuel namespace pattern =
     (let full_pattern = make_key E namespace pattern in
      invalidate_pages E (scan full_pattern 100) fuel ''0'' 0)"

subsection \<open>It ends with the pages\<close>

text \<open>From a cursor on, whatever happens to the store, there are at most so many pages.\<close>

primrec pages_within :: "(string \<Rightarrow> ('r, string list \<times> string) cmd) \<Rightarrow> nat \<Rightarrow> string \<Rightarrow> bool" where
  "pages_within page 0 cursor = False"
| "pages_within page (Suc m) cursor \<longleftrightarrow> (\<forall>r ks next_cursor r'.
     page cursor r = (Inr (ks, next_cursor), r') \<longrightarrow> next_cursor = ''0'' \<or> pages_within page m next_cursor)"

lemma redis_send_Inr: "redis_send R c r = (Inr a, r') \<Longrightarrow> \<exists>r1. c r1 = (Inr a, r')"
  by (auto simp: redis_send_def split: prod.splits link.splits)

lemma invalidate_pages_returns:
  "pages_within page fuel cursor \<Longrightarrow> fst (run (invalidate_pages E page fuel cursor n) w) \<noteq> None"
proof (induction fuel arbitrary: cursor n w)
  case (Suc fuel)
  obtain r w1 where r: "run (redis_act E (page cursor)) w = (r, w1)" by (cases "run (redis_act E (page cursor)) w")
  show ?case
  proof (cases r)
    case (Inr a)
    obtain ks next_cursor where a: "a = (ks, next_cursor)" by (cases a)
    obtain r1 r2 where "page cursor r1 = (Inr (ks, next_cursor), r2)"
      using r Inr a redis_send_Inr [of "e_redis E" "page cursor" "redis w"]
      by (fastforce simp: run_redis_act split: prod.splits)
    with Suc.prems have "next_cursor = ''0'' \<or> pages_within page fuel next_cursor" by auto
    then show ?thesis
      using Suc.IH by (auto simp: run_bind r Inr a Let_def run_Ret split: sum.split prod.split)
  qed (simp add: run_bind r run_Ret)
qed simp

lemma cache_invalidate_returns:
  assumes "pages_within (scan (make_key E namespace pattern) 100) fuel ''0''"
  shows "\<exists>r. fst (run (cache_invalidate_pattern E scan fuel namespace pattern) w) = Some r"
  using invalidate_pages_returns [OF assms] by (auto simp: cache_invalidate_pattern_def)

subsection \<open>Other keys are left alone\<close>

context redis_env
begin

text \<open>A page that names a key only if it matches, and does not change the store.\<close>

lemma scan_spares:
  assumes "\<And>r. db_of (snd (c r)) = db_of r" and "\<And>r ks nx r'. c r = (Inr (ks, nx), r') \<Longrightarrow> k \<notin> set ks"
  shows "steps (aged db_of k) (\<lambda>x. case x of Inl _ \<Rightarrow> True | Inr (ks, _) \<Rightarrow> k \<notin> set ks) (redis_act E c)"
  unfolding redis_act_def
proof (rule steps_act)
  fix w w' :: "('r, 'd, 'o) world" and x
  assume a: "(case redis_send (e_redis E) c (redis w) of (x, r) \<Rightarrow> (map_err CommandFailed x, w\<lparr>redis := r\<rparr>)) = (x, w')"
  obtain y r where y: "redis_send (e_redis E) c (redis w) = (y, r)" by (cases "redis_send (e_redis E) c (redis w)")
  obtain l r1 where l: "r_link (e_redis E) (redis w) = (l, r1)" by (cases "r_link (e_redis E) (redis w)")
  obtain dt where dt: "db_of r1 = elapse dt (db_of (redis w))" using link [of "redis w"] l by auto
  have "db_of r = db_of r1"
    using y l assms(1) [of r1] by (auto simp: redis_send_def split: link.splits)
  then have "later k (rdb_of db_of w) (rdb_of db_of w')"
    using a y dt by (auto simp: rdb_of_def later_elapse)
  moreover have "k \<notin> set ks" if "x = Inr (ks, nx)" for ks nx
    using a y that redis_send_Inr [of "e_redis E" c "redis w"] assms(2)
    by (fastforce simp: map_err_eq_Inr)
  ultimately show "aged db_of k w w' \<and> (case x of Inl _ \<Rightarrow> True | Inr (ks, _) \<Rightarrow> k \<notin> set ks)"
    by (auto simp: aged_def split: sum.split)
qed

lemma invalidate_pages_spares:
  assumes "\<And>cursor r. db_of (snd (page cursor r)) = db_of r"
    and "\<And>cursor r ks nx r'. page cursor r = (Inr (ks, nx), r') \<Longrightarrow> k \<notin> set ks"
  shows "spares db_of k (invalidate_pages E page fuel cursor n)"
proof (induction fuel arbitrary: cursor n)
  case (Suc fuel)
  show ?case
    unfolding invalidate_pages.simps
  proof (rule steps_bind [OF scan_spares [of "page cursor"]])
    show "db_of (snd (page cursor r)) = db_of r" for r by (rule assms(1))
    show "page cursor r = (Inr (ks, nx), r') \<Longrightarrow> k \<notin> set ks" for r ks nx r' by (rule assms(2))
    fix x :: "cache_error + string list \<times> string"
    assume x: "case x of Inl _ \<Rightarrow> True | Inr (ks, _) \<Rightarrow> k \<notin> set ks"
    have "spares db_of k (redis_act E (r_del (e_redis E) ks))" if "k \<notin> set ks" for ks
      by (rule spares_redis_act [OF del]) (rule inert_writes(9) [OF that])
    with x Suc show "spares db_of k (case x of Inl e \<Rightarrow> Ret (Some (Inl e))
      | Inr (ks, next_cursor) \<Rightarrow>
           bind (if ks = [] then Ret (Inr ()) else redis_act E (r_del (e_redis E) ks)) (\<lambda>d. case d of
               Inl e \<Rightarrow> Ret (Some (Inl e))
             | Inr _ \<Rightarrow>
                 let n' = n + of_nat (length ks) in
                 if next_cursor = ''0'' then Ret (Some (Inr n'))
                 else invalidate_pages E page fuel next_cursor n'))"
      by (auto simp: Let_def intro!: sparing split: sum.split)
  qed
qed (simp add: spares_Ret)

end

end
