(* ===== verification/Spec2Isabelle.thy ===== *)
theory Spec2Isabelle
  imports Rate_Window Note_Store Storage_Presign Store_Types Credentials Server_Life Cache_Client
begin

text \<open>
  The FullStackHex backend (\<open>src/backend\<close>), a Rust web server: accounts and sessions, a notes API, object
  storage, a sidecar process, live events over WebSockets, and health checks.

  \<^bold>\<open>The program.\<close> The crates are \<open>domain\<close> (errors, flags, clock), \<open>cache\<close> (Redis: key-value store, sessions,
  rate limits, publish and subscribe), \<open>auth\<close> (passwords, tokens, cookies, CSRF, OAuth, the middleware and
  the \<open>/auth\<close> routes), \<open>storage\<close> (an S3 client with its signatures, and the \<open>/storage\<close> routes), \<open>py-sidecar\<close> (an
  HTTP client over a Unix socket) and \<open>api\<close> (start-up, router, middlewares, notes, live events, health). A
  request passes the layers of the router, which resolve its user from a bearer token or a session
  cookie, and reaches a handler, which checks limits in Redis, reads and writes the tables of PostgreSQL,
  and tells the WebSocket clients what happened through Redis.

  \<^bold>\<open>The model.\<close> A handler is a \<open>prog\<close> (\<open>Prelude\<close>): a tree of atomic steps over the \<open>world\<close> (\<open>World\<close>), which
  holds the states of the services and the process-wide state of the server (the \<open>static\<close>s and the shared
  fields of the state structs). One Redis command or script, one SQL statement, one critical section
  without an \<open>await\<close> is one step; the sections of the health caches, which await their probe, are the relation \<open>health_move\<close>. \<open>run\<close> executes a handler alone; \<open>pool_reaches\<close> interleaves the steps of any number of handlers
  and of an environment. Errors are values (\<open>api_error\<close>, \<open>cache_error\<close>, \<open>sidecar_error\<close>); \<open>attempt\<close> is the \<open>?\<close> operator;
  \<open>join_all2\<close> is \<open>tokio::join!\<close> under any scheduler. Integers are words of their width where they can
  wrap around, texts are byte strings, hash maps are association lists with distinct keys.

  \<^bold>\<open>What is not the program.\<close> Redis, PostgreSQL, the operating system and the libraries are parameters, records
  of operations in \<open>env\<close>. What the code relies on are the laws of locales: \<open>redis_service\<close> (each command
  does what the reference command does, and a request or its reply may be lost), \<open>postgres_service\<close> (each
  statement relates the tables before and after), \<open>os_service\<close> (fresh random texts), \<open>url_service\<close> and its extensions \<open>signing_service\<close>
  and \<open>strict_signing\<close>, \<open>axum\<close>.
  \<open>Reference\<close> gives one concrete instance of each, in which the witnesses run.

  \<^bold>\<open>The theories.\<close>
  \<^item> \<open>Prelude\<close>, \<open>Text\<close>, \<open>Utf8\<close>, \<open>Domain\<close>: programs, their steps and pools, hash maps, machine integers; text
    operations of the Rust library; errors, flags, clock.
  \<^item> \<open>Redis\<close>, \<open>Postgres\<close>, \<open>World\<close>, \<open>Reference\<close>: the interfaces and their reference instances.
  \<^item> \<open>Cache_Store\<close>, \<open>Cache_Client\<close>, \<open>Rate_Limit\<close>, \<open>Rate_Window\<close>, \<open>Ttl_Cache\<close>, \<open>Session\<close>, \<open>Store_Frames\<close>, \<open>Pubsub\<close>: the
    \<open>cache\<close> crate. Values are read back until they expire; single-use tokens are taken once; checks of the
    rate limiter interleave step by step (\<open>limiter_run\<close>), and a window less the delay of a check admits at most its maximum; the
    backoff blocks; sessions are found until they expire or are destroyed, and in the copy of the process up to 300 seconds longer; which keys an operation spares.
  \<^item> \<open>Auth_Core\<close>, \<open>Auth_Middleware\<close>, \<open>Client_Ip\<close>, \<open>OAuth\<close>, \<open>Auth_Routes\<close>, \<open>Single_Use\<close>, \<open>Auth_Flows\<close>, \<open>Logout\<close>, \<open>Account_Ends\<close>, \<open>Credentials\<close>:
    the \<open>auth\<close> crate. Who is authenticated and by what; CSRF; revocation; what login, registration, refresh, password
    reset, deletion and OAuth do when they succeed, alone and interleaved; which password an account accepts
    after a registration and after a reset.
  \<^item> \<open>Storage\<close>, \<open>Storage_Keys\<close>, \<open>Sig_V4\<close>, \<open>Storage_Signing\<close>, \<open>Storage_Served\<close>, \<open>Storage_Presign\<close>: the \<open>storage\<close> crate. Signatures, requests,
    routes; where a key leads; the loop over the XML of a multipart response ends. \<open>Sig_V4\<close> is the specification of
    Signature Version 4 from the side of the service: which of the client's requests it accepts,
    by the characters of the key or prefix; it accepts a presigned URL for its method and host name only; and it refuses the request
    that starts a multipart upload.
  \<^item> \<open>Sidecar\<close>: the \<open>py-sidecar\<close> crate. Requests on the wire and back, header injection, retries and their bound.
  \<^item> \<open>App_State\<close>, \<open>Notes\<close>, \<open>Note_Store\<close>, \<open>Resources\<close>, \<open>Live\<close>, \<open>Health\<close>, \<open>Metrics\<close>, \<open>Api_Router\<close>, \<open>Server_Life\<close>: the \<open>api\<close> crate. Start-up;
    notes with their pages, isolation, and refinement of a specification with one notebook per user;
    connection limits by accounting for permits; probes of the health checks, with the locks of their caches and requests that are dropped; the router and its layers; the process from its
    start to its exit code (\<open>main_step\<close>), with what the open WebSockets hear of the shutdown and how they can miss it.
  \<^item> \<open>Table_Frames\<close>, \<open>Consistency\<close>, \<open>Store_Types\<close>: all handlers together (\<open>serve_call\<close>). In every interleaving the tables
    keep their constraints and every Redis key keeps the kind of value of its namespace.

  \<^bold>\<open>Loops.\<close> The retries of the sidecar recurse on the attempts left, at most \<open>max_retries + 1\<close>. The loop over XML
  events is a partial function whose result \<open>None\<close> is not returning; \<open>multipart_init_returns\<close> shows it returns
  for every reader that consumes its input. The deletion by pattern takes fuel, one unit per page of \<open>SCAN\<close>;
  \<open>cache_invalidate_returns\<close> shows that as much fuel as there are pages is enough. The subscriber and the WebSocket loops
  recurse on what they receive.

  \<^bold>\<open>Bounds in hypotheses.\<close> Redis scores are doubles, exact up to \<open>2 ^ 53\<close>; \<open>clock_fits\<close> says that the clock in milliseconds
  is below that and not within one window of 1970, where the code's subtraction would wrap.

  \<^bold>\<open>Not modelled.\<close> The SQL of the migrations (run by sqlx; their constraints are in
  \<open>pg_ok\<close>), how axum listens and drains (events of \<open>main_step\<close>), the age of a presigned URL, logging, the
  Prometheus recorder beyond the samples handed to it, the bodies of streamed uploads and downloads beyond their limits, and the crates' tests.
\<close>

end
